(* ===== verification/Prelude.thy ===== *)
theory Prelude
  imports Complex_Main
begin

text \<open>
  What every component of the development shares: the exceptions the Python code raises and
  catches, computations that pass a state and may raise, the string operations of the standard
  library, decimal printing and reading of integers, and Lua's numbers.

  Text is a \<^typ>\<open>string\<close> (a list of 8-bit characters), read as Latin-1: one character per code
  point up to 255. The ASCII part, which is all the code compares against, is exact.
\<close>

named_theorems io_simps \<open>equations of the state-and-exception operations\<close>
named_theorems io_splits \<open>case splits on their results\<close>

section \<open>Exceptions and computations\<close>

text \<open>
  The exception classes the code distinguishes. The argument of each is \<open>str(exc)\<close>. Everything the
  code does not name in an \<open>except\<close> clause is \<open>OtherError\<close>.
\<close>

datatype exn =
    TimeoutError string
  | NoScriptError string
  | ValueError string
  | RuntimeError string
  | AssertionError string
  | KeyError string
  | ResponseError string
  | WebSocketDisconnect string
  | OtherError string

fun exn_str :: "exn \<Rightarrow> string" where
  "exn_str (TimeoutError m) = m"
| "exn_str (NoScriptError m) = m"
| "exn_str (ValueError m) = m"
| "exn_str (RuntimeError m) = m"
| "exn_str (AssertionError m) = m"
| "exn_str (KeyError m) = m"
| "exn_str (ResponseError m) = m"
| "exn_str (WebSocketDisconnect m) = m"
| "exn_str (OtherError m) = m"

type_synonym 'a res = "exn + 'a"
type_synonym ('w, 'a) io = "'w \<Rightarrow> 'a res \<times> 'w"

definition returnE :: "'a \<Rightarrow> ('w, 'a) io" where
  "returnE x = (\<lambda>w. (Inr x, w))"

definition raiseE :: "exn \<Rightarrow> ('w, 'a) io" where
  "raiseE e = (\<lambda>w. (Inl e, w))"

text \<open>Sequencing: an exception skips the rest, and the state reached so far is kept.\<close>

definition bindE :: "('w, 'a) io \<Rightarrow> ('a \<Rightarrow> ('w, 'b) io) \<Rightarrow> ('w, 'b) io" where
  "bindE m f = (\<lambda>w. case m w of (Inl e, w') \<Rightarrow> (Inl e, w') | (Inr x, w') \<Rightarrow> f x w')"

definition tryE :: "('w, 'a) io \<Rightarrow> (exn \<Rightarrow> ('w, 'a) io) \<Rightarrow> ('w, 'a) io" where
  "tryE m h = (\<lambda>w. case m w of (Inl e, w') \<Rightarrow> h e w' | (Inr x, w') \<Rightarrow> (Inr x, w'))"

lemma returnE_apply [io_simps, simp]: "returnE x w = (Inr x, w)"
  by (simp add: returnE_def)

lemma raiseE_apply [io_simps, simp]: "raiseE e w = (Inl e, w)"
  by (simp add: raiseE_def)

lemma bindE_Inl [io_simps]: "m w = (Inl e, w') \<Longrightarrow> bindE m f w = (Inl e, w')"
  by (simp add: bindE_def)

lemma bindE_Inr [io_simps]: "m w = (Inr x, w') \<Longrightarrow> bindE m f w = f x w'"
  by (simp add: bindE_def)

lemma bindE_assoc: "bindE (bindE m f) g = bindE m (\<lambda>x. bindE (f x) g)"
  by (auto simp: bindE_def fun_eq_iff split: prod.splits sum.splits)

lemma tryE_Inl [io_simps]: "m w = (Inl e, w') \<Longrightarrow> tryE m h w = h e w'"
  by (simp add: tryE_def)

lemma tryE_Inr [io_simps]: "m w = (Inr x, w') \<Longrightarrow> tryE m h w = (Inr x, w')"
  by (simp add: tryE_def)

declare sum.splits [io_splits] prod.splits [io_splits] option.splits [io_splits]

fun is_error :: "'a res \<Rightarrow> bool" where
  "is_error (Inl _) = True"
| "is_error (Inr _) = False"

section \<open>Strings\<close>

text \<open>\<open>str.isspace\<close> of one character, over Latin-1.\<close>

definition py_isspace :: "char \<Rightarrow> bool" where
  "py_isspace c = (let n = (of_char c :: nat) in
     (9 \<le> n \<and> n \<le> 13) \<or> (28 \<le> n \<and> n \<le> 32) \<or> n = 133 \<or> n = 160)"

definition lstrip :: "string \<Rightarrow> string" where
  "lstrip s = dropWhile py_isspace s"

definition rstrip :: "string \<Rightarrow> string" where
  "rstrip s = rev (dropWhile py_isspace (rev s))"

definition strip :: "string \<Rightarrow> string" where
  "strip s = rstrip (lstrip s)"

text \<open>\<open>s.rstrip(c)\<close> for a one-character argument.\<close>

definition rstrip_char :: "char \<Rightarrow> string \<Rightarrow> string" where
  "rstrip_char c s = rev (dropWhile (\<lambda>d. d = c) (rev s))"

definition lower_char :: "char \<Rightarrow> char" where
  "lower_char c = (let n = (of_char c :: nat) in
     if (65 \<le> n \<and> n \<le> 90) \<or> (192 \<le> n \<and> n \<le> 222 \<and> n \<noteq> 215) then char_of (n + 32) else c)"

definition lower :: "string \<Rightarrow> string" where
  "lower s = map lower_char s"

text \<open>
  Upper case over Latin-1: the sharp s becomes \<open>SS\<close>; the two letters whose upper case lies outside
  Latin-1 (the micro sign and y with diaeresis) are kept.
\<close>

definition upper_char :: "char \<Rightarrow> string" where
  "upper_char c = (let n = (of_char c :: nat) in
     if n = 223 then ''SS''
     else if (97 \<le> n \<and> n \<le> 122) \<or> (224 \<le> n \<and> n \<le> 254 \<and> n \<noteq> 247) then [char_of (n - 32)] else [c])"

definition upper :: "string \<Rightarrow> string" where
  "upper s = concat (map upper_char s)"

definition startswith :: "string \<Rightarrow> string \<Rightarrow> bool" where
  "startswith s p = (take (length p) s = p)"

definition endswith :: "string \<Rightarrow> string \<Rightarrow> bool" where
  "endswith s p = startswith (rev s) (rev p)"

text \<open>\<open>sub in s\<close> for strings.\<close>

fun str_in :: "string \<Rightarrow> string \<Rightarrow> bool" where
  "str_in sub [] = (sub = [])"
| "str_in sub (c # cs) = (startswith (c # cs) sub \<or> str_in sub cs)"

text \<open>\<open>s.replace(a, b)\<close>: left to right, occurrences do not overlap. The pattern is not empty.\<close>

function str_replace :: "string \<Rightarrow> string \<Rightarrow> string \<Rightarrow> string" where
  "str_replace a b [] = []"
| "str_replace a b (c # cs) =
     (if a \<noteq> [] \<and> startswith (c # cs) a then b @ str_replace a b (drop (length a) (c # cs))
      else c # str_replace a b cs)"
  by pat_completeness auto
termination
  by (relation "measure (\<lambda>(a, b, s). length s)") (auto simp: Suc_diff_le)

text \<open>\<open>sep.join(parts)\<close>.\<close>

fun str_join :: "string \<Rightarrow> string list \<Rightarrow> string" where
  "str_join sep [] = []"
| "str_join sep [x] = x"
| "str_join sep (x # y # xs) = x @ sep @ str_join sep (y # xs)"

lemma startswith_append [simp]: "startswith (p @ s) p"
  by (simp add: startswith_def)

lemma startswith_iff: "startswith s p \<longleftrightarrow> (\<exists>t. s = p @ t)"
  by (metis append_eq_conv_conj append_take_drop_id startswith_def)

lemma str_in_iff: "str_in sub s \<longleftrightarrow> (\<exists>u v. s = u @ sub @ v)"
proof (induction s)
  case Nil
  then show ?case by auto
next
  case (Cons c cs)
  show ?case
  proof
    assume "str_in sub (c # cs)"
    then consider "startswith (c # cs) sub" | "str_in sub cs" by auto
    then show "\<exists>u v. c # cs = u @ sub @ v"
    proof cases
      case 1
      then show ?thesis by (metis append_Nil startswith_iff)
    next
      case 2
      then show ?thesis using Cons.IH by (metis append_Cons)
    qed
  next
    assume "\<exists>u v. c # cs = u @ sub @ v"
    then obtain u v where e: "c # cs = u @ sub @ v" by blast
    show "str_in sub (c # cs)"
    proof (cases u)
      case Nil
      with e have "startswith (c # cs) sub" by simp
      then show ?thesis by simp
    next
      case (Cons d ds)
      with e have "cs = ds @ sub @ v" by simp
      then show ?thesis using Cons.IH by auto
    qed
  qed
qed

lemma dropWhile_rev_cons: "dropWhile P (rev s) = [] \<longleftrightarrow> (\<forall>c\<in>set s. P c)"
  by (simp add: dropWhile_eq_Nil_conv)

lemma strip_no_leading: "strip s = c # cs \<Longrightarrow> \<not> py_isspace c"
proof -
  assume h: "strip s = c # cs"
  have "\<exists>t. dropWhile py_isspace s = (c # cs) @ t"
    using h unfolding strip_def rstrip_def lstrip_def
    by (metis append_take_drop_id dropWhile_eq_drop rev_append rev_rev_ident takeWhile_dropWhile_id)
  then obtain t where "dropWhile py_isspace s = c # (cs @ t)" by auto
  then show "\<not> py_isspace c" by (simp add: dropWhile_eq_Cons_conv)
qed

section \<open>Decimal numbers\<close>

definition digit_char :: "nat \<Rightarrow> char" where
  "digit_char d = char_of (48 + d)"

definition is_digit :: "char \<Rightarrow> bool" where
  "is_digit c = (let n = (of_char c :: nat) in 48 \<le> n \<and> n \<le> 57)"

definition digit_val :: "char \<Rightarrow> nat" where
  "digit_val c = (of_char c :: nat) - 48"

fun str_of_nat :: "nat \<Rightarrow> string" where
  "str_of_nat n = (if n < 10 then [digit_char n] else str_of_nat (n div 10) @ [digit_char (n mod 10)])"

declare str_of_nat.simps [simp del]

text \<open>\<open>str(n)\<close> of a Python integer.\<close>

definition str_of_int :: "int \<Rightarrow> string" where
  "str_of_int i = (if i < 0 then ''-'' @ str_of_nat (nat (- i)) else str_of_nat (nat i))"

definition nat_of_str :: "string \<Rightarrow> nat option" where
  "nat_of_str s = (if s = [] \<or> \<not> list_all is_digit s then None
     else Some (foldl (\<lambda>a c. 10 * a + digit_val c) 0 s))"

text \<open>Reading a plain decimal integer with an optional minus sign.\<close>

fun int_of_str :: "string \<Rightarrow> int option" where
  "int_of_str [] = None"
| "int_of_str (c # cs) =
     (if c = CHR ''-'' then map_option (\<lambda>n. - int n) (nat_of_str cs)
      else map_option int (nat_of_str (c # cs)))"

lemma digit_char_props:
  assumes "d < 10"
  shows "is_digit (digit_char d)" and "digit_val (digit_char d) = d"
  using assms by (simp_all add: is_digit_def digit_val_def digit_char_def)

lemma str_of_nat_digits: "str_of_nat n \<noteq> [] \<and> list_all is_digit (str_of_nat n)"
proof (induction n rule: str_of_nat.induct)
  case (1 n)
  then show ?case
    by (cases "n < 10") (auto simp: str_of_nat.simps [of n] digit_char_props)
qed

lemma foldl_str_of_nat: "foldl (\<lambda>a c. 10 * a + digit_val c) 0 (str_of_nat n) = n"
proof (induction n rule: str_of_nat.induct)
  case (1 n)
  then show ?case
    by (cases "n < 10") (auto simp: str_of_nat.simps [of n] digit_char_props)
qed

lemma nat_of_str_of_nat [simp]: "nat_of_str (str_of_nat n) = Some n"
  using str_of_nat_digits [of n] by (simp add: nat_of_str_def foldl_str_of_nat)

lemma minus_not_digit: "\<not> is_digit (CHR ''-'')"
  by (simp add: is_digit_def)

lemma int_of_str_nat [simp]: "int_of_str (str_of_nat n) = Some (int n)"
proof (cases "str_of_nat n")
  case Nil
  then show ?thesis using str_of_nat_digits [of n] by simp
next
  case (Cons c cs)
  with str_of_nat_digits [of n] have "is_digit c" by simp
  then have "c \<noteq> CHR ''-''" using minus_not_digit by metis
  with Cons show ?thesis using nat_of_str_of_nat [of n] by simp
qed

lemma int_of_str_of_int [simp]: "int_of_str (str_of_int i) = Some i"
  by (cases "i < 0") (simp_all add: str_of_int_def)

lemma str_of_int_inj: "str_of_int i = str_of_int j \<longleftrightarrow> i = j"
  by (metis int_of_str_of_int option.inject)

lemma str_of_int_not_Nil [simp]: "str_of_int i \<noteq> []"
  using str_of_nat_digits by (auto simp: str_of_int_def)

section \<open>Lua numbers\<close>

text \<open>
  Redis runs Lua 5.1, whose numbers are IEEE doubles: an integer of more than 53 bits is rounded to
  the nearest one with 53 significant bits, ties to even.
\<close>

fun bit_len :: "nat \<Rightarrow> nat" where
  "bit_len n = (if n = 0 then 0 else Suc (bit_len (n div 2)))"

declare bit_len.simps [simp del]

definition double_of_nat :: "nat \<Rightarrow> nat" where
  "double_of_nat n =
     (if n < 2 ^ 53 then n
      else let k = bit_len n - 53; q = n div 2 ^ k; r = n mod 2 ^ k; half = 2 ^ (k - 1)
        in (if half < r \<or> (r = half \<and> odd q) then q + 1 else q) * 2 ^ k)"

definition double_of_int :: "int \<Rightarrow> int" where
  "double_of_int i = (if i < 0 then - int (double_of_nat (nat (- i))) else int (double_of_nat (nat i)))"

text \<open>\<open>tonumber\<close> on the decimal integers the service passes and stores; \<open>None\<close> is Lua's \<open>nil\<close>.\<close>

definition lua_tonumber :: "string \<Rightarrow> int option" where
  "lua_tonumber s = map_option double_of_int (int_of_str s)"

lemma double_small [simp]: "n < 2 ^ 53 \<Longrightarrow> double_of_nat n = n"
  by (simp add: double_of_nat_def)

lemma double_of_int_small: "0 \<le> i \<Longrightarrow> i < 2 ^ 53 \<Longrightarrow> double_of_int i = i"
  by (simp add: double_of_int_def nat_less_iff)

lemma bit_len_lower: "0 < n \<Longrightarrow> 2 ^ (bit_len n - 1) \<le> n"
proof (induction n rule: bit_len.induct)
  case (1 n)
  show ?case
  proof (cases "n = 1")
    case True
    then show ?thesis by (simp add: bit_len.simps)
  next
    case False
    with "1.prems" have p: "0 < n div 2" by simp
    with "1.IH" "1.prems" have ih: "2 ^ (bit_len (n div 2) - 1) \<le> n div 2" by simp
    from p have "0 < bit_len (n div 2)" by (simp add: bit_len.simps)
    then have "bit_len n - 1 = Suc (bit_len (n div 2) - 1)"
      using "1.prems" by (simp add: bit_len.simps [of n])
    with ih show ?thesis by simp
  qed
qed

lemma bit_len_upper: "n < 2 ^ bit_len n"
proof (induction n rule: bit_len.induct)
  case (1 n)
  show ?case
  proof (cases "n = 0")
    case True
    then show ?thesis by (simp add: bit_len.simps)
  next
    case False
    with "1.IH" have "n div 2 < 2 ^ bit_len (n div 2)" by simp
    then have "n < 2 * 2 ^ bit_len (n div 2)" by simp
    with False show ?thesis by (simp add: bit_len.simps [of n])
  qed
qed

text \<open>Rounding never brings a large integer below \<open>2 ^ 53\<close>.\<close>

lemma double_large: "2 ^ 53 \<le> n \<Longrightarrow> 2 ^ 53 \<le> double_of_nat n"
proof -
  assume n: "2 ^ 53 \<le> n"
  have "2 ^ 53 < (2::nat) ^ bit_len n" using n bit_len_upper [of n] by (rule le_less_trans)
  then have b: "53 < bit_len n" by (rule power_less_imp_less_exp [rotated]) simp
  define k where "k = bit_len n - 53"
  have low: "2 ^ (bit_len n - 1) \<le> n" using n by (intro bit_len_lower) simp
  have e: "bit_len n - 1 = 52 + k" using b by (simp add: k_def)
  have "2 ^ 52 * 2 ^ k \<le> n" using low by (simp only: e power_add)
  then have q: "2 ^ 52 \<le> n div 2 ^ k"
    by (simp add: less_eq_div_iff_mult_less_eq)
  have k: "(2::nat) \<le> 2 ^ k" using b by (cases k) (auto simp: k_def)
  let ?q = "n div 2 ^ k"
  have "2 ^ 53 \<le> ?q * 2 ^ k"
    using mult_le_mono [OF q k] by simp
  also have "\<dots> \<le> double_of_nat n"
    using n by (auto simp: double_of_nat_def Let_def k_def)
  finally show ?thesis .
qed

lemma double_of_int_large: "2 ^ 53 \<le> i \<Longrightarrow> 2 ^ 53 \<le> double_of_int i"
  using double_large [of "nat i"] by (simp add: double_of_int_def le_nat_iff)

lemma double_of_int_cmp:
  assumes "0 \<le> c" "c < 2 ^ 53" "0 \<le> i"
  shows "double_of_int i = c \<longleftrightarrow> i = c" and "double_of_int i < c \<longleftrightarrow> i < c"
proof -
  have "i < 2 ^ 53 \<Longrightarrow> double_of_int i = i" using assms by (simp add: double_of_int_small)
  moreover have "\<not> i < 2 ^ 53 \<Longrightarrow> 2 ^ 53 \<le> double_of_int i"
    by (rule double_of_int_large) simp
  ultimately show "double_of_int i = c \<longleftrightarrow> i = c" and "double_of_int i < c \<longleftrightarrow> i < c"
    using assms by (smt (verit))+
qed

text \<open>The first integer a double cannot hold.\<close>

lemma double_first_gap: "double_of_int (2 ^ 53 + 1) = 2 ^ 53"
  by (simp add: double_of_int_def double_of_nat_def bit_len.simps Let_def)

lemma lua_tonumber_of_int [simp]: "lua_tonumber (str_of_int i) = Some (double_of_int i)"
  by (simp add: lua_tonumber_def)

lemma double_nonneg:
  assumes "0 \<le> t"
  shows "0 \<le> double_of_int t" and "0 < t \<Longrightarrow> 0 < double_of_int t"
proof -
  have "double_of_int t = t \<or> 2 ^ 53 \<le> double_of_int t"
    by (cases "t < 2 ^ 53") (use assms double_of_int_small double_of_int_large in \<open>auto simp only: not_less\<close>)
  then show "0 \<le> double_of_int t" and "0 < t \<Longrightarrow> 0 < double_of_int t"
    using assms by auto
qed

lemma double_limit: "double_of_int (2 ^ 53) = 2 ^ 53"
  by (simp add: double_of_int_def double_of_nat_def bit_len.simps Let_def)

end
