(* ===== verification/Json.thy ===== *)
theory Json
  imports Prelude
begin

text \<open>
  The JSON values the service receives and builds, as \<open>orjson.loads\<close> returns them and
  \<open>orjson.dumps\<close> takes them, and the dictionary operations the code applies to them. A dictionary
  is an association list in insertion order; a dictionary the code builds has distinct keys.
\<close>

named_theorems json_simps \<open>equations of the dictionary operations\<close>

datatype json =
    JNull
  | JBool bool
  | JInt int
  | JFloat rat
  | JStr string
  | JArr "json list"
  | JObj "(string \<times> json) list"

type_synonym dict = "(string \<times> json) list"

text \<open>\<open>d.get(k)\<close>: a missing key and a stored null both give Python's \<open>None\<close>, here \<open>JNull\<close>.\<close>

definition dict_get :: "dict \<Rightarrow> string \<Rightarrow> json" where
  "dict_get d k = (case map_of d k of None \<Rightarrow> JNull | Some v \<Rightarrow> v)"

definition has_key :: "dict \<Rightarrow> string \<Rightarrow> bool" where
  "has_key d k = (k \<in> set (map fst d))"

text \<open>\<open>d[k] = v\<close>: in place for a known key, at the end for a new one.\<close>

fun dict_set :: "('k \<times> 'v) list \<Rightarrow> 'k \<Rightarrow> 'v \<Rightarrow> ('k \<times> 'v) list" where
  "dict_set [] k v = [(k, v)]"
| "dict_set ((k', v') # d) k v = (if k' = k then (k, v) # d else (k', v') # dict_set d k v)"

text \<open>\<open>d.update(e)\<close>: the entries of \<open>e\<close> in their order.\<close>

definition dict_update :: "('k \<times> 'v) list \<Rightarrow> ('k \<times> 'v) list \<Rightarrow> ('k \<times> 'v) list" where
  "dict_update d e = foldl (\<lambda>acc (k, v). dict_set acc k v) d e"

definition is_dict :: "json \<Rightarrow> bool" where
  "is_dict j = (case j of JObj _ \<Rightarrow> True | _ \<Rightarrow> False)"

text \<open>
  \<open>(x.get("metaData") or {}).get("eventType")\<close>, for a dictionary \<open>x\<close> the service itself has built.
\<close>

definition meta_event_type :: "dict \<Rightarrow> json" where
  "meta_event_type d = (case dict_get d ''metaData'' of JObj m \<Rightarrow> dict_get m ''eventType'' | _ \<Rightarrow> JNull)"

lemma map_of_dict_set [json_simps, simp]: "map_of (dict_set d k v) = (map_of d)(k \<mapsto> v)"
  by (induction d k v rule: dict_set.induct) (auto simp: fun_eq_iff)

lemma dict_set_keys [json_simps]: "set (map fst (dict_set d k v)) = insert k (set (map fst d))"
  by (induction d k v rule: dict_set.induct) auto

lemma dict_set_distinct: "distinct (map fst d) \<Longrightarrow> distinct (map fst (dict_set d k v))"
proof (induction d k v rule: dict_set.induct)
  case (2 k' v' d k v)
  then show ?case using dict_set_keys [of d k v] by auto
qed simp

lemma map_of_dict_update [json_simps]: "map_of (dict_update d e) k = (case map_of (rev e) k of None \<Rightarrow> map_of d k | Some v \<Rightarrow> Some v)"
proof (induction e rule: rev_induct)
  case Nil
  then show ?case by (simp add: dict_update_def)
next
  case (snoc x xs)
  then show ?case by (cases x) (simp add: dict_update_def)
qed

lemma map_of_rev_distinct: "distinct (map fst e) \<Longrightarrow> map_of (rev e) = map_of e"
  by (rule map_of_eqI) (auto simp: rev_map [symmetric] map_of_eq_Some_iff)

lemma dict_update_distinct: "distinct (map fst d) \<Longrightarrow> distinct (map fst (dict_update d e))"
proof (induction e rule: rev_induct)
  case Nil
  then show ?case by (simp add: dict_update_def)
next
  case (snoc x xs)
  then show ?case by (cases x) (simp add: dict_update_def dict_set_distinct)
qed

lemma dict_update_keys: "set (map fst (dict_update d e)) = set (map fst d) \<union> set (map fst e)"
proof (induction e rule: rev_induct)
  case Nil
  then show ?case by (simp add: dict_update_def)
next
  case (snoc x xs)
  obtain a b where x: "x = (a, b)" by (cases x)
  have "dict_update d (xs @ [x]) = dict_set (dict_update d xs) a b" by (simp add: dict_update_def x)
  then show ?case using dict_set_keys [of "dict_update d xs" a b] snoc by (auto simp: x)
qed

lemma dict_get_set [json_simps, simp]: "dict_get (dict_set d k v) k' = (if k' = k then v else dict_get d k')"
  by (simp add: dict_get_def)

lemma dict_get_Nil [json_simps, simp]: "dict_get [] k = JNull"
  by (simp add: dict_get_def)

lemma dict_get_Cons [json_simps, simp]: "dict_get ((a, v) # d) k = (if a = k then v else dict_get d k)"
  by (simp add: dict_get_def)

lemma has_key_Nil [json_simps, simp]: "\<not> has_key [] k"
  by (simp add: has_key_def)

lemma has_key_Cons [json_simps, simp]: "has_key ((a, v) # d) k = (k = a \<or> has_key d k)"
  by (simp add: has_key_def)

lemma has_key_map_of: "has_key d k \<longleftrightarrow> map_of d k \<noteq> None"
  by (simp add: has_key_def map_of_eq_None_iff)

end
