(* ===== verification/Errors.thy ===== *)
theory Errors
  imports Json
begin

text \<open>
  The protocol's enumerations, response builders and error scenarios: \<open>schemas/events.py\<close>,
  \<open>schemas/error_codes.py\<close>, \<open>schemas/response.py\<close> and \<open>schemas/error_scenarios.py\<close>. The value
  \<open>utc_now_timestamp()\<close> returns is the argument \<open>now\<close> of the builders.
\<close>

named_theorems scenario_simps \<open>the table of error scenarios, unfolded\<close>

section \<open>Enumerations\<close>

datatype EventType = SESSION_ONGOING | SESSION_COMPLETE

primrec event_value :: "EventType \<Rightarrow> string" where
  "event_value SESSION_ONGOING = ''SESSION_ONGOING''"
| "event_value SESSION_COMPLETE = ''SESSION_COMPLETE''"

datatype ResponseEventType = TRANSCRIPT_ACK | EOL_ACK | ERROR

primrec response_event_value :: "ResponseEventType \<Rightarrow> string" where
  "response_event_value TRANSCRIPT_ACK = ''TRANSCRIPT_ACK''"
| "response_event_value EOL_ACK = ''EOL_ACK''"
| "response_event_value ERROR = ''ERROR''"

datatype Speaker = AGENT | CUSTOMER | SYSTEM

primrec speaker_value :: "Speaker \<Rightarrow> string" where
  "speaker_value AGENT = ''Agent''"
| "speaker_value CUSTOMER = ''Customer''"
| "speaker_value SYSTEM = ''System''"

datatype ErrorCode =
  E1001 | E1002 | E1003 | E1004 | E1005 | E1006 | E1007 | E1008 | E1009 | E1010 | E1011

primrec error_code_value :: "ErrorCode \<Rightarrow> string" where
  "error_code_value E1001 = ''E1001''"
| "error_code_value E1002 = ''E1002''"
| "error_code_value E1003 = ''E1003''"
| "error_code_value E1004 = ''E1004''"
| "error_code_value E1005 = ''E1005''"
| "error_code_value E1006 = ''E1006''"
| "error_code_value E1007 = ''E1007''"
| "error_code_value E1008 = ''E1008''"
| "error_code_value E1009 = ''E1009''"
| "error_code_value E1010 = ''E1010''"
| "error_code_value E1011 = ''E1011''"

datatype WsCloseCode =
  NORMAL | GOING_AWAY | INVALID_PAYLOAD | POLICY_VIOLATION | INTERNAL_ERROR | TRY_AGAIN_LATER

primrec ws_code :: "WsCloseCode \<Rightarrow> int" where
  "ws_code NORMAL = 1000"
| "ws_code GOING_AWAY = 1001"
| "ws_code INVALID_PAYLOAD = 1007"
| "ws_code POLICY_VIOLATION = 1008"
| "ws_code INTERNAL_ERROR = 1011"
| "ws_code TRY_AGAIN_LATER = 1013"

definition close_code_for_error :: "ErrorCode \<Rightarrow> WsCloseCode" where
  "close_code_for_error code =
     (if code = E1001 then INVALID_PAYLOAD
      else if code \<in> {E1002, E1003, E1004, E1005, E1006} then POLICY_VIOLATION
      else if code = E1007 then INTERNAL_ERROR
      else if code \<in> {E1008, E1011} then TRY_AGAIN_LATER
      else POLICY_VIOLATION)"

section \<open>Responses\<close>

definition MAX_ERROR_MESSAGE_LEN :: nat where
  "MAX_ERROR_MESSAGE_LEN = 256"

definition MAX_ERROR_DETAILS_LEN :: nat where
  "MAX_ERROR_DETAILS_LEN = 2048"

definition build_success_response :: "string \<Rightarrow> string \<Rightarrow> int \<Rightarrow> ResponseEventType \<Rightarrow> dict" where
  "build_success_response now conversation_id sequence_number event_type =
     [(''metaData'', JObj
        [(''conversationId'', JStr conversation_id),
         (''eventType'', JStr (response_event_value event_type))]),
      (''payload'', JObj
        [(''sequenceNumber'', JInt sequence_number),
         (''createdAtTimeStamp'', JStr now)])]"

definition build_transcript_ack :: "string \<Rightarrow> string \<Rightarrow> int \<Rightarrow> dict" where
  "build_transcript_ack now conversation_id sequence_number =
     build_success_response now conversation_id sequence_number TRANSCRIPT_ACK"

definition build_eol_ack :: "string \<Rightarrow> string \<Rightarrow> int \<Rightarrow> dict" where
  "build_eol_ack now conversation_id sequence_number =
     build_success_response now conversation_id sequence_number EOL_ACK"

text \<open>A Python \<open>str | None\<close> as a JSON value.\<close>

fun opt_str :: "string option \<Rightarrow> json" where
  "opt_str None = JNull"
| "opt_str (Some s) = JStr s"

definition build_error :: "string \<Rightarrow> string \<Rightarrow> string \<Rightarrow> string \<Rightarrow> string option \<Rightarrow> dict" where
  "build_error now conversation_id code msg details =
     [(''metaData'', JObj
        [(''conversationId'', JStr conversation_id),
         (''eventType'', JStr (response_event_value ERROR))]),
      (''error'', JObj
        [(''code'', JStr code),
         (''message'', JStr msg),
         (''details'', opt_str details),
         (''createdAtTimeStamp'', JStr now)])]"

section \<open>Rendering templates\<close>

text \<open>Arguments of \<open>str.format\<close>, their \<open>str\<close> and their \<open>repr\<close> (strings over Latin-1).\<close>

datatype fmtval = FStr string | FInt int

definition hex_digit :: "nat \<Rightarrow> char" where
  "hex_digit d = (if d < 10 then char_of (48 + d) else char_of (87 + d))"

definition repr_char :: "char \<Rightarrow> char \<Rightarrow> string" where
  "repr_char q c = (let n = (of_char c :: nat) in
     if c = q \<or> n = 92 then [CHR 0x5C, c]
     else if n = 9 then [CHR 0x5C, CHR ''t'']
     else if n = 10 then [CHR 0x5C, CHR ''n'']
     else if n = 13 then [CHR 0x5C, CHR ''r'']
     else if n < 32 \<or> (127 \<le> n \<and> n \<le> 160) \<or> n = 173
       then [CHR 0x5C, CHR ''x'', hex_digit (n div 16), hex_digit (n mod 16)]
     else [c])"

definition py_repr :: "string \<Rightarrow> string" where
  "py_repr s = (let q = (if CHR 0x27 \<in> set s \<and> CHR 0x22 \<notin> set s then CHR 0x22 else CHR 0x27)
     in [q] @ concat (map (repr_char q) s) @ [q])"

fun fmt_str :: "fmtval \<Rightarrow> string" where
  "fmt_str (FStr s) = s"
| "fmt_str (FInt i) = str_of_int i"

fun fmt_repr :: "fmtval \<Rightarrow> string" where
  "fmt_repr (FStr s) = py_repr s"
| "fmt_repr (FInt i) = str_of_int i"

text \<open>One replacement field \<open>name\<close> or \<open>name!r\<close>; an argument that was not given is a \<open>KeyError\<close>.\<close>

definition fmt_field :: "string \<Rightarrow> (string \<times> fmtval) list \<Rightarrow> string res" where
  "fmt_field fld kw =
     (if endswith fld ''!r'' then
        (let k = take (length fld - 2) fld in
         case map_of kw k of None \<Rightarrow> Inl (KeyError (py_repr k)) | Some v \<Rightarrow> Inr (fmt_repr v))
      else (case map_of kw fld of None \<Rightarrow> Inl (KeyError (py_repr fld)) | Some v \<Rightarrow> Inr (fmt_str v)))"

text \<open>\<open>template.format(**kw)\<close>, for templates without doubled braces or nested fields.\<close>

function str_format :: "string \<Rightarrow> (string \<times> fmtval) list \<Rightarrow> string res" where
  "str_format [] kw = Inr []"
| "str_format (c # cs) kw =
     (if c = CHR ''{'' then
        (if CHR ''}'' \<notin> set cs then Inl (ValueError ''expected '}' before end of string'')
         else (case fmt_field (takeWhile (\<lambda>d. d \<noteq> CHR ''}'') cs) kw of
             Inl e \<Rightarrow> Inl e
           | Inr t \<Rightarrow> map_sum id (\<lambda>r. t @ r) (str_format (drop 1 (dropWhile (\<lambda>d. d \<noteq> CHR ''}'') cs)) kw)))
      else map_sum id (\<lambda>r. c # r) (str_format cs kw))"
  by pat_completeness auto
termination
  by (relation "measure (\<lambda>(s, kw). length s)") (auto simp: less_Suc_eq_le intro: le_trans [OF diff_le_self] length_dropWhile_le)

section \<open>Error scenarios\<close>

record ProtocolErrorSpec =
  matrix_id :: "string option"
  error_code :: ErrorCode
  message :: string
  details_template :: "string option"
  http_status :: "int option"
  ws_close_code :: "WsCloseCode option"
  log_reason :: "string option"

datatype ProtocolErrorScenario =
    MISSING_QUERY_CONVERSATION_ID
  | SERVICE_DRAINING
  | CONNECTION_LIMIT_EXCEEDED
  | INVALID_JSON
  | INVALID_ENUM_VALUE
  | MISSING_REQUIRED_FIELD
  | INVALID_FIELD_TYPE
  | INVALID_TIMESTAMP_FORMAT
  | SEQUENCE_OUT_OF_ORDER
  | DOWNSTREAM_TIMEOUT
  | DOWNSTREAM_UNAVAILABLE
  | ORCHESTRATOR_INTERNAL_EXCEPTION
  | TRANSPORT_INTERNAL_EXCEPTION
  | CONVERSATION_ID_MISMATCH
  | BUSINESS_RULE_VIOLATION
  | ACTIVE_SENDER_CONFLICT
  | AUTHENTICATION_FAILED

text \<open>\<open>ProtocolErrorSpec(...)\<close> with its defaults: the two statuses and the log reason absent.\<close>

abbreviation spec :: "string \<Rightarrow> ErrorCode \<Rightarrow> string \<Rightarrow> string option \<Rightarrow> int option \<Rightarrow> WsCloseCode option
    \<Rightarrow> string option \<Rightarrow> ProtocolErrorSpec" where
  "spec i c m d h w l \<equiv> \<lparr>matrix_id = Some i, error_code = c, message = m, details_template = d,
     http_status = h, ws_close_code = w, log_reason = l\<rparr>"

primrec scenario_spec :: "ProtocolErrorScenario \<Rightarrow> ProtocolErrorSpec" where
  "scenario_spec MISSING_QUERY_CONVERSATION_ID =
     spec ''E-01'' E1003 ''Missing required field''
       (Some ''Query parameter 'conversationId' is required'')
       (Some 400) None
       (Some ''Transport: Missing conversationId, rejecting connection'')"
| "scenario_spec SERVICE_DRAINING =
     spec ''E-02'' E1008 ''Service draining''
       (Some ''Server is shutting down, try again later'')
       (Some 503) None
       (Some ''Transport: Service is draining, rejecting new connection'')"
| "scenario_spec CONNECTION_LIMIT_EXCEEDED =
     spec ''E-03'' E1008 ''Too many connections''
       (Some ''Active {active} >= limit {max_connections}'')
       (Some 429) None
       (Some ''Transport: Connection limit reached, rejecting new connection'')"
| "scenario_spec INVALID_JSON =
     spec ''E-04'' E1001 ''Invalid JSON''
       None
       None (Some INVALID_PAYLOAD)
       (Some ''Transport: JSON decode failed'')"
| "scenario_spec INVALID_ENUM_VALUE =
     spec ''E-05'' E1002 ''Validation failed''
       None
       None (Some POLICY_VIOLATION)
       (Some ''Orchestrator: Schema validation failed'')"
| "scenario_spec MISSING_REQUIRED_FIELD =
     spec ''E-06'' E1003 ''Validation failed''
       None
       None (Some POLICY_VIOLATION)
       (Some ''Orchestrator: Schema validation failed'')"
| "scenario_spec INVALID_FIELD_TYPE =
     spec ''E-07'' E1004 ''Validation failed''
       None
       None (Some POLICY_VIOLATION)
       (Some ''Orchestrator: Schema validation failed'')"
| "scenario_spec INVALID_TIMESTAMP_FORMAT =
     spec ''E-08'' E1005 ''Validation failed''
       None
       None (Some POLICY_VIOLATION)
       (Some ''Orchestrator: Schema validation failed'')"
| "scenario_spec SEQUENCE_OUT_OF_ORDER =
     spec ''E-09'' E1006 ''Sequence number out of order''
       (Some ''sequenceNumber={sequence_number} is not expected'')
       None (Some POLICY_VIOLATION)
       (Some ''Orchestrator: Sequence number out of order'')"
| "scenario_spec DOWNSTREAM_TIMEOUT =
     spec ''E-10'' E1011 ''Downstream timeout''
       (Some ''Kafka send timed out'')
       None (Some TRY_AGAIN_LATER)
       (Some ''Orchestrator: Kafka timed out'')"
| "scenario_spec DOWNSTREAM_UNAVAILABLE =
     spec ''E-11'' E1008 ''Downstream unavailable''
       None
       (Some 503) (Some TRY_AGAIN_LATER)
       None"
| "scenario_spec ORCHESTRATOR_INTERNAL_EXCEPTION =
     spec ''E-12'' E1007 ''Internal server error''
       None
       None (Some INTERNAL_ERROR)
       (Some ''Orchestrator: Unhandled exception'')"
| "scenario_spec TRANSPORT_INTERNAL_EXCEPTION =
     spec ''E-13'' E1007 ''Internal server error''
       None
       None (Some INTERNAL_ERROR)
       (Some ''Transport: Connection error'')"
| "scenario_spec CONVERSATION_ID_MISMATCH =
     spec ''E-14'' E1009 ''conversationId mismatch''
       (Some ''metaData.conversationId must match query parameter 'conversationId' ({expected_conversation_id!r})'')
       None (Some POLICY_VIOLATION)
       (Some ''Transport: metaData.conversationId does not match the handshake query'')"
| "scenario_spec BUSINESS_RULE_VIOLATION =
     spec ''E-15'' E1009 ''Validation failed''
       None
       None (Some POLICY_VIOLATION)
       (Some ''Orchestrator: Schema validation failed'')"
| "scenario_spec ACTIVE_SENDER_CONFLICT =
     spec ''E-16'' E1009 ''Only one sender connection is allowed''
       (Some ''another connection is already sending messages for this conversation'')
       (Some 403) (Some POLICY_VIOLATION)
       (Some ''Transport: Conversation already has an active sender'')"
| "scenario_spec AUTHENTICATION_FAILED =
     spec ''E-17'' E1010 ''Authentication failed''
       None
       (Some 401) None
       (Some ''Transport: Authentication failed during handshake'')"

declare scenario_spec.simps [scenario_simps]

text \<open>\<open>default_message\<close>, \<open>default_log_reason\<close> and the other properties read the table.\<close>

definition scenario_error_code :: "ProtocolErrorScenario \<Rightarrow> ErrorCode" where
  "scenario_error_code s = error_code (scenario_spec s)"

definition default_message :: "ProtocolErrorScenario \<Rightarrow> string" where
  "default_message s = message (scenario_spec s)"

definition default_log_reason :: "ProtocolErrorScenario \<Rightarrow> string option" where
  "default_log_reason s = log_reason (scenario_spec s)"

definition format_details :: "ProtocolErrorScenario \<Rightarrow> (string \<times> fmtval) list \<Rightarrow> string option res" where
  "format_details s kw =
     (case details_template (scenario_spec s) of
        None \<Rightarrow> Inr None
      | Some t \<Rightarrow> map_sum id Some (str_format t kw))"

definition build_response :: "ProtocolErrorScenario \<Rightarrow> string \<Rightarrow> string \<Rightarrow> string option \<Rightarrow> dict res" where
  "build_response s now conversation_id details =
     (case (case details of None \<Rightarrow> format_details s [] | Some d \<Rightarrow> Inr (Some d)) of
        Inl e \<Rightarrow> Inl e
      | Inr d \<Rightarrow> Inr (build_error now conversation_id (error_code_value (scenario_error_code s))
                      (default_message s) d))"

text \<open>\<open>scenario.name\<close>, the member's own name.\<close>

primrec scenario_name :: "ProtocolErrorScenario \<Rightarrow> string" where
  "scenario_name MISSING_QUERY_CONVERSATION_ID = ''MISSING_QUERY_CONVERSATION_ID''"
| "scenario_name SERVICE_DRAINING = ''SERVICE_DRAINING''"
| "scenario_name CONNECTION_LIMIT_EXCEEDED = ''CONNECTION_LIMIT_EXCEEDED''"
| "scenario_name INVALID_JSON = ''INVALID_JSON''"
| "scenario_name INVALID_ENUM_VALUE = ''INVALID_ENUM_VALUE''"
| "scenario_name MISSING_REQUIRED_FIELD = ''MISSING_REQUIRED_FIELD''"
| "scenario_name INVALID_FIELD_TYPE = ''INVALID_FIELD_TYPE''"
| "scenario_name INVALID_TIMESTAMP_FORMAT = ''INVALID_TIMESTAMP_FORMAT''"
| "scenario_name SEQUENCE_OUT_OF_ORDER = ''SEQUENCE_OUT_OF_ORDER''"
| "scenario_name DOWNSTREAM_TIMEOUT = ''DOWNSTREAM_TIMEOUT''"
| "scenario_name DOWNSTREAM_UNAVAILABLE = ''DOWNSTREAM_UNAVAILABLE''"
| "scenario_name ORCHESTRATOR_INTERNAL_EXCEPTION = ''ORCHESTRATOR_INTERNAL_EXCEPTION''"
| "scenario_name TRANSPORT_INTERNAL_EXCEPTION = ''TRANSPORT_INTERNAL_EXCEPTION''"
| "scenario_name CONVERSATION_ID_MISMATCH = ''CONVERSATION_ID_MISMATCH''"
| "scenario_name BUSINESS_RULE_VIOLATION = ''BUSINESS_RULE_VIOLATION''"
| "scenario_name ACTIVE_SENDER_CONFLICT = ''ACTIVE_SENDER_CONFLICT''"
| "scenario_name AUTHENTICATION_FAILED = ''AUTHENTICATION_FAILED''"

definition require_http_status :: "ProtocolErrorScenario \<Rightarrow> int res" where
  "require_http_status s =
     (case http_status (scenario_spec s) of
        None \<Rightarrow> Inl (ValueError (scenario_name s @ '' does not define an HTTP status''))
      | Some h \<Rightarrow> Inr h)"

definition require_ws_close_code :: "ProtocolErrorScenario \<Rightarrow> WsCloseCode res" where
  "require_ws_close_code s =
     (case ws_close_code (scenario_spec s) of
        None \<Rightarrow> Inl (ValueError (scenario_name s @ '' does not define a WebSocket close code''))
      | Some c \<Rightarrow> Inr c)"

section \<open>Facts about the table and the builders\<close>

lemma meta_event_type_build_error [json_simps, simp]:
  "meta_event_type (build_error now cid c m d) = JStr ''ERROR''"
  by (simp add: meta_event_type_def build_error_def)

lemma meta_event_type_ack [json_simps, simp]:
  "meta_event_type (build_success_response now cid n t) = JStr (response_event_value t)"
  by (simp add: meta_event_type_def build_success_response_def)

lemma endswith_simps:
  "endswith s p \<longleftrightarrow> take (length p) (rev s) = rev p"
  by (simp add: endswith_def startswith_def)

lemmas format_simps = format_details_def fmt_field_def endswith_simps Let_def scenario_spec.simps

text \<open>Which templates need an argument: rendered without one, they raise \<open>KeyError\<close>.\<close>

definition needs_arguments :: "ProtocolErrorScenario \<Rightarrow> bool" where
  "needs_arguments s = (s \<in> {CONNECTION_LIMIT_EXCEEDED, SEQUENCE_OUT_OF_ORDER, CONVERSATION_ID_MISMATCH})"

lemma format_details_no_arguments:
  "format_details s [] =
     (if needs_arguments s then
        Inl (KeyError (py_repr (if s = CONNECTION_LIMIT_EXCEEDED then ''active''
          else if s = SEQUENCE_OUT_OF_ORDER then ''sequence_number'' else ''expected_conversation_id'')))
      else Inr (details_template (scenario_spec s)))"
  by (cases s) (simp_all add: format_simps needs_arguments_def)

lemma format_details_sequence:
  "format_details SEQUENCE_OUT_OF_ORDER [(''sequence_number'', FInt n)] =
     Inr (Some (''sequenceNumber='' @ str_of_int n @ '' is not expected''))"
  by (simp add: format_simps)

lemma format_details_limit:
  "format_details CONNECTION_LIMIT_EXCEEDED [(''active'', FInt a), (''max_connections'', FInt m)] =
     Inr (Some (''Active '' @ str_of_int a @ '' >= limit '' @ str_of_int m))"
  by (simp add: format_simps)

lemma format_details_mismatch:
  "format_details CONVERSATION_ID_MISMATCH [(''expected_conversation_id'', FStr c)] =
     Inr (Some (''metaData.conversationId must match query parameter 'conversationId' ('' @ py_repr c @ '')''))"
  by (simp add: format_simps)

lemma build_response_Some:
  "build_response s now cid (Some d) =
     Inr (build_error now cid (error_code_value (scenario_error_code s)) (default_message s) (Some d))"
  by (simp add: build_response_def)

lemma build_response_None:
  "\<not> needs_arguments s \<Longrightarrow> build_response s now cid None =
     Inr (build_error now cid (error_code_value (scenario_error_code s)) (default_message s)
       (details_template (scenario_spec s)))"
  by (simp add: build_response_def format_details_no_arguments)

lemmas build_response_simps = build_response_Some build_response_None needs_arguments_def

text \<open>The frame the service sends for a scenario.\<close>

definition error_frame :: "ProtocolErrorScenario \<Rightarrow> string \<Rightarrow> string \<Rightarrow> string option \<Rightarrow> dict" where
  "error_frame s now cid d =
     build_error now cid (error_code_value (scenario_error_code s)) (default_message s)
       (case d of None \<Rightarrow> details_template (scenario_spec s) | Some t \<Rightarrow> Some t)"

lemma build_response_frame:
  "\<not> needs_arguments s \<or> d \<noteq> None \<Longrightarrow> build_response s now cid d = Inr (error_frame s now cid d)"
  by (cases d) (simp_all add: error_frame_def build_response_Some build_response_None)

lemma build_response_error_iff:
  "is_error (build_response s now cid d) \<longleftrightarrow> d = None \<and> needs_arguments s"
  by (cases d) (auto simp: build_response_def format_details_no_arguments)

lemma meta_event_type_error_frame [json_simps, simp]:
  "meta_event_type (error_frame s now cid d) = JStr ''ERROR''"
  by (simp add: error_frame_def)

text \<open>The \<open>details\<close> string of an error response.\<close>

definition response_details :: "dict \<Rightarrow> string option" where
  "response_details r = (case dict_get r ''error'' of
     JObj e \<Rightarrow> (case dict_get e ''details'' of JStr d \<Rightarrow> Some d | _ \<Rightarrow> None) | _ \<Rightarrow> None)"

lemma response_details_error [json_simps, simp]: "response_details (build_error now cid c m d) = d"
  by (cases d) (simp_all add: response_details_def build_error_def)

lemma response_details_ack [json_simps, simp]: "response_details (build_success_response now cid n t) = None"
  by (simp add: response_details_def build_success_response_def)

definition response_code :: "dict \<Rightarrow> json" where
  "response_code r = (case dict_get r ''error'' of JObj e \<Rightarrow> dict_get e ''code'' | _ \<Rightarrow> JNull)"

lemma response_code_error [json_simps, simp]: "response_code (build_error now cid c m d) = JStr c"
  by (simp add: response_code_def build_error_def)

lemma response_code_ack [json_simps, simp]: "response_code (build_success_response now cid n t) = JNull"
  by (simp add: response_code_def build_success_response_def)

lemma response_code_error_frame [json_simps, simp]:
  "response_code (error_frame s now cid d) = JStr (error_code_value (scenario_error_code s))"
  by (simp add: error_frame_def)

text \<open>No static message or template exceeds the contract's limits.\<close>

lemma scenario_lengths:
  "length (default_message s) \<le> MAX_ERROR_MESSAGE_LEN \<and>
   (case details_template (scenario_spec s) of None \<Rightarrow> True | Some t \<Rightarrow> length t \<le> MAX_ERROR_DETAILS_LEN)"
  by (cases s) (simp_all add: default_message_def MAX_ERROR_MESSAGE_LEN_def MAX_ERROR_DETAILS_LEN_def)

section \<open>Properties\<close>

text \<open>
  The two tables of the protocol agree: every scenario that has a WebSocket close code has the
  one \<open>close_code_for_error\<close> gives for its error code, every scenario has an HTTP status or a close
  code, and the matrix identifiers tell the scenarios apart.
\<close>

theorem scenario_table_consistent:
  "(case ws_close_code (scenario_spec s) of
      None \<Rightarrow> True | Some c \<Rightarrow> c = close_code_for_error (scenario_error_code s))
   \<and> \<not> (http_status (scenario_spec s) = None \<and> ws_close_code (scenario_spec s) = None)
   \<and> (matrix_id (scenario_spec s) = matrix_id (scenario_spec t) \<longleftrightarrow> s = t)"
proof -
  have ids: "matrix_id (scenario_spec s) = matrix_id (scenario_spec t) \<longleftrightarrow> s = t"
    by (cases s; cases t) simp_all
  have "(case ws_close_code (scenario_spec s) of
      None \<Rightarrow> True | Some c \<Rightarrow> c = close_code_for_error (scenario_error_code s))
   \<and> \<not> (http_status (scenario_spec s) = None \<and> ws_close_code (scenario_spec s) = None)"
    by (cases s) (simp_all add: close_code_for_error_def scenario_error_code_def)
  with ids show ?thesis by blast
qed

text \<open>
  Building a response raises exactly when the scenario's template needs arguments and the
  caller gives no details: the connection limit, the sequence and the id-mismatch scenarios.
\<close>

theorem build_response_raises_iff:
  "is_error (build_response s now cid d) \<longleftrightarrow>
     d = None \<and> s \<in> {CONNECTION_LIMIT_EXCEEDED, SEQUENCE_OUT_OF_ORDER, CONVERSATION_ID_MISMATCH}"
  by (simp only: build_response_error_iff needs_arguments_def)

end
