(* ===== verification/Redis.thy ===== *)
theory Redis
  imports Errors
begin

text \<open>
  Redis as the service uses it: the client of \<open>redis/async_client.py\<close>, the database commands, and the
  five Lua scripts of \<open>redis/sequence_state_machine.py\<close> and \<open>redis/ownership_guard.py\<close>.

  The Redis server and redis-py are not part of the repository. The database is a type \<open>'d\<close> with
  the record \<open>redis_ops\<close> of its commands, and the client is a record \<open>redis_client\<close> of requests
  that change a world \<open>'w\<close>. What the code relies on is stated in two locales: \<open>redis_database\<close>
  (what the commands do, with their expiry) and \<open>redis_backend\<close> (what a request may do to the
  database: a script runs atomically, perhaps several times when the client retries, perhaps not at
  all, and the reply may be lost). Both are interpreted at the end on \<open>clock_redis\<close> and on a server with a
  schedule of faults.

  The scripts are translated from their Lua text and run on \<open>redis_ops\<close>.
\<close>

section \<open>Commands\<close>

text \<open>
  GET, SET with EX, EXPIRE, DEL and TTL, and the passing of time. Times are whole seconds;
  \<open>r_ttl\<close> is the time a key has left, absent for a key without an expiry.
\<close>

record 'd redis_ops =
  r_get :: "string \<Rightarrow> 'd \<Rightarrow> string option"
  r_set_ex :: "string \<Rightarrow> string \<Rightarrow> nat \<Rightarrow> 'd \<Rightarrow> 'd"
  r_expire :: "string \<Rightarrow> nat \<Rightarrow> 'd \<Rightarrow> 'd"
  r_del :: "string \<Rightarrow> 'd \<Rightarrow> 'd"
  r_ttl :: "string \<Rightarrow> 'd \<Rightarrow> nat option"
  r_elapse :: "nat \<Rightarrow> 'd \<Rightarrow> 'd"

locale redis_database =
  fixes R :: "'d redis_ops"
  assumes get_set: "r_get R k' (r_set_ex R k v t d) = (if k' = k then Some v else r_get R k' d)"
    and get_expire: "0 < t \<Longrightarrow> r_get R k' (r_expire R k t d) = r_get R k' d"
    and get_del: "r_get R k' (r_del R k d) = (if k' = k then None else r_get R k' d)"
    and ttl_set: "0 < t \<Longrightarrow> r_ttl R k' (r_set_ex R k v t d) = (if k' = k then Some t else r_ttl R k' d)"
    and ttl_expire: "0 < t \<Longrightarrow> r_get R k d \<noteq> None \<Longrightarrow>
      r_ttl R k' (r_expire R k t d) = (if k' = k then Some t else r_ttl R k' d)"
    and ttl_del: "k' \<noteq> k \<Longrightarrow> r_ttl R k' (r_del R k d) = r_ttl R k' d"
    and get_elapse: "r_get R k (r_elapse R n d) =
      (case r_ttl R k d of None \<Rightarrow> r_get R k d | Some t \<Rightarrow> if n < t then r_get R k d else None)"
    and ttl_elapse: "r_ttl R k (r_elapse R n d) =
      (case r_ttl R k d of None \<Rightarrow> None | Some t \<Rightarrow> if n < t then Some (t - n) else None)"

section \<open>Scripts\<close>

text \<open>
  A reply as redis-py returns it. A script's Lua value becomes a reply: a number an integer, a
  string a bulk string, a table a list up to its first \<open>nil\<close>.
\<close>

datatype reply = RNil | RInt int | RStr string | RBytes string | RList "reply list"

text \<open>Python's \<open>repr\<close>, \<open>str\<close> and type name of a reply, for the messages of the errors.\<close>

fun reply_repr :: "reply \<Rightarrow> string" where
  "reply_repr RNil = ''None''"
| "reply_repr (RInt i) = str_of_int i"
| "reply_repr (RStr s) = py_repr s"
| "reply_repr (RBytes b) = ''b'' @ py_repr b"
| "reply_repr (RList xs) = ''['' @ str_join '', '' (map reply_repr xs) @ '']''"

fun reply_str :: "reply \<Rightarrow> string" where
  "reply_str (RStr s) = s"
| "reply_str r = reply_repr r"

fun reply_type :: "reply \<Rightarrow> string" where
  "reply_type RNil = ''NoneType''"
| "reply_type (RInt _) = ''int''"
| "reply_type (RStr _) = ''str''"
| "reply_type (RBytes _) = ''bytes''"
| "reply_type (RList _) = ''list''"

text \<open>\<open>KEYS[i]\<close> and \<open>ARGV[i]\<close>, counted from 1.\<close>

definition lua_index :: "string list \<Rightarrow> nat \<Rightarrow> string option" where
  "lua_index xs i = (if 0 < i \<and> i \<le> length xs then Some (xs ! (i - 1)) else None)"

definition lua_number_arg :: "string list \<Rightarrow> nat \<Rightarrow> int option" where
  "lua_number_arg xs i = Option.bind (lua_index xs i) lua_tonumber"

text \<open>
  A number passed to \<open>redis.call\<close> is printed in decimal (exact below \<open>10 ^ 17\<close>, above which Redis
  prints an exponent).
\<close>

definition lua_tostring :: "int \<Rightarrow> string" where
  "lua_tostring x = str_of_int x"

text \<open>Errors of the script interpreter, and commands with an expiry that they check first.\<close>

definition lua_error :: exn where
  "lua_error = ResponseError ''ERR Error running script''"

definition call_set_ex :: "'d redis_ops \<Rightarrow> string \<Rightarrow> string \<Rightarrow> int option \<Rightarrow> 'd \<Rightarrow> 'd res" where
  "call_set_ex R k v ttl d =
     (case ttl of
        None \<Rightarrow> Inl lua_error
      | Some t \<Rightarrow> if t \<le> 0 then Inl (ResponseError ''ERR invalid expire time in 'set' command'')
          else Inr (r_set_ex R k v (nat t) d))"

definition call_expire :: "'d redis_ops \<Rightarrow> string \<Rightarrow> int option \<Rightarrow> 'd \<Rightarrow> 'd res" where
  "call_expire R k ttl d =
     (case ttl of
        None \<Rightarrow> Inl lua_error
      | Some t \<Rightarrow> Inr (if t \<le> 0 then r_del R k d else r_expire R k (nat t) d))"

text \<open>A command that fails ends the script; what it has done before stays.\<close>

definition after_call :: "'d res \<Rightarrow> reply \<Rightarrow> 'd \<Rightarrow> reply res \<times> 'd" where
  "after_call r x d = (case r of Inl e \<Rightarrow> (Inl e, d) | Inr d' \<Rightarrow> (Inr x, d'))"

definition lua_prepare :: "'d redis_ops \<Rightarrow> string list \<Rightarrow> string list \<Rightarrow> 'd \<Rightarrow> reply res \<times> 'd" where
  "lua_prepare R ks argv d =
     (case lua_index ks 1 of
        None \<Rightarrow> (Inl lua_error, d)
      | Some key \<Rightarrow>
          (let incoming = lua_number_arg argv 1; ttl = lua_number_arg argv 2 in
           case r_get R key d of
             None \<Rightarrow>
               (if incoming = Some 0
                then after_call (call_set_ex R key (lua_tostring 0) ttl d)
                       (RList [RStr ''PRE_CHECK_OK'', RInt 0]) d
                else (Inr (RList [RStr ''OUT_OF_ORDER'', RInt 0]), d))
           | Some stored \<Rightarrow>
               (let current = lua_tonumber stored in
                if incoming = current
                then after_call (call_expire R key ttl d)
                       (RList (RStr ''PRE_CHECK_OK'' # (case current of None \<Rightarrow> [] | Some c \<Rightarrow> [RInt c]))) d
                else (case (incoming, current) of
                    (Some i, Some c) \<Rightarrow>
                      (if i < c then (Inr (RList [RStr ''IDEMPOTENT'', RInt c]), d)
                       else (Inr (RList [RStr ''OUT_OF_ORDER'', RInt c]), d))
                  | _ \<Rightarrow> (Inl lua_error, d)))))"

definition lua_commit :: "'d redis_ops \<Rightarrow> string list \<Rightarrow> string list \<Rightarrow> 'd \<Rightarrow> reply res \<times> 'd" where
  "lua_commit R ks argv d =
     (case (lua_index ks 1, lua_number_arg argv 1) of
        (Some key, Some seq) \<Rightarrow>
          after_call (call_set_ex R key (lua_tostring (double_of_int (seq + 1))) (lua_number_arg argv 2) d)
            (RStr ''OK'') d
      | _ \<Rightarrow> (Inl lua_error, d))"

definition lua_cleanup :: "'d redis_ops \<Rightarrow> string list \<Rightarrow> string list \<Rightarrow> 'd \<Rightarrow> reply res \<times> 'd" where
  "lua_cleanup R ks argv d =
     (case lua_index ks 1 of
        None \<Rightarrow> (Inl lua_error, d)
      | Some key \<Rightarrow>
          (if r_get R key d \<noteq> None
           then after_call (call_expire R key (lua_number_arg argv 1) d) (RStr ''OK'') d
           else (Inr (RStr ''OK''), d)))"

definition lua_claim_or_refresh :: "'d redis_ops \<Rightarrow> string list \<Rightarrow> string list \<Rightarrow> 'd \<Rightarrow> reply res \<times> 'd" where
  "lua_claim_or_refresh R ks argv d =
     (case (lua_index ks 1, lua_index argv 1) of
        (Some key, Some token) \<Rightarrow>
          (let current = r_get R key d in
           if current = None \<or> current = Some token
           then after_call (call_set_ex R key token (lua_number_arg argv 2) d) (RStr ''OWNED'') d
           else (Inr (RStr ''BUSY''), d))
      | _ \<Rightarrow> (Inl lua_error, d))"

definition lua_release_if_owner :: "'d redis_ops \<Rightarrow> string list \<Rightarrow> string list \<Rightarrow> 'd \<Rightarrow> reply res \<times> 'd" where
  "lua_release_if_owner R ks argv d =
     (case (lua_index ks 1, lua_index argv 1) of
        (Some key, Some token) \<Rightarrow>
          (if r_get R key d = Some token then (Inr (RInt 1), r_del R key d) else (Inr (RInt 0), d))
      | _ \<Rightarrow> (Inl lua_error, d))"

datatype lua_script =
  LUA_PREPARE | LUA_COMMIT | LUA_CLEANUP | LUA_CLAIM_OR_REFRESH | LUA_RELEASE_IF_OWNER

primrec run_script :: "lua_script \<Rightarrow> 'd redis_ops \<Rightarrow> string list \<Rightarrow> string list \<Rightarrow> 'd \<Rightarrow> reply res \<times> 'd" where
  "run_script LUA_PREPARE R = lua_prepare R"
| "run_script LUA_COMMIT R = lua_commit R"
| "run_script LUA_CLEANUP R = lua_cleanup R"
| "run_script LUA_CLAIM_OR_REFRESH R = lua_claim_or_refresh R"
| "run_script LUA_RELEASE_IF_OWNER R = lua_release_if_owner R"

lemma lua_index_simps [simp]:
  "lua_index (x # xs) (Suc 0) = Some x"
  "lua_index (x # y # xs) 2 = Some y"
  "lua_index [] i = None"
  by (auto simp: lua_index_def)

lemma lua_number_arg_simps [simp]:
  "lua_number_arg (x # xs) (Suc 0) = lua_tonumber x"
  "lua_number_arg (x # y # xs) 2 = lua_tonumber y"
  by (simp_all add: lua_number_arg_def)

lemma lua_tonumber_of_double: "lua_tonumber (str_of_int (double_of_int x)) = Some (double_of_int (double_of_int x))"
  by simp

text \<open>The expiries that the code passes: positive integers.\<close>

context redis_database
begin

lemma call_exact:
  "0 < t \<Longrightarrow> call_set_ex R k v (Some t) d = Inr (r_set_ex R k v (nat t) d)"
  "0 < t \<Longrightarrow> call_expire R k (Some t) d = Inr (r_expire R k (nat t) d)"
  by (simp_all add: call_set_ex_def call_expire_def)

lemma call_set_ex_pos: "0 < t \<Longrightarrow>
  call_set_ex R k v (Some (double_of_int t)) d = Inr (r_set_ex R k v (nat (double_of_int t)) d)"
  using double_nonneg(2) [of t] by (simp add: call_set_ex_def)

lemma call_expire_pos: "0 < t \<Longrightarrow>
  call_expire R k (Some (double_of_int t)) d = Inr (r_expire R k (nat (double_of_int t)) d)"
  using double_nonneg(2) [of t] by (simp add: call_expire_def)

lemma get_expire_pos: "0 < t \<Longrightarrow> r_get R k' (r_expire R k (nat (double_of_int t)) d) = r_get R k' d"
  using double_nonneg(2) [of t] by (simp add: get_expire)

end

text \<open>No script fails with \<open>NoScriptError\<close>: the loading above is never triggered by a script that ran.\<close>

lemma after_call_fst: "fst (after_call r x d) = (case r of Inl e \<Rightarrow> Inl e | Inr _ \<Rightarrow> Inr x)"
  by (simp add: after_call_def split: sum.splits)

lemma run_script_errors: "fst (run_script s R ks argv d) \<noteq> Inl (NoScriptError m)"
proof (cases s)
  case LUA_PREPARE
  then show ?thesis
    by (auto simp: lua_prepare_def after_call_def call_set_ex_def call_expire_def lua_error_def Let_def
        split: option.splits sum.splits if_splits)
next
  case LUA_COMMIT
  then show ?thesis
    by (auto simp: lua_commit_def after_call_def call_set_ex_def lua_error_def
        split: option.splits sum.splits if_splits)
next
  case LUA_CLEANUP
  then show ?thesis
    by (auto simp: lua_cleanup_def after_call_def call_expire_def lua_error_def
        split: option.splits sum.splits if_splits)
next
  case LUA_CLAIM_OR_REFRESH
  then show ?thesis
    by (auto simp: lua_claim_or_refresh_def after_call_def call_set_ex_def lua_error_def Let_def
        split: option.splits sum.splits if_splits)
next
  case LUA_RELEASE_IF_OWNER
  then show ?thesis
    by (auto simp: lua_release_if_owner_def lua_error_def split: option.splits if_splits)
qed

section \<open>Client\<close>

text \<open>
  \<open>create_async_redis_client\<close>: the arguments it passes to \<open>Redis.from_url\<close>. A key that is left
  out is \<open>None\<close>. \<open>url_scheme\<close> is \<open>urlparse(url).scheme\<close>.
\<close>

record redis_client_kwargs =
  decode_responses :: bool
  kw_max_connections :: int
  kw_ssl_check_hostname :: "bool option"
  kw_username :: "string option"
  kw_password :: "string option"

definition scheme_start :: "char \<Rightarrow> bool" where
  "scheme_start c = (let n = (of_char c :: nat) in (65 \<le> n \<and> n \<le> 90) \<or> (97 \<le> n \<and> n \<le> 122))"

definition scheme_char :: "char \<Rightarrow> bool" where
  "scheme_char c = (scheme_start c \<or> is_digit c \<or> c \<in> {CHR ''+'', CHR ''-'', CHR ''.''})"

definition url_scheme :: "string \<Rightarrow> string" where
  "url_scheme url =
     (let u = filter (\<lambda>c. of_char c \<notin> {9::nat, 10, 13}) (dropWhile (\<lambda>c. (of_char c :: nat) \<le> 32) url);
          s = takeWhile (\<lambda>c. c \<noteq> CHR '':'') u
      in if CHR '':'' \<in> set u \<and> s \<noteq> [] \<and> scheme_start (hd s) \<and> list_all scheme_char s then lower s else [])"

text \<open>
  redis-py: \<open>from_url\<close> may refuse its arguments; \<open>script_load\<close>, \<open>evalsha\<close> (with one key), \<open>ping\<close> and
  \<open>aclose\<close> are requests. A script is loaded under the digest of its text, which the server returns.
\<close>

record 'w redis_client =
  from_url :: "string \<Rightarrow> redis_client_kwargs \<Rightarrow> unit res"
  script_load :: "lua_script \<Rightarrow> ('w, string) io"
  evalsha :: "string \<Rightarrow> string list \<Rightarrow> string list \<Rightarrow> ('w, reply) io"
  ping :: "('w, bool) io"
  aclose :: "('w, unit) io"

definition client_kwargs ::
  "string \<Rightarrow> string option \<Rightarrow> string option \<Rightarrow> bool \<Rightarrow> bool \<Rightarrow> int \<Rightarrow> redis_client_kwargs" where
  "client_kwargs redis_url username password check_hostname decode max_conns =
     (let u = (case username of None \<Rightarrow> [] | Some s \<Rightarrow> strip s) in
      \<lparr>decode_responses = decode, kw_max_connections = max_conns,
       kw_ssl_check_hostname = (if lower (url_scheme redis_url) = ''rediss'' then Some check_hostname else None),
       kw_username = (if u \<noteq> [] then Some u else None),
       kw_password = (case password of None \<Rightarrow> None | Some p \<Rightarrow> if p \<noteq> [] then Some p else None)\<rparr>)"

definition create_async_redis_client ::
  "'w redis_client \<Rightarrow> string \<Rightarrow> string option \<Rightarrow> string option \<Rightarrow> bool \<Rightarrow> bool \<Rightarrow> int \<Rightarrow> unit res" where
  "create_async_redis_client C redis_url username password check_hostname decode max_conns =
     from_url C redis_url (client_kwargs redis_url username password check_hostname decode max_conns)"

text \<open>
  The connection part of \<open>RedisSequenceStateMachine\<close> and \<open>RedisConversationOwnershipGuard\<close>: the
  arguments of the constructor, whether \<open>_client\<close> is set and whether it was injected.
\<close>

record redis_conn =
  redis_url :: "string option"
  redis_username :: "string option"
  redis_password :: "string option"
  ssl_check_hostname :: bool
  max_connections :: int
  client_set :: bool
  client_injected :: bool

definition get_client ::
  "'w redis_client \<Rightarrow> 'a redis_conn_scheme \<Rightarrow> unit res \<times> 'a redis_conn_scheme" where
  "get_client C c =
     (if client_set c then (Inr (), c)
      else (case redis_url c of
          None \<Rightarrow> (Inl (AssertionError []), c)
        | Some url \<Rightarrow>
            (case create_async_redis_client C url (redis_username c) (redis_password c)
                (ssl_check_hostname c) True (max_connections c) of
              Inl e \<Rightarrow> (Inl e, c)
            | Inr _ \<Rightarrow> (Inr (), c\<lparr>client_set := True\<rparr>))))"

text \<open>
  The pattern of every operation of both classes: evaluate by digest; on \<open>NoScriptError\<close> load the
  script again, remember the digest and evaluate once more. The result has the digest that the
  object stores afterwards.
\<close>

definition eval_reload ::
  "'w redis_client \<Rightarrow> lua_script \<Rightarrow> string \<Rightarrow> string list \<Rightarrow> string list \<Rightarrow> 'w \<Rightarrow> reply res \<times> string \<times> 'w" where
  "eval_reload C s h ks argv w =
     (case evalsha C h ks argv w of
        (Inl (NoScriptError m), w1) \<Rightarrow>
          (case script_load C s w1 of
             (Inl e, w2) \<Rightarrow> (Inl e, h, w2)
           | (Inr h', w2) \<Rightarrow> (case evalsha C h' ks argv w2 of (r, w3) \<Rightarrow> (r, h', w3)))
      | (r, w1) \<Rightarrow> (r, h, w1))"

text \<open>\<open>_ensure_scripts_loaded\<close>, for one script: load it unless its digest is known.\<close>

definition ensure_script :: "'w redis_client \<Rightarrow> lua_script \<Rightarrow> string option \<Rightarrow> 'w \<Rightarrow> string res \<times> 'w" where
  "ensure_script C s h w = (case h of Some x \<Rightarrow> (Inr x, w) | None \<Rightarrow> script_load C s w)"

section \<open>What the code relies on\<close>

text \<open>\<open>script_runs s ks argv n d\<close>: the database after the script has run \<open>n\<close> times.\<close>

definition script_runs ::
  "lua_script \<Rightarrow> 'd redis_ops \<Rightarrow> string list \<Rightarrow> string list \<Rightarrow> nat \<Rightarrow> 'd \<Rightarrow> 'd" where
  "script_runs s R ks argv n = ((\<lambda>d. snd (run_script s R ks argv d)) ^^ n)"

text \<open>
  The backend. \<open>db\<close> reads the database out of the world and \<open>sha\<close> is the digest of a script. Loading a
  script, pinging and closing leave the database alone. \<open>evalsha\<close> runs the script some number of
  times and gives the reply of the last run, or fails, whatever was run. When \<open>up\<close> holds, the
  requests succeed: a loaded script runs exactly once, one that is not loaded gives
  \<open>NoScriptError\<close>.
\<close>

locale redis_backend = redis_database R for R :: "'d redis_ops" +
  fixes C :: "'w redis_client" and db :: "'w \<Rightarrow> 'd" and sha :: "lua_script \<Rightarrow> string"
    and up :: "'w \<Rightarrow> bool" and loaded :: "'w \<Rightarrow> lua_script set"
  assumes load_sha: "script_load C s w = (Inr h, w') \<Longrightarrow> h = sha s"
    and load_db: "db (snd (script_load C s w)) = db w"
    and ping_db: "db (snd (ping C w)) = db w"
    and aclose_db: "db (snd (aclose C w)) = db w"
    and evalsha_runs: "evalsha C (sha s) ks argv w = (r, w') \<Longrightarrow>
      \<exists>n. db w' = script_runs s R ks argv n (db w) \<and>
        (is_error r \<or> (\<exists>m. n = Suc m \<and> r = fst (run_script s R ks argv (script_runs s R ks argv m (db w)))))"
    and load_up: "up w \<Longrightarrow> \<exists>w'. script_load C s w = (Inr (sha s), w') \<and> up w' \<and> loaded w' = insert s (loaded w)"
    and evalsha_up: "up w \<Longrightarrow> s \<in> loaded w \<Longrightarrow>
      \<exists>w'. evalsha C (sha s) ks argv w = (fst (run_script s R ks argv (db w)), w')
        \<and> db w' = snd (run_script s R ks argv (db w)) \<and> up w' \<and> loaded w' = loaded w"
    and evalsha_noscript: "up w \<Longrightarrow> s \<notin> loaded w \<Longrightarrow>
      \<exists>m w'. evalsha C (sha s) ks argv w = (Inl (NoScriptError m), w') \<and> db w' = db w \<and> up w' \<and> loaded w' = loaded w"
begin

text \<open>
  An invariant of the database that the script keeps holds after the request, whatever happens;
  and a reply comes from a run on a database where it held.
\<close>

lemma evalsha_cases:
  assumes eval: "evalsha C (sha s) ks argv w = (r, w')" and start: "Q (db w)"
    and step: "\<And>d. Q d \<Longrightarrow> Q (snd (run_script s R ks argv d))"
  obtains (failed) e where "r = Inl e" "Q (db w')"
  | (replied) d x where "r = Inr x" "Q d" "run_script s R ks argv d = (Inr x, db w')"
proof -
  have runs: "Q (script_runs s R ks argv n (db w))" for n
    by (induction n) (auto simp: script_runs_def start step)
  obtain n where n: "db w' = script_runs s R ks argv n (db w)"
    and r: "is_error r \<or> (\<exists>m. n = Suc m \<and> r = fst (run_script s R ks argv (script_runs s R ks argv m (db w))))"
    using evalsha_runs [OF eval] by blast
  show thesis
  proof (cases r)
    case (Inl e)
    then show thesis using runs [of n] n by (intro failed) auto
  next
    case (Inr x)
    then obtain m where m: "n = Suc m" "Inr x = fst (run_script s R ks argv (script_runs s R ks argv m (db w)))"
      using r by auto
    then have "db w' = snd (run_script s R ks argv (script_runs s R ks argv m (db w)))"
      by (simp add: n script_runs_def)
    then show thesis using m Inr runs [of m] by (intro replied [of x "script_runs s R ks argv m (db w)"]) (auto simp: prod_eq_iff)
  qed
qed

lemma ensure_script_safe:
  assumes "ensure_script C s h w = (r, w')" and "h = None \<or> h = Some (sha s)"
  shows "db w' = db w \<and> (is_error r \<or> r = Inr (sha s))"
proof (cases h)
  case None
  then have l: "script_load C s w = (r, w')" using assms by (simp add: ensure_script_def)
  then have "db w' = db w" using load_db [of s w] by simp
  moreover have "is_error r \<or> r = Inr (sha s)" using l load_sha [of s w] by (cases r) auto
  ultimately show ?thesis by simp
qed (use assms in \<open>auto simp: ensure_script_def\<close>)

lemma eval_reload_cases:
  assumes eval: "eval_reload C s (sha s) ks argv w = (r, h, w')" and start: "Q (db w)"
    and step: "\<And>d. Q d \<Longrightarrow> Q (snd (run_script s R ks argv d))"
  obtains (failed) e where "r = Inl e" "Q (db w')" "h = sha s"
  | (replied) d x where "r = Inr x" "Q d" "run_script s R ks argv d = (Inr x, db w')" "h = sha s"
proof -
  obtain r1 w1 where e1: "evalsha C (sha s) ks argv w = (r1, w1)" by fastforce
  show thesis
  proof (cases "\<exists>m. r1 = Inl (NoScriptError m)")
    case False
    then have "r = r1 \<and> h = sha s \<and> w' = w1"
      using eval e1 by (auto simp: eval_reload_def split: sum.splits exn.splits)
    with e1 show thesis
      using evalsha_cases [where Q = Q, OF e1 start step] failed replied by metis
  next
    case True
    then obtain m where m: "r1 = Inl (NoScriptError m)" by blast
    obtain r2 w2 where l: "script_load C s w1 = (r2, w2)" by fastforce
    have q1: "Q (db w1)"
      using evalsha_cases [where Q = Q, OF e1 start step] m by (metis Inl_Inr_False)
    have q2: "Q (db w2)" using load_db [of s w1] l q1 by simp
    show thesis
    proof (cases r2)
      case (Inl e)
      then show thesis using eval e1 m l q2 by (intro failed) (auto simp: eval_reload_def)
    next
      case (Inr h')
      then have h': "h' = sha s" using l load_sha by blast
      obtain r3 w3 where e3: "evalsha C (sha s) ks argv w2 = (r3, w3)" by fastforce
      have "r = r3 \<and> h = sha s \<and> w' = w3"
        using eval e1 m l Inr h' e3 by (auto simp: eval_reload_def)
      with e3 show thesis
        using evalsha_cases [where Q = Q, OF e3 q2 step] failed replied by metis
    qed
  qed
qed

lemma eval_reload_invariant:
  assumes "eval_reload C s (sha s) ks argv w = (r, h, w')" and "Q (db w)"
    and "\<And>d. Q d \<Longrightarrow> Q (snd (run_script s R ks argv d))"
  shows "Q (db w')"
  using assms(1)
proof (rule eval_reload_cases [where Q = Q, OF _ assms(2,3)], goal_cases)
  case (3 d x)
  then show ?case using assms(3) [of d] by simp
qed simp_all

lemma eval_reload_reply:
  assumes "eval_reload C s (sha s) ks argv w = (Inr x, h, w')" and "Q (db w)"
    and "\<And>d. Q d \<Longrightarrow> Q (snd (run_script s R ks argv d))"
  obtains d where "Q d" "run_script s R ks argv d = (Inr x, db w')"
  using assms(1)
proof (rule eval_reload_cases [where Q = Q, OF _ assms(2,3)], goal_cases)
  case (3 d y)
  then show ?case using that by simp
qed simp_all

text \<open>
  When the server is up, an operation runs its script exactly once, whether or not the server
  still has it.
\<close>

lemma eval_reload_up:
  assumes "up w"
  shows "\<exists>w'. eval_reload C s (sha s) ks argv w = (fst (run_script s R ks argv (db w)), sha s, w')
    \<and> db w' = snd (run_script s R ks argv (db w)) \<and> up w' \<and> s \<in> loaded w'"
proof (cases "s \<in> loaded w")
  case True
  then obtain w' where w': "evalsha C (sha s) ks argv w = (fst (run_script s R ks argv (db w)), w')"
    "db w' = snd (run_script s R ks argv (db w))" "up w'" "loaded w' = loaded w"
    using evalsha_up [OF assms] by blast
  have nons: "fst (run_script s R ks argv (db w)) \<noteq> Inl (NoScriptError m)" for m
    by (rule run_script_errors)
  then have "eval_reload C s (sha s) ks argv w = (fst (run_script s R ks argv (db w)), sha s, w')"
    using w'(1) by (simp add: eval_reload_def split: sum.splits exn.splits)
  then show ?thesis using w' True by simp
next
  case False
  then obtain m w1 where w1: "evalsha C (sha s) ks argv w = (Inl (NoScriptError m), w1)" "db w1 = db w" "up w1"
    using evalsha_noscript [OF assms] by blast
  then obtain w2 where w2: "script_load C s w1 = (Inr (sha s), w2)" "up w2" "loaded w2 = insert s (loaded w1)"
    using load_up by blast
  then have "db w2 = db w" using load_db [of s w1] w1 by simp
  then obtain w3 where "evalsha C (sha s) ks argv w2 = (fst (run_script s R ks argv (db w)), w3)"
    "db w3 = snd (run_script s R ks argv (db w))" "up w3" "loaded w3 = loaded w2"
    using evalsha_up [OF w2(2), of s ks argv] w2(3) by auto
  then show ?thesis using w1 w2 by (auto simp: eval_reload_def)
qed

end

section \<open>A concrete Redis\<close>

text \<open>
  An instance of the parameters, for witnesses: a store with deadlines and a clock, behind a server
  with a schedule of faults, one per request: the request is refused, its reply is lost after it was
  executed, the client repeats it, or the server has just lost its scripts.
\<close>

record clock_redis =
  cr_clock :: nat
  cr_store :: "string \<Rightarrow> (string \<times> nat) option"

definition cr_live :: "string \<Rightarrow> clock_redis \<Rightarrow> (string \<times> nat) option" where
  "cr_live k d = (case cr_store d k of
     None \<Rightarrow> None | Some (v, t) \<Rightarrow> if cr_clock d < t then Some (v, t) else None)"

definition clock_redis_ops :: "clock_redis redis_ops" where
  "clock_redis_ops = \<lparr>
     r_get = (\<lambda>k d. map_option fst (cr_live k d)),
     r_set_ex = (\<lambda>k v t d. d\<lparr>cr_store := (cr_store d)(k := Some (v, cr_clock d + max 1 t))\<rparr>),
     r_expire = (\<lambda>k t d. case cr_live k d of None \<Rightarrow> d
        | Some (v, _) \<Rightarrow> d\<lparr>cr_store := (cr_store d)(k := Some (v, cr_clock d + t))\<rparr>),
     r_del = (\<lambda>k d. d\<lparr>cr_store := (cr_store d)(k := None)\<rparr>),
     r_ttl = (\<lambda>k d. map_option (\<lambda>(v, t). t - cr_clock d) (cr_live k d)),
     r_elapse = (\<lambda>n d. d\<lparr>cr_clock := cr_clock d + n\<rparr>)\<rparr>"

lemma clock_redis_laws: "redis_database clock_redis_ops"
  by unfold_locales (auto simp: clock_redis_ops_def cr_live_def split: option.splits if_splits)

datatype fault = NoFault | Refused | ReplyLost | Repeated | ScriptFlush

record redis_server =
  rs_db :: clock_redis
  rs_scripts :: "lua_script list"
  rs_faults :: "fault list"

primrec script_sha :: "lua_script \<Rightarrow> string" where
  "script_sha LUA_PREPARE = ''sha-prepare''"
| "script_sha LUA_COMMIT = ''sha-commit''"
| "script_sha LUA_CLEANUP = ''sha-cleanup''"
| "script_sha LUA_CLAIM_OR_REFRESH = ''sha-claim''"
| "script_sha LUA_RELEASE_IF_OWNER = ''sha-release''"

definition script_of_sha :: "string \<Rightarrow> lua_script option" where
  "script_of_sha h = find (\<lambda>s. script_sha s = h)
     [LUA_PREPARE, LUA_COMMIT, LUA_CLEANUP, LUA_CLAIM_OR_REFRESH, LUA_RELEASE_IF_OWNER]"

lemma script_of_sha [simp]: "script_of_sha (script_sha s) = Some s"
  by (cases s) (simp_all add: script_of_sha_def)

definition next_fault :: "redis_server \<Rightarrow> fault" where
  "next_fault w = (case rs_faults w of [] \<Rightarrow> NoFault | f # _ \<Rightarrow> f)"

definition pop_fault :: "redis_server \<Rightarrow> redis_server" where
  "pop_fault w = w\<lparr>rs_faults := tl (rs_faults w)\<rparr>"

definition server_script_load :: "lua_script \<Rightarrow> (redis_server, string) io" where
  "server_script_load s w =
     (let w1 = pop_fault w; w2 = w1\<lparr>rs_scripts := s # rs_scripts w1\<rparr> in
      case next_fault w of
        Refused \<Rightarrow> (Inl (OtherError ''Connection refused''), w1)
      | ReplyLost \<Rightarrow> (Inl (OtherError ''Connection closed by server.''), w2)
      | _ \<Rightarrow> (Inr (script_sha s), w2))"

definition server_run :: "string \<Rightarrow> string list \<Rightarrow> string list \<Rightarrow> (redis_server, reply) io" where
  "server_run h ks argv w =
     (case script_of_sha h of
        None \<Rightarrow> (Inl (NoScriptError ''NOSCRIPT No matching script.''), w)
      | Some s \<Rightarrow>
          (if s \<in> set (rs_scripts w)
           then (case run_script s clock_redis_ops ks argv (rs_db w) of (r, d) \<Rightarrow> (r, w\<lparr>rs_db := d\<rparr>))
           else (Inl (NoScriptError ''NOSCRIPT No matching script.''), w)))"

definition server_evalsha :: "string \<Rightarrow> string list \<Rightarrow> string list \<Rightarrow> (redis_server, reply) io" where
  "server_evalsha h ks argv w =
     (let w1 = pop_fault w in
      case next_fault w of
        NoFault \<Rightarrow> server_run h ks argv w1
      | Refused \<Rightarrow> (Inl (OtherError ''Connection refused''), w1)
      | ReplyLost \<Rightarrow> (Inl (OtherError ''Connection closed by server.''), snd (server_run h ks argv w1))
      | Repeated \<Rightarrow> server_run h ks argv (snd (server_run h ks argv w1))
      | ScriptFlush \<Rightarrow> server_run h ks argv (w1\<lparr>rs_scripts := []\<rparr>))"

definition server_ping :: "(redis_server, bool) io" where
  "server_ping w = (case next_fault w of
     Refused \<Rightarrow> (Inl (OtherError ''Connection refused''), pop_fault w)
   | _ \<Rightarrow> (Inr True, pop_fault w))"

definition server_client :: "redis_server redis_client" where
  "server_client = \<lparr>from_url = (\<lambda>url kw. Inr ()), script_load = server_script_load,
     evalsha = server_evalsha, ping = server_ping, aclose = (\<lambda>w. (Inr (), w))\<rparr>"

text \<open>A script that is not loaded, or that failed, has run zero times; otherwise it has run once.\<close>

lemma server_run_db:
  assumes "server_run (script_sha s) ks argv w = (r, w')"
  shows "(rs_db w' = rs_db w \<and> is_error r)
    \<or> (r, rs_db w') = run_script s clock_redis_ops ks argv (rs_db w)"
  using assms by (auto simp: server_run_def split: if_splits prod.splits)

lemma server_run_faults [simp]:
  "rs_faults (snd (server_run h ks argv w)) = rs_faults w"
  "rs_scripts (snd (server_run h ks argv w)) = rs_scripts w"
  by (auto simp: server_run_def split: option.splits prod.splits)

lemma pop_fault_simps [simp]:
  "rs_db (pop_fault w) = rs_db w" "rs_scripts (pop_fault w) = rs_scripts w"
  by (simp_all add: pop_fault_def)

abbreviation server_runs :: "lua_script \<Rightarrow> string list \<Rightarrow> string list \<Rightarrow> reply res \<Rightarrow> clock_redis \<Rightarrow> clock_redis \<Rightarrow> bool" where
  "server_runs s ks argv r d d' \<equiv> (\<exists>n. d' = script_runs s clock_redis_ops ks argv n d \<and>
     (is_error r \<or> (\<exists>m. n = Suc m \<and> r = fst (run_script s clock_redis_ops ks argv (script_runs s clock_redis_ops ks argv m d)))))"

lemma server_runs_zero: "is_error r \<Longrightarrow> server_runs s ks argv r d d"
  by (rule exI [of _ 0]) (simp add: script_runs_def)

lemma server_runs_step:
  assumes "server_runs s ks argv r0 d d1" and "(r, d') = run_script s clock_redis_ops ks argv d1"
  shows "server_runs s ks argv r d d'"
proof -
  obtain n where "d1 = script_runs s clock_redis_ops ks argv n d" using assms(1) by blast
  with assms(2) show ?thesis
    by (intro exI [of _ "Suc n"]) (auto simp: script_runs_def prod_eq_iff)
qed

lemma server_runs_error: "server_runs s ks argv r0 d d' \<Longrightarrow> is_error r \<Longrightarrow> server_runs s ks argv r d d'"
  by blast

lemma server_run_extends:
  assumes "server_runs s ks argv r0 d (rs_db w)" and "server_run (script_sha s) ks argv w = (r, w')"
  shows "server_runs s ks argv r d (rs_db w')"
  using server_run_db [OF assms(2)]
proof
  assume failed: "rs_db w' = rs_db w \<and> is_error r"
  show ?thesis
    unfolding failed [THEN conjunct1] by (rule server_runs_error [OF assms(1) failed [THEN conjunct2]])
next
  assume "(r, rs_db w') = run_script s clock_redis_ops ks argv (rs_db w)"
  then show ?thesis by (rule server_runs_step [OF assms(1)])
qed

lemma server_evalsha_runs:
  assumes "server_evalsha (script_sha s) ks argv w = (r, w')"
  shows "server_runs s ks argv r (rs_db w) (rs_db w')"
proof -
  let ?w1 = "pop_fault w"
  have zero: "server_runs s ks argv (Inl (OtherError [])) (rs_db w) (rs_db v)" if "rs_db v = rs_db w" for v
    unfolding that by (rule server_runs_zero) simp
  obtain r1 v1 where v1: "server_run (script_sha s) ks argv ?w1 = (r1, v1)" by fastforce
  have one: "server_runs s ks argv r1 (rs_db w) (rs_db v1)"
    by (rule server_run_extends [OF zero v1]) simp
  show ?thesis
  proof (cases "next_fault w")
    case NoFault
    then show ?thesis using one v1 assms by (simp add: server_evalsha_def Let_def)
  next
    case Refused
    then have refused: "rs_db w' = rs_db w" "is_error r" using assms by (auto simp: server_evalsha_def Let_def)
    show ?thesis unfolding refused(1) by (rule server_runs_zero [OF refused(2)])
  next
    case ReplyLost
    then show ?thesis using v1 assms server_runs_error [OF one, of r] by (auto simp: server_evalsha_def Let_def)
  next
    case Repeated
    then have "server_run (script_sha s) ks argv v1 = (r, w')"
      using v1 assms by (simp add: server_evalsha_def Let_def)
    then show ?thesis by (rule server_run_extends [OF one])
  next
    case ScriptFlush
    then have "server_run (script_sha s) ks argv (?w1\<lparr>rs_scripts := []\<rparr>) = (r, w')"
      using assms by (simp add: server_evalsha_def Let_def)
    then show ?thesis by (rule server_run_extends [OF zero, rotated]) simp
  qed
qed

lemma server_up_evalsha:
  assumes "rs_faults w = []"
  shows "server_evalsha (script_sha s) ks argv w =
    (if s \<in> set (rs_scripts w)
     then (case run_script s clock_redis_ops ks argv (rs_db w) of (r, d) \<Rightarrow> (r, w\<lparr>rs_db := d\<rparr>))
     else (Inl (NoScriptError ''NOSCRIPT No matching script.''), w))"
  using assms by (cases w) (auto simp: server_evalsha_def server_run_def next_fault_def pop_fault_def split: prod.splits)

interpretation clock: redis_database clock_redis_ops
  by (rule clock_redis_laws)

interpretation server: redis_backend clock_redis_ops server_client rs_db script_sha
  "\<lambda>w. rs_faults w = []" "\<lambda>w. set (rs_scripts w)"
proof unfold_locales
  show "h = script_sha s" if "script_load server_client s w = (Inr h, w')" for s w h w'
    using that by (auto simp: server_client_def server_script_load_def Let_def split: fault.splits)
  show "rs_db (snd (script_load server_client s w)) = rs_db w" for s w
    by (simp add: server_client_def server_script_load_def Let_def split: fault.splits)
  show "rs_db (snd (ping server_client w)) = rs_db w" for w
    by (simp add: server_client_def server_ping_def split: fault.splits)
  show "rs_db (snd (aclose server_client w)) = rs_db w" for w
    by (simp add: server_client_def)
  show "server_runs s ks argv r (rs_db w) (rs_db w')"
    if "evalsha server_client (script_sha s) ks argv w = (r, w')" for s ks argv w r w'
    using that by (intro server_evalsha_runs) (simp add: server_client_def)
  show "\<exists>w'. script_load server_client s w = (Inr (script_sha s), w') \<and> rs_faults w' = []
      \<and> set (rs_scripts w') = insert s (set (rs_scripts w))" if "rs_faults w = []" for s w
    using that by (simp add: server_client_def server_script_load_def next_fault_def pop_fault_def Let_def)
  show "\<exists>w'. evalsha server_client (script_sha s) ks argv w = (fst (run_script s clock_redis_ops ks argv (rs_db w)), w')
      \<and> rs_db w' = snd (run_script s clock_redis_ops ks argv (rs_db w))
      \<and> rs_faults w' = [] \<and> set (rs_scripts w') = set (rs_scripts w)"
    if "rs_faults w = []" "s \<in> set (rs_scripts w)" for s ks argv w
    using that by (simp add: server_client_def server_up_evalsha split: prod.splits)
  show "\<exists>m w'. evalsha server_client (script_sha s) ks argv w = (Inl (NoScriptError m), w')
      \<and> rs_db w' = rs_db w \<and> rs_faults w' = [] \<and> set (rs_scripts w') = set (rs_scripts w)"
    if "rs_faults w = []" "s \<notin> set (rs_scripts w)" for s ks argv w
    using that by (simp add: server_client_def server_up_evalsha)
qed

text \<open>The state in which witnesses start: an empty store, no script loaded, a schedule of faults.\<close>

definition empty_redis :: "fault list \<Rightarrow> redis_server" where
  "empty_redis fs = \<lparr>rs_db = \<lparr>cr_clock = 0, cr_store = (\<lambda>k. None)\<rparr>, rs_scripts = [], rs_faults = fs\<rparr>"

text \<open>Evaluation of the concrete server, for witnesses.\<close>

lemmas server_simps = server_client_def server_script_load_def server_evalsha_def server_run_def
  next_fault_def pop_fault_def empty_redis_def clock_redis_ops_def cr_live_def script_of_sha_def
  after_call_def call_set_ex_def call_expire_def lua_tostring_def

end
