(* ===== verification/Protocols.thy ===== *)
theory Protocols
  imports Json
begin

text \<open>
  The interfaces between the components: the \<open>Protocol\<close> classes of \<open>redis/protocols.py\<close> and
  \<open>producer/protocols.py\<close>. Each is a record of operations on a world of its own and a locale that
  states what its clients rely on, under any failure of the backend. \<open>Sequence\<close>, \<open>Ownership\<close> and
  \<open>Producer\<close> interpret the locales on the classes of the program; the orchestrator and the session are
  written against the records, and their lemmas are proved in the locales.
\<close>

section \<open>Sequence state machine\<close>

datatype PrepareResult = PRE_CHECK_OK | IDEMPOTENT | OUT_OF_ORDER

primrec prepare_result_value :: "PrepareResult \<Rightarrow> string" where
  "prepare_result_value PRE_CHECK_OK = ''PRE_CHECK_OK''"
| "prepare_result_value IDEMPOTENT = ''IDEMPOTENT''"
| "prepare_result_value OUT_OF_ORDER = ''OUT_OF_ORDER''"

record PrepareOutcome =
  status :: PrepareResult
  expected_sequence :: "int option"

record 's seq_ops =
  sm_prepare :: "string \<Rightarrow> int \<Rightarrow> ('s, PrepareOutcome) io"
  sm_commit :: "string \<Rightarrow> int \<Rightarrow> ('s, unit) io"
  sm_cleanup :: "string \<Rightarrow> ('s, unit) io"
  sm_close :: "('s, unit) io"

text \<open>
  What a sequence number is to the counter of its conversation.
\<close>

definition sequence_status :: "int \<Rightarrow> int \<Rightarrow> PrepareResult" where
  "sequence_status n expected =
     (if n = expected then PRE_CHECK_OK else if n < expected then IDEMPOTENT else OUT_OF_ORDER)"

text \<open>
  The counters are exact up to \<open>2 ^ 53\<close> (the numbers of the scripts are IEEE doubles).
\<close>

definition exact_limit :: int where
  "exact_limit = 2 ^ 53"

text \<open>
  The contract. \<open>expected c s\<close> is the next sequence number of conversation \<open>c\<close>. \<open>prepare\<close> never moves a
  counter, and its answer is the comparison with the counter; \<open>commit\<close> sets the counter of its
  conversation to the next number, or fails having done so or nothing; \<open>cleanup\<close> moves none.
\<close>

locale sequence_backend =
  fixes S :: "'s seq_ops" and ok :: "'s \<Rightarrow> bool" and expected :: "string \<Rightarrow> 's \<Rightarrow> int"
  assumes expected_nonneg: "ok s \<Longrightarrow> 0 \<le> expected c s"
    and prepare_frame: "ok s \<Longrightarrow> sm_prepare S cid n s = (r, s') \<Longrightarrow> ok s' \<and> expected c s' = expected c s"
    and prepare_status: "ok s \<Longrightarrow> 0 \<le> n \<Longrightarrow> expected cid s < exact_limit \<Longrightarrow>
      sm_prepare S cid n s = (Inr x, s') \<Longrightarrow>
      x = \<lparr>status = sequence_status n (expected cid s), expected_sequence = Some (expected cid s)\<rparr>"
    and commit_frame: "ok s \<Longrightarrow> 0 \<le> n \<Longrightarrow> sm_commit S cid n s = (ru, s') \<Longrightarrow>
      ok s' \<and> (c \<noteq> cid \<longrightarrow> expected c s' = expected c s)"
    and commit_counter: "ok s \<Longrightarrow> 0 \<le> n \<Longrightarrow> n < exact_limit \<Longrightarrow> sm_commit S cid n s = (ru, s') \<Longrightarrow>
      expected cid s' = n + 1 \<or> (is_error ru \<and> expected cid s' = expected cid s)"
    and cleanup_frame: "ok s \<Longrightarrow> sm_cleanup S cid s = (ru, s') \<Longrightarrow> ok s' \<and> expected c s' = expected c s"

section \<open>Ownership guard\<close>

record 's guard_ops =
  g_claim_or_refresh :: "string \<Rightarrow> string \<Rightarrow> ('s, bool) io"
  g_release :: "string \<Rightarrow> string \<Rightarrow> ('s, unit) io"
  g_close :: "('s, unit) io"

text \<open>
  \<open>owner c s\<close> is the token that owns conversation \<open>c\<close>. A claim succeeds when the conversation is free
  or already owned by the same token, and then owns it; a refused claim changes nothing; a claim that
  raises may have succeeded. A release frees the conversation only from its own token.
\<close>

locale ownership_backend =
  fixes G :: "'s guard_ops" and ok :: "'s \<Rightarrow> bool" and owner :: "string \<Rightarrow> 's \<Rightarrow> string option"
  assumes claim_frame: "ok s \<Longrightarrow> g_claim_or_refresh G cid tok s = (r, s') \<Longrightarrow>
      ok s' \<and> (c \<noteq> cid \<longrightarrow> owner c s' = owner c s)"
    and claim_granted: "ok s \<Longrightarrow> g_claim_or_refresh G cid tok s = (Inr True, s') \<Longrightarrow>
      owner cid s \<in> {None, Some tok} \<and> owner cid s' = Some tok"
    and claim_refused: "ok s \<Longrightarrow> g_claim_or_refresh G cid tok s = (Inr False, s') \<Longrightarrow>
      owner cid s \<notin> {None, Some tok} \<and> owner cid s' = owner cid s"
    and claim_other: "ok s \<Longrightarrow> g_claim_or_refresh G cid tok s = (r, s') \<Longrightarrow> owner cid s \<notin> {None, Some tok} \<Longrightarrow>
      owner cid s' = owner cid s"
    and claim_owner: "ok s \<Longrightarrow> g_claim_or_refresh G cid tok s = (r, s') \<Longrightarrow>
      owner cid s' \<in> {owner cid s, Some tok}"
    and release_frame: "ok s \<Longrightarrow> g_release G cid tok s = (ru, s') \<Longrightarrow>
      ok s' \<and> (c \<noteq> cid \<longrightarrow> owner c s' = owner c s)"
    and release_other: "ok s \<Longrightarrow> g_release G cid tok s = (ru, s') \<Longrightarrow> owner cid s \<noteq> Some tok \<Longrightarrow>
      owner cid s' = owner cid s"
    and release_freed: "ok s \<Longrightarrow> g_release G cid tok s = (Inr u, s') \<Longrightarrow> owner cid s' \<noteq> Some tok"

section \<open>Producer\<close>

record 'k producer_ops =
  p_send :: "string \<Rightarrow> dict \<Rightarrow> ('k, unit) io"
  p_ensure_ready :: "('k, unit) io"
  p_flush :: "('k, unit) io"
  p_close :: "('k, unit) io"

text \<open>
  \<open>delivered k\<close> is what the topic holds, oldest first, as pairs of key and message; \<open>pending k\<close> are the
  messages handed over whose delivery was not confirmed, which may still arrive, or never. A
  send that returns has delivered its message; one that raises may have delivered it.
\<close>

locale producer_backend =
  fixes K :: "'k producer_ops" and ok :: "'k \<Rightarrow> bool"
    and delivered :: "'k \<Rightarrow> (string \<times> dict) list" and pending :: "'k \<Rightarrow> (string \<times> dict) set"
  assumes send_returned: "ok k \<Longrightarrow> p_send K cid p k = (Inr u, k') \<Longrightarrow>
      ok k' \<and> pending k' \<subseteq> pending k
      \<and> (\<exists>late. set late \<subseteq> pending k \<and> delivered k' = delivered k @ late @ [(cid, p)])"
    and send_raised: "ok k \<Longrightarrow> p_send K cid p k = (Inl e, k') \<Longrightarrow>
      ok k' \<and> pending k' \<subseteq> insert (cid, p) (pending k)
      \<and> (\<exists>late. set late \<subseteq> insert (cid, p) (pending k) \<and> delivered k' = delivered k @ late)"

end
