(* ===== verification/Sequence.thy ===== *)
theory Sequence
  imports Redis Protocols
begin

text \<open>
  The sequence state machine, \<open>redis/sequence_state_machine.py\<close>: the class
  \<open>RedisSequenceStateMachine\<close> over the client and the scripts of \<open>Redis\<close>. Its methods change the object
  and the world of the client, so they are computations on the pair of both. The theory proves
  what the scripts do to a counter; \<open>Sequence_Contract\<close> proves the contract of the class.
\<close>

section \<open>The object\<close>

record seq_sm = redis_conn +
  active_ttl :: int
  final_ttl :: int
  key_prefix :: string
  sha_prepare :: "string option"
  sha_commit :: "string option"
  sha_cleanup :: "string option"

definition new_seq_sm ::
  "string option \<Rightarrow> int \<Rightarrow> string option \<Rightarrow> string option \<Rightarrow> bool \<Rightarrow> int \<Rightarrow> int \<Rightarrow> string \<Rightarrow> bool \<Rightarrow> seq_sm res" where
  "new_seq_sm url max_conns username password check_hostname active final prefix has_client =
     (if \<not> has_client \<and> url = None
      then Inl (ValueError ''redis_url is required when client is not provided'')
      else Inr \<lparr>redis_url = url, redis_username = username, redis_password = password,
        ssl_check_hostname = check_hostname, max_connections = max_conns, client_set = has_client,
        client_injected = has_client, active_ttl = active, final_ttl = final, key_prefix = prefix,
        sha_prepare = None, sha_commit = None, sha_cleanup = None\<rparr>)"

definition sm_key :: "string \<Rightarrow> string \<Rightarrow> string" where
  "sm_key prefix conversation_id = prefix @ '':'' @ conversation_id"

type_synonym ('w, 'a) sm_io = "(seq_sm \<times> 'w, 'a) io"

text \<open>
  The digest is stored as soon as a script is loaded, so a failure keeps those loaded before it.
\<close>

fun sm_ensure_scripts_loaded :: "'w redis_client \<Rightarrow> ('w, unit) sm_io" where
  "sm_ensure_scripts_loaded C (s0, w0) =
     (case get_client C s0 of
        (Inl e, s1) \<Rightarrow> (Inl e, (s1, w0))
      | (Inr _, s1) \<Rightarrow>
          (case ensure_script C LUA_PREPARE (sha_prepare s1) w0 of
             (Inl e, w1) \<Rightarrow> (Inl e, (s1, w1))
           | (Inr h1, w1) \<Rightarrow>
               (let s2 = s1\<lparr>sha_prepare := Some h1\<rparr> in
                case ensure_script C LUA_COMMIT (sha_commit s2) w1 of
                  (Inl e, w2) \<Rightarrow> (Inl e, (s2, w2))
                | (Inr h2, w2) \<Rightarrow>
                    (let s3 = s2\<lparr>sha_commit := Some h2\<rparr> in
                     case ensure_script C LUA_CLEANUP (sha_cleanup s3) w2 of
                       (Inl e, w3) \<Rightarrow> (Inl e, (s3, w3))
                     | (Inr h3, w3) \<Rightarrow> (Inr (), (s3\<lparr>sha_cleanup := Some h3\<rparr>, w3))))))"

definition prepare_result_of :: "string \<Rightarrow> PrepareResult res" where
  "prepare_result_of v =
     (case find (\<lambda>p. prepare_result_value p = v) [PRE_CHECK_OK, IDEMPOTENT, OUT_OF_ORDER] of
        Some p \<Rightarrow> Inr p
      | None \<Rightarrow> Inl (ValueError (py_repr v @ '' is not a valid PrepareResult'')))"

fun parse_expected :: "reply \<Rightarrow> int option res" where
  "parse_expected RNil = Inr None"
| "parse_expected (RInt i) = Inr (Some i)"
| "parse_expected (RStr s) =
     (case int_of_str s of
        Some i \<Rightarrow> Inr (Some i)
      | None \<Rightarrow> Inl (ValueError (''invalid literal for int() with base 10: '' @ py_repr s)))"
| "parse_expected r = Inl (ValueError (''Unexpected expected_sequence type: '' @ reply_type r))"

fun status_value :: "reply \<Rightarrow> string" where
  "status_value (RBytes b) = b"
| "status_value r = reply_str r"

definition parse_prepare_result :: "reply list \<Rightarrow> PrepareOutcome res" where
  "parse_prepare_result result =
     (case result of
        [status_raw, expected_raw] \<Rightarrow>
          (case parse_expected expected_raw of
             Inl e \<Rightarrow> Inl e
           | Inr expected_seq \<Rightarrow>
               (case prepare_result_of (status_value status_raw) of
                  Inl e \<Rightarrow> Inl e
                | Inr st \<Rightarrow> Inr \<lparr>status = st, expected_sequence = expected_seq\<rparr>))
      | _ \<Rightarrow> Inl (ValueError (''Unexpected prepare result shape: '' @ reply_repr (RList result))))"

definition prepare_outcome :: "reply \<Rightarrow> PrepareOutcome res" where
  "prepare_outcome raw_result =
     (case raw_result of
        RList result \<Rightarrow> parse_prepare_result result
      | r \<Rightarrow> Inl (ValueError (''Unexpected prepare result type: '' @ reply_type r)))"

section \<open>Operations\<close>

fun prepare :: "'w redis_client \<Rightarrow> string \<Rightarrow> int \<Rightarrow> ('w, PrepareOutcome) sm_io" where
  "prepare C conversation_id seq sw =
     (case sm_ensure_scripts_loaded C sw of
        (Inl e, sw1) \<Rightarrow> (Inl e, sw1)
      | (Inr _, (s, w)) \<Rightarrow>
          (case sha_prepare s of
             None \<Rightarrow> (Inl (AssertionError []), (s, w))
           | Some h \<Rightarrow>
               (case eval_reload C LUA_PREPARE h [sm_key (key_prefix s) conversation_id]
                   [str_of_int seq, str_of_int (active_ttl s)] w of
                  (r, h', w') \<Rightarrow>
                    (case r of Inl e \<Rightarrow> Inl e | Inr raw \<Rightarrow> prepare_outcome raw,
                     (s\<lparr>sha_prepare := Some h'\<rparr>, w')))))"

fun commit :: "'w redis_client \<Rightarrow> string \<Rightarrow> int \<Rightarrow> ('w, unit) sm_io" where
  "commit C conversation_id seq sw =
     (case sm_ensure_scripts_loaded C sw of
        (Inl e, sw1) \<Rightarrow> (Inl e, sw1)
      | (Inr _, (s, w)) \<Rightarrow>
          (case sha_commit s of
             None \<Rightarrow> (Inl (AssertionError []), (s, w))
           | Some h \<Rightarrow>
               (case eval_reload C LUA_COMMIT h [sm_key (key_prefix s) conversation_id]
                   [str_of_int seq, str_of_int (active_ttl s)] w of
                  (r, h', w') \<Rightarrow> (map_sum id (\<lambda>_. ()) r, (s\<lparr>sha_commit := Some h'\<rparr>, w')))))"

fun cleanup :: "'w redis_client \<Rightarrow> string \<Rightarrow> ('w, unit) sm_io" where
  "cleanup C conversation_id sw =
     (case sm_ensure_scripts_loaded C sw of
        (Inl e, sw1) \<Rightarrow> (Inl e, sw1)
      | (Inr _, (s, w)) \<Rightarrow>
          (case sha_cleanup s of
             None \<Rightarrow> (Inl (AssertionError []), (s, w))
           | Some h \<Rightarrow>
               (case eval_reload C LUA_CLEANUP h [sm_key (key_prefix s) conversation_id]
                   [str_of_int (final_ttl s)] w of
                  (r, h', w') \<Rightarrow> (map_sum id (\<lambda>_. ()) r, (s\<lparr>sha_cleanup := Some h'\<rparr>, w')))))"

declare prepare.simps [simp del] commit.simps [simp del] cleanup.simps [simp del]

fun sm_close_client :: "'w redis_client \<Rightarrow> ('w, unit) sm_io" where
  "sm_close_client C (s, w) =
     (if client_set s \<and> \<not> client_injected s
      then (case aclose C w of
              (Inl e, w') \<Rightarrow> (Inl e, (s, w'))
            | (Inr _, w') \<Rightarrow> (Inr (), (s\<lparr>client_set := False\<rparr>, w')))
      else (Inr (), (s\<lparr>client_set := False\<rparr>, w)))"

text \<open>The class as an implementation of \<open>SequenceStateMachineBackend\<close>.\<close>

definition redis_sequence :: "'w redis_client \<Rightarrow> (seq_sm \<times> 'w) seq_ops" where
  "redis_sequence C = \<lparr>sm_prepare = prepare C, sm_commit = commit C, sm_cleanup = cleanup C,
     sm_close = sm_close_client C\<rparr>"

section \<open>The counter\<close>

text \<open>
  The counter of a key: what is stored there, or 0. \<open>counter_ok\<close>: nothing, or a natural number in decimal.
\<close>

definition counter :: "'d redis_ops \<Rightarrow> string \<Rightarrow> 'd \<Rightarrow> int" where
  "counter R key d =
     (case r_get R key d of None \<Rightarrow> 0 | Some v \<Rightarrow> (case int_of_str v of None \<Rightarrow> 0 | Some n \<Rightarrow> n))"

definition counter_ok :: "'d redis_ops \<Rightarrow> string \<Rightarrow> 'd \<Rightarrow> bool" where
  "counter_ok R key d =
     (case r_get R key d of None \<Rightarrow> True
      | Some v \<Rightarrow> (case int_of_str v of None \<Rightarrow> False | Some n \<Rightarrow> 0 \<le> n \<and> v = str_of_int n))"

lemma counter_ok_iff: "counter_ok R key d \<longleftrightarrow>
  (r_get R key d = None \<or> (\<exists>n\<ge>0. r_get R key d = Some (str_of_int n)))"
  by (auto simp: counter_ok_def split: option.splits)

lemma counter_simps:
  "r_get R key d = None \<Longrightarrow> counter R key d = 0"
  "r_get R key d = Some (str_of_int n) \<Longrightarrow> counter R key d = n"
  by (simp_all add: counter_def)

lemma sm_key_inj [simp]: "sm_key p c = sm_key p c' \<longleftrightarrow> c = c'"
  by (simp add: sm_key_def)

text \<open>A committed number below the limit is stored exactly.\<close>

lemma double_commit:
  assumes "0 \<le> n" "n < exact_limit"
  shows "double_of_int (double_of_int n + 1) = n + 1"
proof -
  have n: "double_of_int n = n" using assms by (simp add: exact_limit_def double_of_int_small)
  show ?thesis
  proof (cases "n + 1 < 2 ^ 53")
    case True
    then show ?thesis using assms n by (simp only: n) (simp add: double_of_int_small)
  next
    case False
    then have "n + 1 = 2 ^ 53" using assms by (simp add: exact_limit_def)
    then show ?thesis by (simp only: n double_limit)
  qed
qed

section \<open>What the scripts do to a counter\<close>

context redis_database
begin

text \<open>
  The pre-check: the answer is the comparison with the counter, no other key changes, and the
  stored value changes only from nothing to 0.
\<close>

lemma prepare_reply:
  assumes "counter_ok R key d" "counter R key d < exact_limit" "0 \<le> n" "0 < ttl"
  shows "fst (run_script LUA_PREPARE R [key] [str_of_int n, str_of_int ttl] d) =
    Inr (RList [RStr (prepare_result_value (sequence_status n (counter R key d))), RInt (counter R key d)])"
proof (cases "r_get R key d")
  case None
  have "double_of_int n = 0 \<longleftrightarrow> n = 0"
    using double_of_int_cmp(1) [of 0 n] assms by simp
  then show ?thesis using None assms
    by (auto simp: lua_prepare_def counter_simps call_set_ex_pos after_call_def sequence_status_def)
next
  case (Some v)
  then obtain c where c: "0 \<le> c" "r_get R key d = Some (str_of_int c)"
    using assms(1) by (auto simp: counter_ok_iff)
  then have limit: "c < 2 ^ 53" using assms(2) by (simp add: counter_simps exact_limit_def)
  have "double_of_int c = c" using c limit by (simp add: double_of_int_small)
  then show ?thesis
    using c assms double_of_int_cmp [OF c(1) limit assms(3)]
    by (auto simp: lua_prepare_def counter_simps call_expire_pos after_call_def sequence_status_def)
qed

lemma prepare_get:
  assumes "0 < ttl"
  shows "r_get R k (snd (run_script LUA_PREPARE R [key] [str_of_int n, str_of_int ttl] d)) =
    (if k = key \<and> r_get R key d = None \<and> double_of_int n = 0 then Some (str_of_int 0) else r_get R k d)"
  using assms
  by (auto simp: lua_prepare_def lua_tostring_def call_set_ex_pos call_expire_pos after_call_def get_set
      get_expire_pos Let_def split: option.splits)

lemma prepare_counter:
  assumes "counter_ok R k d" "0 < ttl"
  shows "counter_ok R k (snd (run_script LUA_PREPARE R [key] [str_of_int n, str_of_int ttl] d))
    \<and> counter R k (snd (run_script LUA_PREPARE R [key] [str_of_int n, str_of_int ttl] d)) = counter R k d"
  using assms by (auto simp: counter_ok_iff counter_def prepare_get simp del: run_script.simps)

lemma commit_get:
  assumes "0 < ttl"
  shows "r_get R k (snd (run_script LUA_COMMIT R [key] [str_of_int n, str_of_int ttl] d)) =
    (if k = key then Some (str_of_int (double_of_int (double_of_int n + 1))) else r_get R k d)"
  using assms by (simp add: lua_commit_def lua_tostring_def call_set_ex_pos after_call_def get_set)

lemma commit_reply:
  assumes "0 < ttl"
  shows "fst (run_script LUA_COMMIT R [key] [str_of_int n, str_of_int ttl] d) = Inr (RStr ''OK'')"
  using assms by (simp add: lua_commit_def lua_tostring_def call_set_ex_pos after_call_def)

lemma cleanup_get:
  assumes "0 < ttl"
  shows "r_get R k (snd (run_script LUA_CLEANUP R [key] [str_of_int ttl] d)) = r_get R k d"
  using assms by (simp add: lua_cleanup_def call_expire_pos after_call_def get_expire_pos)

lemma cleanup_reply:
  assumes "0 < ttl"
  shows "fst (run_script LUA_CLEANUP R [key] [str_of_int ttl] d) = Inr (RStr ''OK'')"
  using assms by (simp add: lua_cleanup_def call_expire_pos after_call_def)

text \<open>The expiry that each script leaves on the key of its conversation.\<close>

lemma prepare_ttl:
  assumes "0 < ttl" "ttl < exact_limit" "counter_ok R key d" "counter R key d < exact_limit" "0 \<le> n"
  shows "r_ttl R key (snd (run_script LUA_PREPARE R [key] [str_of_int n, str_of_int ttl] d)) =
    (if n = counter R key d then Some (nat ttl) else r_ttl R key d)"
proof -
  have t: "double_of_int ttl = ttl" using assms by (simp add: exact_limit_def double_of_int_small)
  show ?thesis
  proof (cases "r_get R key d")
    case None
    have "double_of_int n = 0 \<longleftrightarrow> n = 0"
      using double_of_int_cmp(1) [of 0 n] assms by simp
    then show ?thesis using None assms t
      by (auto simp: lua_prepare_def counter_simps call_exact after_call_def ttl_set)
  next
    case (Some v)
    then obtain c where c: "0 \<le> c" "r_get R key d = Some (str_of_int c)"
      using assms(3) by (auto simp: counter_ok_iff)
    then have limit: "c < 2 ^ 53" using assms(4) by (simp add: counter_simps exact_limit_def)
    have "double_of_int c = c" using c limit by (simp add: double_of_int_small)
    then show ?thesis
      using c t assms double_of_int_cmp [OF c(1) limit assms(5)]
      by (auto simp: lua_prepare_def counter_simps call_exact after_call_def ttl_expire)
  qed
qed

lemma commit_ttl:
  assumes "0 < ttl" "ttl < exact_limit"
  shows "r_ttl R k (snd (run_script LUA_COMMIT R [key] [str_of_int n, str_of_int ttl] d)) =
    (if k = key then Some (nat ttl) else r_ttl R k d)"
  using assms by (simp add: lua_commit_def lua_tostring_def call_exact after_call_def ttl_set
      exact_limit_def double_of_int_small)

lemma cleanup_ttl:
  assumes "0 < ttl" "ttl < exact_limit"
  shows "r_ttl R k (snd (run_script LUA_CLEANUP R [key] [str_of_int ttl] d)) =
    (if k = key \<and> r_get R key d \<noteq> None then Some (nat ttl) else r_ttl R k d)"
  using assms by (auto simp: lua_cleanup_def call_exact after_call_def ttl_expire
      exact_limit_def double_of_int_small)

end

end
