(* ===== verification/Sequence_Contract.thy ===== *)
theory Sequence_Contract
  imports Sequence
begin

text \<open>
  \<open>RedisSequenceStateMachine\<close> implements the contract \<open>sequence_backend\<close> of \<open>Protocols\<close>, whatever Redis
  does, and answers as specified when Redis is up.
\<close>

section \<open>The contract\<close>

text \<open>
  The invariant of the object and the database: positive expiries, digests that are the scripts',
  and only natural numbers under the keys of conversations.
\<close>

definition sm_config :: "seq_sm \<Rightarrow> int \<times> int \<times> string" where
  "sm_config s = (active_ttl s, final_ttl s, key_prefix s)"

definition shas_ok :: "(lua_script \<Rightarrow> string) \<Rightarrow> seq_sm \<Rightarrow> bool" where
  "shas_ok sha s \<longleftrightarrow> sha_prepare s \<in> {None, Some (sha LUA_PREPARE)}
     \<and> sha_commit s \<in> {None, Some (sha LUA_COMMIT)} \<and> sha_cleanup s \<in> {None, Some (sha LUA_CLEANUP)}"

definition sm_ok :: "'d redis_ops \<Rightarrow> ('w \<Rightarrow> 'd) \<Rightarrow> (lua_script \<Rightarrow> string) \<Rightarrow> seq_sm \<times> 'w \<Rightarrow> bool" where
  "sm_ok R db sha sw \<longleftrightarrow> 0 < active_ttl (fst sw) \<and> 0 < final_ttl (fst sw) \<and> shas_ok sha (fst sw)
     \<and> (\<forall>cid. counter_ok R (sm_key (key_prefix (fst sw)) cid) (db (snd sw)))"

definition sm_expected :: "'d redis_ops \<Rightarrow> ('w \<Rightarrow> 'd) \<Rightarrow> string \<Rightarrow> seq_sm \<times> 'w \<Rightarrow> int" where
  "sm_expected R db cid sw = counter R (sm_key (key_prefix (fst sw)) cid) (db (snd sw))"

lemma get_client_frame:
  "sm_config (snd (get_client C s)) = sm_config s"
  "sha_prepare (snd (get_client C s)) = sha_prepare s"
  "sha_commit (snd (get_client C s)) = sha_commit s"
  "sha_cleanup (snd (get_client C s)) = sha_cleanup s"
  by (simp_all add: get_client_def sm_config_def split: option.splits sum.splits)

lemma counter_nonneg: "counter_ok R k d \<Longrightarrow> 0 \<le> counter R k d"
  by (auto simp: counter_ok_iff counter_def)

lemma prepare_result_of_value [simp]: "prepare_result_of (prepare_result_value p) = Inr p"
  by (cases p) (simp_all add: prepare_result_of_def)

lemma prepare_outcome_of: "prepare_outcome (RList [RStr (prepare_result_value p), RInt e]) =
    Inr \<lparr>status = p, expected_sequence = Some e\<rparr>"
  by (simp add: prepare_outcome_def parse_prepare_result_def)

context redis_backend
begin

lemma ensure_frame:
  assumes run: "sm_ensure_scripts_loaded C (s, w) = (r, s', w')" and shas: "shas_ok sha s"
  shows "db w' = db w \<and> sm_config s' = sm_config s \<and> shas_ok sha s' \<and>
    (is_error r \<or> (sha_prepare s' = Some (sha LUA_PREPARE) \<and> sha_commit s' = Some (sha LUA_COMMIT)
      \<and> sha_cleanup s' = Some (sha LUA_CLEANUP)))"
proof -
  note split = sum.splits prod.splits
  obtain rc s1 where gc: "get_client C s = (rc, s1)" by fastforce
  then have s1: "sm_config s1 = sm_config s" "sha_prepare s1 = sha_prepare s"
    "sha_commit s1 = sha_commit s" "sha_cleanup s1 = sha_cleanup s"
    using get_client_frame [of C s] by simp_all
  obtain r1 w1 where e1: "ensure_script C LUA_PREPARE (sha_prepare s) w = (r1, w1)" by fastforce
  obtain r2 w2 where e2: "ensure_script C LUA_COMMIT (sha_commit s) w1 = (r2, w2)" by fastforce
  obtain r3 w3 where e3: "ensure_script C LUA_CLEANUP (sha_cleanup s) w2 = (r3, w3)" by fastforce
  have d1: "db w1 = db w \<and> (is_error r1 \<or> r1 = Inr (sha LUA_PREPARE))"
    by (rule ensure_script_safe [OF e1]) (use shas in \<open>auto simp: shas_ok_def\<close>)
  have d2: "db w2 = db w1 \<and> (is_error r2 \<or> r2 = Inr (sha LUA_COMMIT))"
    by (rule ensure_script_safe [OF e2]) (use shas in \<open>auto simp: shas_ok_def\<close>)
  have d3: "db w3 = db w2 \<and> (is_error r3 \<or> r3 = Inr (sha LUA_CLEANUP))"
    by (rule ensure_script_safe [OF e3]) (use shas in \<open>auto simp: shas_ok_def\<close>)
  have known: "sha_prepare s \<in> {None, Some (sha LUA_PREPARE)}" "sha_commit s \<in> {None, Some (sha LUA_COMMIT)}"
    "sha_cleanup s \<in> {None, Some (sha LUA_CLEANUP)}"
    using shas by (simp_all add: shas_ok_def)
  show ?thesis
  proof (cases rc)
    case (Inl x)
    then show ?thesis using run gc s1 known by (auto simp: shas_ok_def)
  next
    case rc: (Inr x)
    show ?thesis
    proof (cases r1)
      case (Inl y)
      then show ?thesis using run gc rc e1 d1 s1 known by (auto simp: shas_ok_def)
    next
      case r1: (Inr h1)
      show ?thesis
      proof (cases r2)
        case (Inl y)
        then show ?thesis using run gc rc e1 r1 e2 d1 d2 s1 known
          by (simp add: shas_ok_def sm_config_def Let_def) (auto simp: sm_config_def)
      next
        case r2: (Inr h2)
        show ?thesis
          by (cases r3) (use run gc rc e1 r1 e2 r2 e3 d1 d2 d3 s1 known in
            \<open>simp add: shas_ok_def sm_config_def Let_def; auto simp: sm_config_def\<close>)+
      qed
    qed
  qed
qed

text \<open>An operation of the class is the loading of the scripts and one evaluation.\<close>

lemma prepare_cases [consumes 2, case_names failed ran]:
  assumes "sm_ok R db sha (s, w)" and "prepare C cid n (s, w) = (r, s', w')"
  obtains (failed) e where "r = Inl e" "db w' = db w" "sm_config s' = sm_config s" "shas_ok sha s'"
  | (ran) w1 h r0 where "db w1 = db w" "sm_config s' = sm_config s" "shas_ok sha s'"
      "eval_reload C LUA_PREPARE (sha LUA_PREPARE) [sm_key (key_prefix s) cid]
         [str_of_int n, str_of_int (active_ttl s)] w1 = (r0, h, w')"
      "r = (case r0 of Inl e \<Rightarrow> Inl e | Inr raw \<Rightarrow> prepare_outcome raw)"
proof -
  obtain r1 s1 w1 where e: "sm_ensure_scripts_loaded C (s, w) = (r1, s1, w1)" by (metis prod_cases3)
  note f = ensure_frame [OF e]
  show thesis
  proof (cases r1)
    case (Inl x)
    then show thesis using assms e f by (intro failed) (auto simp: prepare.simps sm_ok_def)
  next
    case (Inr u)
    then have s1: "db w1 = db w" "sm_config s1 = sm_config s" "shas_ok sha s1" "sha_prepare s1 = Some (sha LUA_PREPARE)"
      using f assms(1) by (auto simp: sm_ok_def)
    obtain r0 h w2 where ev: "eval_reload C LUA_PREPARE (sha LUA_PREPARE) [sm_key (key_prefix s) cid]
         [str_of_int n, str_of_int (active_ttl s)] w1 = (r0, h, w2)" by (metis prod_cases3)
    have "h = sha LUA_PREPARE"
      by (rule eval_reload_cases [where Q = "\<lambda>_. True", OF ev]) auto
    then show thesis
      using assms e Inr s1 ev by (intro ran [of w1 r0 h]) (auto simp: prepare.simps sm_config_def shas_ok_def)
  qed
qed

lemma commit_cases [consumes 2, case_names failed ran]:
  assumes "sm_ok R db sha (s, w)" and "commit C cid n (s, w) = (r, s', w')"
  obtains (failed) e where "r = Inl e" "db w' = db w" "sm_config s' = sm_config s" "shas_ok sha s'"
  | (ran) w1 h r0 where "db w1 = db w" "sm_config s' = sm_config s" "shas_ok sha s'"
      "eval_reload C LUA_COMMIT (sha LUA_COMMIT) [sm_key (key_prefix s) cid]
         [str_of_int n, str_of_int (active_ttl s)] w1 = (r0, h, w')"
      "r = map_sum id (\<lambda>_. ()) r0"
proof -
  obtain r1 s1 w1 where e: "sm_ensure_scripts_loaded C (s, w) = (r1, s1, w1)" by (metis prod_cases3)
  note f = ensure_frame [OF e]
  show thesis
  proof (cases r1)
    case (Inl x)
    then show thesis using assms e f by (intro failed) (auto simp: commit.simps sm_ok_def)
  next
    case (Inr u)
    then have s1: "db w1 = db w" "sm_config s1 = sm_config s" "shas_ok sha s1" "sha_commit s1 = Some (sha LUA_COMMIT)"
      using f assms(1) by (auto simp: sm_ok_def)
    obtain r0 h w2 where ev: "eval_reload C LUA_COMMIT (sha LUA_COMMIT) [sm_key (key_prefix s) cid]
         [str_of_int n, str_of_int (active_ttl s)] w1 = (r0, h, w2)" by (metis prod_cases3)
    have "h = sha LUA_COMMIT"
      by (rule eval_reload_cases [where Q = "\<lambda>_. True", OF ev]) auto
    then show thesis
      using assms e Inr s1 ev by (intro ran [of w1 r0 h]) (auto simp: commit.simps sm_config_def shas_ok_def)
  qed
qed

lemma cleanup_cases [consumes 2, case_names failed ran]:
  assumes "sm_ok R db sha (s, w)" and "cleanup C cid (s, w) = (r, s', w')"
  obtains (failed) e where "r = Inl e" "db w' = db w" "sm_config s' = sm_config s" "shas_ok sha s'"
  | (ran) w1 h r0 where "db w1 = db w" "sm_config s' = sm_config s" "shas_ok sha s'"
      "eval_reload C LUA_CLEANUP (sha LUA_CLEANUP) [sm_key (key_prefix s) cid] [str_of_int (final_ttl s)] w1 = (r0, h, w')"
      "r = map_sum id (\<lambda>_. ()) r0"
proof -
  obtain r1 s1 w1 where e: "sm_ensure_scripts_loaded C (s, w) = (r1, s1, w1)" by (metis prod_cases3)
  note f = ensure_frame [OF e]
  show thesis
  proof (cases r1)
    case (Inl x)
    then show thesis using assms e f by (intro failed) (auto simp: cleanup.simps sm_ok_def)
  next
    case (Inr u)
    then have s1: "db w1 = db w" "sm_config s1 = sm_config s" "shas_ok sha s1" "sha_cleanup s1 = Some (sha LUA_CLEANUP)"
      using f assms(1) by (auto simp: sm_ok_def)
    obtain r0 h w2 where ev: "eval_reload C LUA_CLEANUP (sha LUA_CLEANUP) [sm_key (key_prefix s) cid]
         [str_of_int (final_ttl s)] w1 = (r0, h, w2)" by (metis prod_cases3)
    have "h = sha LUA_CLEANUP"
      by (rule eval_reload_cases [where Q = "\<lambda>_. True", OF ev]) auto
    then show thesis
      using assms e Inr s1 ev by (intro ran [of w1 r0 h]) (auto simp: cleanup.simps sm_config_def shas_ok_def)
  qed
qed

lemma sm_okI:
  assumes "sm_ok R db sha (s, w)" "sm_config s' = sm_config s" "shas_ok sha s'"
    and "\<And>c. counter_ok R (sm_key (key_prefix s) c) (db w')"
  shows "sm_ok R db sha (s', w')"
  using assms by (simp add: sm_ok_def sm_config_def)

lemma sm_expected_config: "sm_config s' = sm_config s \<Longrightarrow>
  sm_expected R db c (s', w') = counter R (sm_key (key_prefix s) c) (db w')"
  by (simp add: sm_expected_def sm_config_def)

lemma prepare_frame:
  assumes ok: "sm_ok R db sha (s, w)" and run: "prepare C cid n (s, w) = (r, s', w')"
  shows "sm_ok R db sha (s', w') \<and> sm_expected R db c (s', w') = sm_expected R db c (s, w)"
  using ok run
proof (cases rule: prepare_cases)
  case (failed e)
  with ok show ?thesis by (auto simp: sm_expected_config sm_ok_def sm_expected_def sm_config_def)
next
  case (ran w1 h r0)
  let ?Q = "\<lambda>d. \<forall>c. counter_ok R (sm_key (key_prefix s) c) d
    \<and> counter R (sm_key (key_prefix s) c) d = counter R (sm_key (key_prefix s) c) (db w)"
  have start: "?Q (db w1)" using ok ran(1) by (simp add: sm_ok_def)
  have "0 < active_ttl s" using ok by (simp add: sm_ok_def)
  then have step: "?Q d \<Longrightarrow> ?Q (snd (run_script LUA_PREPARE R [sm_key (key_prefix s) cid]
      [str_of_int n, str_of_int (active_ttl s)] d))" for d
    by (simp add: prepare_counter del: run_script.simps)
  have "?Q (db w')"
    by (rule eval_reload_invariant [where Q = ?Q, OF ran(4) start step])
  then show ?thesis using sm_okI [OF ok ran(2,3)] ran(2) by (simp add: sm_expected_config sm_expected_def sm_config_def)
qed

lemma prepare_status:
  assumes ok: "sm_ok R db sha (s, w)" and n: "0 \<le> n" and e: "sm_expected R db cid (s, w) < exact_limit"
    and run: "prepare C cid n (s, w) = (Inr x, s', w')"
  shows "x = \<lparr>status = sequence_status n (sm_expected R db cid (s, w)),
      expected_sequence = Some (sm_expected R db cid (s, w))\<rparr>"
  using ok run
proof (cases rule: prepare_cases)
  case (failed e)
  then show ?thesis by simp
next
  case (ran w1 h r0)
  let ?k = "sm_key (key_prefix s) cid" and ?e = "sm_expected R db cid (s, w)"
  let ?Q = "\<lambda>d. counter_ok R ?k d \<and> counter R ?k d = ?e"
  have start: "?Q (db w1)" using ok ran(1) by (simp add: sm_ok_def sm_expected_def)
  have ttl: "0 < active_ttl s" using ok by (simp add: sm_ok_def)
  then have step: "?Q d \<Longrightarrow> ?Q (snd (run_script LUA_PREPARE R [?k] [str_of_int n, str_of_int (active_ttl s)] d))" for d
    by (simp add: prepare_counter del: run_script.simps)
  obtain raw where r0: "r0 = Inr raw" "prepare_outcome raw = Inr x" using ran(5) by (cases r0) auto
  obtain d where d: "?Q d"
    and reply: "run_script LUA_PREPARE R [?k] [str_of_int n, str_of_int (active_ttl s)] d = (Inr raw, db w')"
    by (rule eval_reload_reply [where Q = ?Q, OF ran(4) [unfolded r0(1)] start step])
  have "Inr raw = fst (run_script LUA_PREPARE R [?k] [str_of_int n, str_of_int (active_ttl s)] d)"
    by (simp only: reply fst_conv)
  also have "\<dots> = Inr (RList [RStr (prepare_result_value (sequence_status n ?e)), RInt ?e])"
    using prepare_reply [of ?k d n "active_ttl s"] d e n ttl by simp
  finally have "raw = RList [RStr (prepare_result_value (sequence_status n ?e)), RInt ?e]" by simp
  then show ?thesis using r0(2) prepare_outcome_of by simp
qed

lemma commit_effect:
  assumes ok: "sm_ok R db sha (s, w)" and n: "0 \<le> n" and run: "commit C cid n (s, w) = (r, s', w')"
  shows "sm_ok R db sha (s', w')" and "c \<noteq> cid \<Longrightarrow> sm_expected R db c (s', w') = sm_expected R db c (s, w)"
    and "sm_expected R db cid (s', w') = double_of_int (double_of_int n + 1)
      \<or> (is_error r \<and> sm_expected R db cid (s', w') = sm_expected R db cid (s, w))"
proof -
  let ?k = "sm_key (key_prefix s)" and ?v = "double_of_int (double_of_int n + 1)"
  have v: "0 \<le> ?v" using n by (simp add: double_nonneg(1))
  have goal: "sm_ok R db sha (s', w') \<and> (\<forall>c. c \<noteq> cid \<longrightarrow> sm_expected R db c (s', w') = sm_expected R db c (s, w))
    \<and> (sm_expected R db cid (s', w') = ?v \<or> (is_error r \<and> sm_expected R db cid (s', w') = sm_expected R db cid (s, w)))"
    using ok run
  proof (cases rule: commit_cases)
    case (failed e)
    with ok show ?thesis by (auto simp: sm_expected_config sm_ok_def sm_expected_def sm_config_def)
  next
    case (ran w1 h r0)
    let ?run = "run_script LUA_COMMIT R [?k cid] [str_of_int n, str_of_int (active_ttl s)]"
    let ?Q = "\<lambda>d. (\<forall>c. counter_ok R (?k c) d) \<and> (\<forall>c. c \<noteq> cid \<longrightarrow> counter R (?k c) d = counter R (?k c) (db w))
      \<and> (counter R (?k cid) d = ?v \<or> counter R (?k cid) d = counter R (?k cid) (db w))"
    have ttl: "0 < active_ttl s" using ok by (simp add: sm_ok_def)
    have start: "?Q (db w1)" using ok ran(1) by (simp add: sm_ok_def)
    have after_run: "counter R (?k cid) (snd (?run d)) = ?v" for d
      using commit_get [OF ttl, of "?k cid" "?k cid" n d] by (simp add: counter_def del: run_script.simps)
    have step: "?Q (snd (?run d))" if "?Q d" for d
      using that v commit_get [OF ttl, of _ "?k cid" n d] after_run [of d]
      by (auto simp: counter_ok_iff counter_def simp del: run_script.simps)
    have Q: "?Q (db w')" by (rule eval_reload_invariant [where Q = ?Q, OF ran(4) start step])
    have "counter R (?k cid) (db w') = ?v" if "\<not> is_error r"
    proof -
      from that obtain x where "r0 = Inr x" using ran(5) by (cases r0) auto
      then obtain d where "?run d = (Inr x, db w')"
        using eval_reload_reply [where Q = "\<lambda>_. True", of LUA_COMMIT "[?k cid]"] ran(4) by metis
      then show ?thesis using after_run [of d] by simp
    qed
    then show ?thesis
      using Q sm_okI [OF ok ran(2,3)] ran(2) by (auto simp: sm_expected_config sm_expected_def sm_config_def)
  qed
  then show "sm_ok R db sha (s', w')" and "c \<noteq> cid \<Longrightarrow> sm_expected R db c (s', w') = sm_expected R db c (s, w)"
    and "sm_expected R db cid (s', w') = ?v
      \<or> (is_error r \<and> sm_expected R db cid (s', w') = sm_expected R db cid (s, w))"
    by blast+
qed

lemma cleanup_frame:
  assumes ok: "sm_ok R db sha (s, w)" and run: "cleanup C cid (s, w) = (r, s', w')"
  shows "sm_ok R db sha (s', w') \<and> sm_expected R db c (s', w') = sm_expected R db c (s, w)"
  using ok run
proof (cases rule: cleanup_cases)
  case (failed e)
  with ok show ?thesis by (auto simp: sm_expected_config sm_ok_def sm_expected_def sm_config_def)
next
  case (ran w1 h r0)
  let ?Q = "\<lambda>d. \<forall>k. r_get R k d = r_get R k (db w)"
  have start: "?Q (db w1)" by (simp add: ran(1))
  have "0 < final_ttl s" using ok by (simp add: sm_ok_def)
  then have step: "?Q d \<Longrightarrow> ?Q (snd (run_script LUA_CLEANUP R [sm_key (key_prefix s) cid] [str_of_int (final_ttl s)] d))" for d
    by (simp add: cleanup_get del: run_script.simps)
  have "?Q (db w')"
    by (rule eval_reload_invariant [where Q = ?Q, OF ran(4) start step])
  then show ?thesis using ran(2,3) ok
    by (simp add: sm_expected_config sm_expected_def sm_config_def sm_ok_def counter_ok_def counter_def)
qed

text \<open>The class satisfies the contract.\<close>

lemma sequence_contract: "sequence_backend (redis_sequence C) (sm_ok R db sha) (sm_expected R db)"
proof
  fix s s' :: "seq_sm \<times> 'w" and c cid n
  assume ok: "sm_ok R db sha s"
  obtain o0 w0 where s: "s = (o0, w0)" by fastforce
  obtain o1 w1 where s': "s' = (o1, w1)" by fastforce
  note ok = ok [unfolded s]
  show "0 \<le> sm_expected R db c s"
    using ok by (auto simp: s sm_ok_def sm_expected_def intro: counter_nonneg)
  show "sm_prepare (redis_sequence C) cid n s = (r, s') \<Longrightarrow>
      sm_ok R db sha s' \<and> sm_expected R db c s' = sm_expected R db c s" for r
    using prepare_frame [OF ok, of cid n r o1 w1 c] by (simp add: redis_sequence_def s s')
  show "0 \<le> n \<Longrightarrow> sm_expected R db cid s < exact_limit \<Longrightarrow> sm_prepare (redis_sequence C) cid n s = (Inr x, s') \<Longrightarrow>
      x = \<lparr>status = sequence_status n (sm_expected R db cid s), expected_sequence = Some (sm_expected R db cid s)\<rparr>" for x
    using prepare_status [OF ok, of n cid x o1 w1] by (simp add: redis_sequence_def s s')
  show "0 \<le> n \<Longrightarrow> sm_commit (redis_sequence C) cid n s = (ru, s') \<Longrightarrow>
      sm_ok R db sha s' \<and> (c \<noteq> cid \<longrightarrow> sm_expected R db c s' = sm_expected R db c s)" for ru
    using commit_effect [OF ok, of n cid ru o1 w1] by (simp add: redis_sequence_def s s')
  show "0 \<le> n \<Longrightarrow> n < exact_limit \<Longrightarrow> sm_commit (redis_sequence C) cid n s = (ru, s') \<Longrightarrow>
      sm_expected R db cid s' = n + 1 \<or> (is_error ru \<and> sm_expected R db cid s' = sm_expected R db cid s)" for ru
    using commit_effect(3) [OF ok, of n cid ru o1 w1] double_commit [of n] by (simp add: redis_sequence_def s s')
  show "sm_cleanup (redis_sequence C) cid s = (ru, s') \<Longrightarrow>
      sm_ok R db sha s' \<and> sm_expected R db c s' = sm_expected R db c s" for ru
    using cleanup_frame [OF ok, of cid ru o1 w1 c] by (simp add: redis_sequence_def s s')
qed

text \<open>When Redis is up, an operation runs its script exactly once on the database it finds.\<close>

lemma ensure_up:
  assumes "shas_ok sha s" "client_set s" "up w"
  obtains s' w' where "sm_ensure_scripts_loaded C (s, w) = (Inr (), s', w')" "db w' = db w" "up w'" "client_set s'"
    "sm_config s' = sm_config s" "sha_prepare s' = Some (sha LUA_PREPARE)" "sha_commit s' = Some (sha LUA_COMMIT)"
    "sha_cleanup s' = Some (sha LUA_CLEANUP)"
proof -
  have e: "\<exists>w'. ensure_script C sc h v = (Inr (sha sc), w') \<and> db w' = db v \<and> up w'"
    if "h \<in> {None, Some (sha sc)}" "up v" for sc h v
    using that load_up [of v sc] load_db [of sc v] by (auto simp: ensure_script_def)
  obtain w1 where w1: "ensure_script C LUA_PREPARE (sha_prepare s) w = (Inr (sha LUA_PREPARE), w1)" "db w1 = db w" "up w1"
    using e assms by (metis shas_ok_def)
  obtain w2 where w2: "ensure_script C LUA_COMMIT (sha_commit s) w1 = (Inr (sha LUA_COMMIT), w2)" "db w2 = db w1" "up w2"
    using e assms w1 by (metis shas_ok_def)
  obtain w3 where w3: "ensure_script C LUA_CLEANUP (sha_cleanup s) w2 = (Inr (sha LUA_CLEANUP), w3)" "db w3 = db w2" "up w3"
    using e assms w2 by (metis shas_ok_def)
  show thesis
    using assms w1 w2 w3
    by (intro that [of "s\<lparr>sha_prepare := Some (sha LUA_PREPARE), sha_commit := Some (sha LUA_COMMIT),
        sha_cleanup := Some (sha LUA_CLEANUP)\<rparr>" w3])
      (simp_all add: get_client_def Let_def sm_config_def)
qed

lemma prepare_up:
  assumes "sm_ok R db sha (s, w)" "client_set s" "up w"
  obtains s' w' where "prepare C cid n (s, w) =
      (case fst (run_script LUA_PREPARE R [sm_key (key_prefix s) cid] [str_of_int n, str_of_int (active_ttl s)] (db w))
         of Inl e \<Rightarrow> Inl e | Inr raw \<Rightarrow> prepare_outcome raw, s', w')"
    "db w' = snd (run_script LUA_PREPARE R [sm_key (key_prefix s) cid] [str_of_int n, str_of_int (active_ttl s)] (db w))"
    "up w'" "client_set s'" "sm_config s' = sm_config s"
proof -
  have "shas_ok sha s" using assms by (simp add: sm_ok_def)
  then obtain s1 w1 where e: "sm_ensure_scripts_loaded C (s, w) = (Inr (), s1, w1)" "db w1 = db w" "up w1" "client_set s1"
    "sm_config s1 = sm_config s" "sha_prepare s1 = Some (sha LUA_PREPARE)"
    using assms by (elim ensure_up) auto
  obtain w' where w': "eval_reload C LUA_PREPARE (sha LUA_PREPARE) [sm_key (key_prefix s) cid] [str_of_int n, str_of_int (active_ttl s)] w1 =
      (fst (run_script LUA_PREPARE R [sm_key (key_prefix s) cid] [str_of_int n, str_of_int (active_ttl s)] (db w)), sha LUA_PREPARE, w')" "db w' = snd (run_script LUA_PREPARE R [sm_key (key_prefix s) cid] [str_of_int n, str_of_int (active_ttl s)] (db w))" "up w'"
    using eval_reload_up [OF e(3), of LUA_PREPARE "[sm_key (key_prefix s) cid]" "[str_of_int n, str_of_int (active_ttl s)]"] e(2) by auto
  show thesis
    using e w'
    by (intro that [of "s1\<lparr>sha_prepare := Some (sha LUA_PREPARE)\<rparr>" w'])
      (simp_all add: prepare.simps sm_config_def del: run_script.simps)
qed

lemma commit_up:
  assumes "sm_ok R db sha (s, w)" "client_set s" "up w"
  obtains s' w' where "commit C cid n (s, w) = (Inr (), s', w')"
    "db w' = snd (run_script LUA_COMMIT R [sm_key (key_prefix s) cid] [str_of_int n, str_of_int (active_ttl s)] (db w))"
    "up w'" "client_set s'" "sm_config s' = sm_config s"
proof -
  have "shas_ok sha s" using assms by (simp add: sm_ok_def)
  then obtain s1 w1 where e: "sm_ensure_scripts_loaded C (s, w) = (Inr (), s1, w1)" "db w1 = db w" "up w1" "client_set s1"
    "sm_config s1 = sm_config s" "sha_commit s1 = Some (sha LUA_COMMIT)"
    using assms by (elim ensure_up) auto
  have ttl: "0 < active_ttl s" using assms by (simp add: sm_ok_def)
  obtain w' where w': "eval_reload C LUA_COMMIT (sha LUA_COMMIT) [sm_key (key_prefix s) cid] [str_of_int n, str_of_int (active_ttl s)] w1 =
      (fst (run_script LUA_COMMIT R [sm_key (key_prefix s) cid] [str_of_int n, str_of_int (active_ttl s)] (db w)), sha LUA_COMMIT, w')" "db w' = snd (run_script LUA_COMMIT R [sm_key (key_prefix s) cid] [str_of_int n, str_of_int (active_ttl s)] (db w))" "up w'"
    using eval_reload_up [OF e(3), of LUA_COMMIT "[sm_key (key_prefix s) cid]" "[str_of_int n, str_of_int (active_ttl s)]"] e(2) by auto
  show thesis
    using e w' ttl
    by (intro that [of "s1\<lparr>sha_commit := Some (sha LUA_COMMIT)\<rparr>" w'])
      (simp_all add: commit.simps sm_config_def commit_reply del: run_script.simps)
qed

lemma cleanup_up:
  assumes "sm_ok R db sha (s, w)" "client_set s" "up w"
  obtains s' w' where "cleanup C cid (s, w) = (Inr (), s', w')"
    "db w' = snd (run_script LUA_CLEANUP R [sm_key (key_prefix s) cid] [str_of_int (final_ttl s)] (db w))"
    "up w'" "client_set s'" "sm_config s' = sm_config s"
proof -
  have "shas_ok sha s" using assms by (simp add: sm_ok_def)
  then obtain s1 w1 where e: "sm_ensure_scripts_loaded C (s, w) = (Inr (), s1, w1)" "db w1 = db w" "up w1" "client_set s1"
    "sm_config s1 = sm_config s" "sha_cleanup s1 = Some (sha LUA_CLEANUP)"
    using assms by (elim ensure_up) auto
  have ttl: "0 < final_ttl s" using assms by (simp add: sm_ok_def)
  obtain w' where w': "eval_reload C LUA_CLEANUP (sha LUA_CLEANUP) [sm_key (key_prefix s) cid] [str_of_int (final_ttl s)] w1 =
      (fst (run_script LUA_CLEANUP R [sm_key (key_prefix s) cid] [str_of_int (final_ttl s)] (db w)), sha LUA_CLEANUP, w')" "db w' = snd (run_script LUA_CLEANUP R [sm_key (key_prefix s) cid] [str_of_int (final_ttl s)] (db w))" "up w'"
    using eval_reload_up [OF e(3), of LUA_CLEANUP "[sm_key (key_prefix s) cid]" "[str_of_int (final_ttl s)]"] e(2) by auto
  show thesis
    using e w' ttl
    by (intro that [of "s1\<lparr>sha_cleanup := Some (sha LUA_CLEANUP)\<rparr>" w'])
      (simp_all add: cleanup.simps sm_config_def cleanup_reply del: run_script.simps)
qed

text \<open>While Redis answers, \<open>prepare\<close> compares the number with the counter.\<close>

lemma prepare_answers:
  assumes st: "sm_ok R db sha (s, w)" "client_set s" "up w"
    and n: "0 \<le> n" and small: "sm_expected R db cid (s, w) < exact_limit"
  shows "\<exists>s' w'. prepare C cid n (s, w) = (Inr \<lparr>status = sequence_status n (sm_expected R db cid (s, w)),
      expected_sequence = Some (sm_expected R db cid (s, w))\<rparr>, s', w')
    \<and> sm_ok R db sha (s', w') \<and> client_set s' \<and> up w' \<and> (\<forall>c. sm_expected R db c (s', w') = sm_expected R db c (s, w))"
proof -
  obtain s' w' where p: "prepare C cid n (s, w) = (case fst (run_script LUA_PREPARE R [sm_key (key_prefix s) cid]
      [str_of_int n, str_of_int (active_ttl s)] (db w)) of Inl e \<Rightarrow> Inl e | Inr raw \<Rightarrow> prepare_outcome raw, s', w')"
    "up w'" "client_set s'"
    using prepare_up [OF st] by metis
  have "fst (run_script LUA_PREPARE R [sm_key (key_prefix s) cid] [str_of_int n, str_of_int (active_ttl s)] (db w))
      = Inr (RList [RStr (prepare_result_value (sequence_status n (sm_expected R db cid (s, w)))),
          RInt (sm_expected R db cid (s, w))])"
    using st small n by (subst prepare_reply) (auto simp: sm_ok_def sm_expected_def)
  with p have run: "prepare C cid n (s, w) = (Inr \<lparr>status = sequence_status n (sm_expected R db cid (s, w)),
    expected_sequence = Some (sm_expected R db cid (s, w))\<rparr>, s', w')"
    by (simp only: sum.case prepare_outcome_of)
  then show ?thesis
    using prepare_frame [OF st(1) run] p by blast
qed

end

sublocale redis_backend \<subseteq> seq: sequence_backend "redis_sequence C" "sm_ok R db sha" "sm_expected R db"
  by (rule sequence_contract)

interpretation server_seq: sequence_backend "redis_sequence server_client"
  "sm_ok clock_redis_ops rs_db script_sha" "sm_expected clock_redis_ops rs_db"
  by (rule server.sequence_contract)

section \<open>Properties\<close>

text \<open>A state machine with default settings, on an empty Redis with a schedule of faults.\<close>

definition sample_sm :: seq_sm where
  "sample_sm = \<lparr>redis_url = Some ''redis://localhost:6379/0'', redis_username = None, redis_password = None,
     ssl_check_hostname = False, max_connections = 100, client_set = True, client_injected = True,
     active_ttl = 3600, final_ttl = 120, key_prefix = ''seq'', sha_prepare = None, sha_commit = None,
     sha_cleanup = None\<rparr>"

lemma sample_sm_ok: "sm_ok clock_redis_ops rs_db script_sha (sample_sm, empty_redis fs)"
  by (simp add: sm_ok_def sample_sm_def shas_ok_def counter_ok_def server_simps)

lemma sample_sm_expected: "sm_expected clock_redis_ops rs_db c (sample_sm, empty_redis fs) = 0"
  by (simp add: sm_expected_def counter_def server_simps)

lemma sample_sm_simps [simp]:
  "client_set sample_sm" "final_ttl sample_sm = 120" "active_ttl sample_sm = 3600" "key_prefix sample_sm = ''seq''"
  "rs_faults (empty_redis fs) = fs"
  by (simp_all add: sample_sm_def empty_redis_def)

text \<open>A Redis that holds the counter \<open>n\<close> of conversation \<open>c1\<close>.\<close>

definition redis_at :: "int \<Rightarrow> redis_server" where
  "redis_at n = (empty_redis [])\<lparr>rs_db := \<lparr>cr_clock = 0, cr_store = [sm_key ''seq'' ''c1'' \<mapsto> (str_of_int n, 3600)]\<rparr>\<rparr>"

lemma redis_at_faults [simp]: "rs_faults (redis_at n) = []"
  by (simp add: redis_at_def)

lemma redis_at_ok: "0 \<le> n \<Longrightarrow> sm_ok clock_redis_ops rs_db script_sha (sample_sm, redis_at n)"
  by (auto simp: sm_ok_def shas_ok_def counter_ok_iff redis_at_def server_simps) (simp_all add: sample_sm_def)

lemma redis_at_expected: "sm_expected clock_redis_ops rs_db ''c1'' (sample_sm, redis_at n) = n"
  by (simp add: sm_expected_def counter_def redis_at_def server_simps)

text \<open>
  C13. \<open>RedisSequenceStateMachine\<close> meets the contract of its protocol class under every failure of
  Redis the client can see: requests that are refused, replies that are lost after the script ran,
  requests that the client repeats, and scripts that the server has forgotten.
\<close>

theorem sequence_refines_contract:
  assumes "redis_backend R C db sha up loaded"
  shows "sequence_backend (redis_sequence C) (sm_ok R db sha) (sm_expected R db)"
  using assms by (rule redis_backend.sequence_contract)

theorem sequence_refines_contract_witness:
  "sequence_backend (redis_sequence server_client) (sm_ok clock_redis_ops rs_db script_sha)
     (sm_expected clock_redis_ops rs_db)"
  by (rule sequence_refines_contract [OF server.redis_backend_axioms])

text \<open>
  While Redis answers, \<open>prepare\<close> classifies a sequence number by comparing it with the counter
  of its conversation; \<open>commit\<close> then makes the next number the expected one, so that the same number
  is from then on a replay. It does not matter whether the server still has the scripts.
\<close>

theorem prepare_then_commit:
  assumes redis: "redis_backend R C db sha up loaded"
    and state: "sm_ok R db sha (s, w)" "client_set s" "up w"
    and n: "0 \<le> n" "n + 1 < exact_limit" and e: "sm_expected R db cid (s, w) < exact_limit"
  shows "\<exists>s1 w1 s2 w2 s3 w3.
      prepare C cid n (s, w) = (Inr \<lparr>status = sequence_status n (sm_expected R db cid (s, w)),
        expected_sequence = Some (sm_expected R db cid (s, w))\<rparr>, s1, w1)
    \<and> commit C cid n (s1, w1) = (Inr (), s2, w2) \<and> sm_expected R db cid (s2, w2) = n + 1
    \<and> prepare C cid n (s2, w2) = (Inr \<lparr>status = IDEMPOTENT, expected_sequence = Some (n + 1)\<rparr>, s3, w3)"
proof -
  note answer = redis_backend.prepare_answers [OF redis _ _ _ n(1)]
  obtain s1 w1 where p1: "prepare C cid n (s, w) = (Inr \<lparr>status = sequence_status n (sm_expected R db cid (s, w)),
      expected_sequence = Some (sm_expected R db cid (s, w))\<rparr>, s1, w1)"
    and o1: "sm_ok R db sha (s1, w1)" "client_set s1" "up w1"
    using answer [OF state e] by blast
  obtain s2 w2 where p2: "commit C cid n (s1, w1) = (Inr (), s2, w2)" and o2: "client_set s2" "up w2"
    using redis_backend.commit_up [OF redis o1] by metis
  have o2': "sm_ok R db sha (s2, w2)" and e2: "sm_expected R db cid (s2, w2) = n + 1"
    using redis_backend.commit_effect [OF redis o1(1) n(1) p2] n double_commit [of n] by auto
  then obtain s3 w3 where "prepare C cid n (s2, w2) = (Inr \<lparr>status = IDEMPOTENT, expected_sequence = Some (n + 1)\<rparr>, s3, w3)"
    using answer [OF o2' o2, of cid] n unfolding e2 by (auto simp: sequence_status_def)
  with p1 p2 e2 show ?thesis by blast
qed

theorem prepare_then_commit_witness:
  "\<exists>s1 w1 s2 w2 s3 w3.
      prepare server_client ''c1'' 0 (sample_sm, empty_redis []) =
        (Inr \<lparr>status = PRE_CHECK_OK, expected_sequence = Some 0\<rparr>, s1, w1)
    \<and> commit server_client ''c1'' 0 (s1, w1) = (Inr (), s2, w2)
    \<and> sm_expected clock_redis_ops rs_db ''c1'' (s2, w2) = 1
    \<and> prepare server_client ''c1'' 0 (s2, w2) = (Inr \<lparr>status = IDEMPOTENT, expected_sequence = Some 1\<rparr>, s3, w3)"
  using prepare_then_commit [OF server.redis_backend_axioms sample_sm_ok, of "[]" 0 "''c1''"]
  by (simp add: sample_sm_expected sequence_status_def exact_limit_def)

text \<open>
  \<open>cleanup\<close> keeps the counter of the completed conversation for \<open>final_ttl\<close> seconds, in which
  replays are still recognised, and not longer: then the conversation starts again at 0.
\<close>

theorem cleanup_expires_counter:
  assumes redis: "redis_backend R C db sha up loaded"
    and state: "sm_ok R db sha (s, w)" "client_set s" "up w" and ttl: "final_ttl s < exact_limit"
  shows "\<exists>s' w'. cleanup C cid (s, w) = (Inr (), s', w')
    \<and> (\<forall>t. counter R (sm_key (key_prefix s) cid) (r_elapse R t (db w')) =
        (if t < nat (final_ttl s) then sm_expected R db cid (s, w) else 0))"
proof -
  have R: "redis_database R" using redis by (rule redis_backend.axioms(1))
  let ?k = "sm_key (key_prefix s) cid"
  obtain s' w' where run: "cleanup C cid (s, w) = (Inr (), s', w')"
    "db w' = snd (run_script LUA_CLEANUP R [?k] [str_of_int (final_ttl s)] (db w))"
    using redis_backend.cleanup_up [OF redis state] by metis
  have pos: "0 < final_ttl s" using state by (simp add: sm_ok_def)
  have "r_get R ?k (r_elapse R t (db w')) =
      (if t < nat (final_ttl s) then r_get R ?k (db w) else None)" for t
    using run(2) redis_database.cleanup_get [OF R pos, of ?k ?k "db w"]
      redis_database.cleanup_ttl [OF R pos ttl, of ?k ?k "db w"]
    by (auto simp: redis_database.get_elapse [OF R] split: option.splits)
  then show ?thesis
    using run(1) by (intro exI conjI) (auto simp: counter_def sm_expected_def)
qed

theorem cleanup_expires_counter_witness:
  "\<exists>s' w'. cleanup server_client ''c1'' (sample_sm, redis_at 5) = (Inr (), s', w')
    \<and> (\<forall>t. counter clock_redis_ops (sm_key ''seq'' ''c1'') (r_elapse clock_redis_ops t (rs_db w')) =
        (if t < 120 then 5 else 0))"
  using cleanup_expires_counter [OF server.redis_backend_axioms redis_at_ok, of 5 "''c1''"]
  by (simp add: redis_at_expected exact_limit_def cong: if_cong)

text \<open>
  C38. The bound of the scripts' arithmetic: at \<open>2 ^ 53\<close> the counter no longer moves. Two different
  sequence numbers are then both the expected one, and committing either leaves the counter.
\<close>

theorem sequence_counter_saturates:
  assumes "redis_database R" and "r_get R key d = Some (str_of_int exact_limit)" and "0 < ttl"
  shows "fst (lua_prepare R [key] [str_of_int exact_limit, str_of_int ttl] d)
      = Inr (RList [RStr ''PRE_CHECK_OK'', RInt exact_limit])
    \<and> fst (lua_prepare R [key] [str_of_int (exact_limit + 1), str_of_int ttl] d)
      = Inr (RList [RStr ''PRE_CHECK_OK'', RInt exact_limit])
    \<and> r_get R key (snd (lua_commit R [key] [str_of_int exact_limit, str_of_int ttl] d))
      = Some (str_of_int exact_limit)"
proof -
  have d: "double_of_int exact_limit = exact_limit" "double_of_int (exact_limit + 1) = exact_limit"
    using double_limit double_first_gap by (simp_all only: exact_limit_def)
  have "r_get R key (snd (run_script LUA_COMMIT R [key] [str_of_int exact_limit, str_of_int ttl] d)) =
      Some (str_of_int exact_limit)"
    using redis_database.commit_get [OF assms(1,3), of key key exact_limit d] by (simp only: d if_True simp_thms)
  moreover have "double_of_int ttl > 0" using double_nonneg(2) [of ttl] assms(3) by simp
  ultimately show ?thesis
    using assms by (simp add: lua_prepare_def d after_call_def call_expire_def)
qed

theorem sequence_counter_saturates_witness:
  "fst (lua_prepare clock_redis_ops [''k''] [str_of_int (exact_limit + 1), str_of_int 60]
      \<lparr>cr_clock = 0, cr_store = [''k'' \<mapsto> (str_of_int exact_limit, 100)]\<rparr>)
    = Inr (RList [RStr ''PRE_CHECK_OK'', RInt exact_limit])"
  using sequence_counter_saturates [OF clock_redis_laws, of "''k''" "\<lparr>cr_clock = 0,
      cr_store = [''k'' \<mapsto> (str_of_int exact_limit, 100)]\<rparr>" 60]
  by (simp add: clock_redis_ops_def cr_live_def)

end
