(* ===== verification/Request.thy ===== *)
theory Request
  imports Errors
begin

text \<open>
  The inbound message and its validation: \<open>schemas/request.py\<close>, and the classification of a
  validation error, \<open>TwoPhaseOrchestrator._classify_validation_error\<close>.

  pydantic is not part of the repository. What it does to the value of one field (its coercions
  and its length and range checks) is the record \<open>pydantic\<close>, a parameter: one function per field type
  the models declare, which returns an error or the parsed value. The declared structure is
  translated: which fields a model has, in which order, which are required, which are optional
  with default \<open>None\<close>, that extra keys are forbidden, the validators that run on a parsed field
  and the business rules that run on the whole message. The names of pydantic's error types
  (\<open>missing\<close>, \<open>extra_forbidden\<close>, \<open>model_type\<close>, \<open>value_error\<close>) are the documented ones.
\<close>

section \<open>Data\<close>

text \<open>A datetime: its wall-clock time in microseconds and its UTC offset, absent if naive.\<close>

record py_datetime =
  wall_us :: int
  utcoffset :: "int option"

record MetaData =
  conversationId :: string
  callStartTimeStamp :: py_datetime
  callEndTimeStamp :: "py_datetime option"
  eventType :: EventType

record Payload =
  sequenceNumber :: int
  speaker :: Speaker
  transcript :: string
  engineProvider :: string
  dialect :: string
  isFinal :: bool
  speakTimeStamp :: "py_datetime option"
  transcriptGenerateTimeStamp :: "py_datetime option"
  model_fields_set :: "string list"

record InboundMessage =
  metaData :: MetaData
  payload :: Payload

text \<open>One entry of \<open>ValidationError.errors()\<close>: its type and its message.\<close>

record verr =
  err_type :: string
  err_msg :: string

abbreviation mk_verr :: "string \<Rightarrow> string \<Rightarrow> verr" where
  "mk_verr t m \<equiv> \<lparr>err_type = t, err_msg = m\<rparr>"

text \<open>
  pydantic's fields: \<open>str\<close> with a \<open>max_length\<close>, \<open>datetime\<close>, \<open>int\<close> with \<open>ge\<close>, \<open>bool\<close> and the two enumerations;
  how it renders a \<open>ValidationError\<close> as text and a datetime as JSON.
\<close>

record pydantic =
  pyd_str :: "nat \<Rightarrow> json \<Rightarrow> verr + string"
  pyd_datetime :: "json \<Rightarrow> verr + py_datetime"
  pyd_int_ge :: "int \<Rightarrow> json \<Rightarrow> verr + int"
  pyd_bool :: "json \<Rightarrow> verr + bool"
  pyd_event_type :: "json \<Rightarrow> verr + EventType"
  pyd_speaker :: "json \<Rightarrow> verr + Speaker"
  pyd_error_str :: "verr list \<Rightarrow> string"
  pyd_dump_datetime :: "py_datetime \<Rightarrow> string"

section \<open>Validation\<close>

definition required_field :: "(json \<Rightarrow> verr + 'a) \<Rightarrow> string \<Rightarrow> dict \<Rightarrow> verr + 'a" where
  "required_field f k d =
     (case map_of d k of None \<Rightarrow> Inl (mk_verr ''missing'' ''Field required'') | Some j \<Rightarrow> f j)"

text \<open>\<open>Optional[T] = None\<close>: absent and null give \<open>None\<close>.\<close>

definition optional_field :: "(json \<Rightarrow> verr + 'a) \<Rightarrow> string \<Rightarrow> dict \<Rightarrow> verr + 'a option" where
  "optional_field f k d =
     (case map_of d k of None \<Rightarrow> Inr None | Some JNull \<Rightarrow> Inr None | Some j \<Rightarrow> map_sum id Some (f j))"

definition extra_errors :: "string list \<Rightarrow> dict \<Rightarrow> verr list" where
  "extra_errors names d =
     map (\<lambda>_. mk_verr ''extra_forbidden'' ''Extra inputs are not permitted'')
       (filter (\<lambda>kv. fst kv \<notin> set names) d)"

fun errs :: "verr + 'a \<Rightarrow> verr list" where
  "errs (Inl e) = [e]"
| "errs (Inr _) = []"

definition not_a_model :: "verr list" where
  "not_a_model = [mk_verr ''model_type'' ''Input should be a valid dictionary'']"

text \<open>\<open>_ensure_utc_timestamp\<close>, the validator of every timestamp field.\<close>

definition ensure_utc_timestamp :: "py_datetime option \<Rightarrow> verr + py_datetime option" where
  "ensure_utc_timestamp v =
     (case v of
        None \<Rightarrow> Inr None
      | Some t \<Rightarrow> if utcoffset t \<noteq> Some 0
          then Inl (mk_verr ''datetime_not_utc'' ''Input should be an ISO-8601 UTC timestamp'')
          else Inr (Some t))"

definition bind_verr :: "verr + 'a \<Rightarrow> ('a \<Rightarrow> verr + 'b) \<Rightarrow> verr + 'b" where
  "bind_verr m f = (case m of Inl e \<Rightarrow> Inl e | Inr x \<Rightarrow> f x)"

definition required_utc :: "pydantic \<Rightarrow> string \<Rightarrow> dict \<Rightarrow> verr + py_datetime" where
  "required_utc P k d =
     bind_verr (required_field (pyd_datetime P) k d)
       (\<lambda>t. bind_verr (ensure_utc_timestamp (Some t)) (\<lambda>u. Inr (the u)))"

definition optional_utc :: "pydantic \<Rightarrow> string \<Rightarrow> dict \<Rightarrow> verr + py_datetime option" where
  "optional_utc P k d = bind_verr (optional_field (pyd_datetime P) k d) ensure_utc_timestamp"

definition metadata_fields :: "string list" where
  "metadata_fields = [''conversationId'', ''callStartTimeStamp'', ''callEndTimeStamp'', ''eventType'']"

definition validate_MetaData :: "pydantic \<Rightarrow> json \<Rightarrow> verr list + MetaData" where
  "validate_MetaData P j = (case j of
     JObj d \<Rightarrow>
       (let cid = required_field (pyd_str P 64) ''conversationId'' d;
            start = required_utc P ''callStartTimeStamp'' d;
            finish = optional_utc P ''callEndTimeStamp'' d;
            evt = required_field (pyd_event_type P) ''eventType'' d;
            es = errs cid @ errs start @ errs finish @ errs evt @ extra_errors metadata_fields d
        in (case (cid, start, finish, evt, es) of
              (Inr c, Inr s, Inr f, Inr e, []) \<Rightarrow>
                Inr \<lparr>conversationId = c, callStartTimeStamp = s, callEndTimeStamp = f, eventType = e\<rparr>
            | _ \<Rightarrow> Inl es))
   | _ \<Rightarrow> Inl not_a_model)"

definition payload_fields :: "string list" where
  "payload_fields = [''sequenceNumber'', ''speaker'', ''transcript'', ''engineProvider'', ''dialect'',
     ''isFinal'', ''speakTimeStamp'', ''transcriptGenerateTimeStamp'']"

definition validate_Payload :: "pydantic \<Rightarrow> json \<Rightarrow> verr list + Payload" where
  "validate_Payload P j = (case j of
     JObj d \<Rightarrow>
       (let sn = required_field (pyd_int_ge P 0) ''sequenceNumber'' d;
            sp = required_field (pyd_speaker P) ''speaker'' d;
            tr = required_field (pyd_str P 8000) ''transcript'' d;
            ep = required_field (pyd_str P 64) ''engineProvider'' d;
            di = required_field (pyd_str P 32) ''dialect'' d;
            fi = required_field (pyd_bool P) ''isFinal'' d;
            st = optional_utc P ''speakTimeStamp'' d;
            tg = optional_utc P ''transcriptGenerateTimeStamp'' d;
            es = errs sn @ errs sp @ errs tr @ errs ep @ errs di @ errs fi @ errs st @ errs tg
              @ extra_errors payload_fields d
        in (case (sn, sp, tr, ep, di, fi, st, tg, es) of
              (Inr n, Inr s, Inr t, Inr e, Inr l, Inr f, Inr u, Inr g, []) \<Rightarrow>
                Inr \<lparr>sequenceNumber = n, speaker = s, transcript = t, engineProvider = e, dialect = l,
                     isFinal = f, speakTimeStamp = u, transcriptGenerateTimeStamp = g,
                     model_fields_set = map fst (filter (\<lambda>kv. fst kv \<in> set payload_fields) d)\<rparr>
            | _ \<Rightarrow> Inl es))
   | _ \<Rightarrow> Inl not_a_model)"

text \<open>\<open>_check_business_rules\<close>, in the order of the source; the result is the \<open>ValueError\<close>'s text.\<close>

definition check_business_rules :: "InboundMessage \<Rightarrow> string + unit" where
  "check_business_rules m =
     (let evt = eventType (metaData m); sp = speaker (payload m); p = payload m in
      if evt = SESSION_ONGOING \<and> callEndTimeStamp (metaData m) \<noteq> None
        then Inl ''callEndTimeStamp must be null when eventType=SESSION_ONGOING''
      else if evt = SESSION_ONGOING \<and> sp \<notin> {AGENT, CUSTOMER}
        then Inl ''speaker must be Agent or Customer when eventType=SESSION_ONGOING''
      else if evt = SESSION_ONGOING \<and> speakTimeStamp p = None
        then Inl ''speakTimeStamp must be provided when eventType=SESSION_ONGOING''
      else if evt = SESSION_ONGOING \<and> transcriptGenerateTimeStamp p = None
        then Inl ''transcriptGenerateTimeStamp must be provided when eventType=SESSION_ONGOING''
      else if evt = SESSION_COMPLETE \<and> callEndTimeStamp (metaData m) = None
        then Inl ''callEndTimeStamp must be provided when eventType=SESSION_COMPLETE''
      else if evt = SESSION_COMPLETE \<and> sp \<noteq> SYSTEM
        then Inl ''speaker must be System when eventType=SESSION_COMPLETE''
      else if evt = SESSION_COMPLETE \<and> ''speakTimeStamp'' \<in> set (model_fields_set p)
        then Inl ''speakTimeStamp must be omitted when eventType=SESSION_COMPLETE''
      else if evt = SESSION_COMPLETE \<and> ''transcriptGenerateTimeStamp'' \<in> set (model_fields_set p)
        then Inl ''transcriptGenerateTimeStamp must be omitted when eventType=SESSION_COMPLETE''
      else if \<not> isFinal p then Inl ''isFinal must be true''
      else Inr ())"

definition message_fields :: "string list" where
  "message_fields = [''metaData'', ''payload'']"

definition required_model :: "(json \<Rightarrow> verr list + 'a) \<Rightarrow> string \<Rightarrow> dict \<Rightarrow> verr list + 'a" where
  "required_model f k d =
     (case map_of d k of None \<Rightarrow> Inl [mk_verr ''missing'' ''Field required''] | Some j \<Rightarrow> f j)"

fun model_errs :: "verr list + 'a \<Rightarrow> verr list" where
  "model_errs (Inl es) = es"
| "model_errs (Inr _) = []"

definition model_validate :: "pydantic \<Rightarrow> json \<Rightarrow> verr list + InboundMessage" where
  "model_validate P j = (case j of
     JObj d \<Rightarrow>
       (let md = required_model (validate_MetaData P) ''metaData'' d;
            pl = required_model (validate_Payload P) ''payload'' d;
            es = model_errs md @ model_errs pl @ extra_errors message_fields d
        in (case (md, pl, es) of
              (Inr m, Inr p, []) \<Rightarrow>
                (let msg = \<lparr>metaData = m, payload = p\<rparr> in
                 case check_business_rules msg of
                   Inl t \<Rightarrow> Inl [mk_verr ''value_error'' t]
                 | Inr _ \<Rightarrow> Inr msg)
            | _ \<Rightarrow> Inl es))
   | _ \<Rightarrow> Inl not_a_model)"

section \<open>Classification of validation errors\<close>

fun classify_error_type :: "string \<Rightarrow> ProtocolErrorScenario option" where
  "classify_error_type t =
     (if str_in ''datetime'' t \<or> str_in ''time'' t \<or> str_in ''iso'' t then Some INVALID_TIMESTAMP_FORMAT
      else if str_in ''json'' t then Some INVALID_JSON
      else if str_in ''missing'' t then Some MISSING_REQUIRED_FIELD
      else if str_in ''enum'' t \<or> str_in ''literal'' t then Some INVALID_ENUM_VALUE
      else if t = ''extra_forbidden'' then Some INVALID_FIELD_TYPE
      else if str_in ''type'' t \<or> str_in ''int'' t \<or> str_in ''bool'' t then Some INVALID_FIELD_TYPE
      else if t = ''value_error'' then Some BUSINESS_RULE_VIOLATION
      else None)"

declare classify_error_type.simps [simp del]

fun classify_validation_error :: "verr list \<Rightarrow> ProtocolErrorScenario" where
  "classify_validation_error [] = MISSING_REQUIRED_FIELD"
| "classify_validation_error (e # es) =
     (case classify_error_type (err_type e) of Some s \<Rightarrow> s | None \<Rightarrow> classify_validation_error es)"

section \<open>The contract on an accepted message\<close>

text \<open>The business rules of the API contract, as one condition on the message.\<close>

definition contract_rules :: "InboundMessage \<Rightarrow> bool" where
  "contract_rules m \<longleftrightarrow> isFinal (payload m) \<and>
     (case eventType (metaData m) of
        SESSION_ONGOING \<Rightarrow>
          callEndTimeStamp (metaData m) = None \<and> speaker (payload m) \<noteq> SYSTEM
          \<and> speakTimeStamp (payload m) \<noteq> None \<and> transcriptGenerateTimeStamp (payload m) \<noteq> None
      | SESSION_COMPLETE \<Rightarrow>
          callEndTimeStamp (metaData m) \<noteq> None \<and> speaker (payload m) = SYSTEM
          \<and> ''speakTimeStamp'' \<notin> set (model_fields_set (payload m))
          \<and> ''transcriptGenerateTimeStamp'' \<notin> set (model_fields_set (payload m)))"

lemma check_business_rules_iff: "check_business_rules m = Inr u \<longleftrightarrow> contract_rules m"
  by (cases "eventType (metaData m)"; cases "speaker (payload m)")
    (auto simp: check_business_rules_def contract_rules_def Let_def)

definition utc_opt :: "py_datetime option \<Rightarrow> bool" where
  "utc_opt v = (case v of None \<Rightarrow> True | Some t \<Rightarrow> utcoffset t = Some 0)"

definition all_utc :: "InboundMessage \<Rightarrow> bool" where
  "all_utc m \<longleftrightarrow> utcoffset (callStartTimeStamp (metaData m)) = Some 0
     \<and> utc_opt (callEndTimeStamp (metaData m)) \<and> utc_opt (speakTimeStamp (payload m))
     \<and> utc_opt (transcriptGenerateTimeStamp (payload m))"

lemma required_utc_Inr: "required_utc P k d = Inr t \<Longrightarrow> utcoffset t = Some 0"
  by (auto simp: required_utc_def bind_verr_def ensure_utc_timestamp_def split: sum.splits if_splits)

lemma optional_utc_Inr: "optional_utc P k d = Inr v \<Longrightarrow> utc_opt v"
  by (auto simp: optional_utc_def bind_verr_def ensure_utc_timestamp_def utc_opt_def
      split: sum.splits option.splits if_splits)

lemma required_field_Inr: "required_field f k d = Inr x \<longleftrightarrow> (\<exists>j. map_of d k = Some j \<and> f j = Inr x)"
  by (auto simp: required_field_def split: option.splits)

lemma extra_errors_Nil: "extra_errors names d = [] \<longleftrightarrow> set (map fst d) \<subseteq> set names"
  by (auto simp: extra_errors_def filter_empty_conv)

text \<open>What a parsed \<open>metaData\<close> and a parsed \<open>payload\<close> are made of.\<close>

lemma validate_MetaData_Inr:
  assumes "validate_MetaData P j = Inr m"
  shows "\<exists>d v. j = JObj d \<and> map_of d ''conversationId'' = Some v \<and> pyd_str P 64 v = Inr (conversationId m)
     \<and> utcoffset (callStartTimeStamp m) = Some 0 \<and> utc_opt (callEndTimeStamp m)
     \<and> set (map fst d) \<subseteq> set metadata_fields"
proof -
  obtain d where j: "j = JObj d" using assms by (cases j) (auto simp: validate_MetaData_def)
  show ?thesis using assms
    by (auto simp: j validate_MetaData_def Let_def required_field_Inr extra_errors_Nil
        dest: required_utc_Inr optional_utc_Inr split: sum.splits list.splits)
qed

lemma validate_Payload_Inr:
  assumes "validate_Payload P j = Inr p"
  shows "\<exists>d v. j = JObj d \<and> map_of d ''sequenceNumber'' = Some v \<and> pyd_int_ge P 0 v = Inr (sequenceNumber p)
     \<and> utc_opt (speakTimeStamp p) \<and> utc_opt (transcriptGenerateTimeStamp p)
     \<and> set (map fst d) \<subseteq> set payload_fields"
proof -
  obtain d where j: "j = JObj d" using assms by (cases j) (auto simp: validate_Payload_def)
  show ?thesis using assms
    by (auto simp: j validate_Payload_def Let_def required_field_Inr extra_errors_Nil
        dest: optional_utc_Inr split: sum.splits list.splits)
qed

lemma required_model_Inr: "required_model f k d = Inr x \<longleftrightarrow> (\<exists>j. map_of d k = Some j \<and> f j = Inr x)"
  by (auto simp: required_model_def split: option.splits)

lemma model_validate_Inr:
  assumes "model_validate P j = Inr m"
  obtains d jm jp where "j = JObj d" and "map_of d ''metaData'' = Some jm" and "map_of d ''payload'' = Some jp"
    and "validate_MetaData P jm = Inr (metaData m)" and "validate_Payload P jp = Inr (payload m)"
    and "set (map fst d) \<subseteq> set message_fields" and "contract_rules m"
proof -
  obtain d where j: "j = JObj d" using assms by (cases j) (auto simp: model_validate_def)
  obtain md pl u where m: "required_model (validate_MetaData P) ''metaData'' d = Inr md"
    "required_model (validate_Payload P) ''payload'' d = Inr pl" "m = \<lparr>metaData = md, payload = pl\<rparr>"
    "extra_errors message_fields d = []" "check_business_rules \<lparr>metaData = md, payload = pl\<rparr> = Inr u"
    using assms by (auto simp: j model_validate_def Let_def split: sum.splits list.splits)
  show thesis using that m j
    by (auto simp: required_model_Inr extra_errors_Nil check_business_rules_iff)
qed

text \<open>The conversation an accepted message is for is the one its body names.\<close>

lemma model_validate_conversation:
  assumes "model_validate P j = Inr m"
  obtains d md v where "j = JObj d" and "map_of d ''metaData'' = Some (JObj md)"
    and "map_of md ''conversationId'' = Some v" and "pyd_str P 64 v = Inr (conversationId (metaData m))"
proof (rule model_validate_Inr [OF assms])
  fix d jm jp
  assume "j = JObj d" "map_of d ''metaData'' = Some jm" "validate_MetaData P jm = Inr (metaData m)"
  with that show thesis by (auto dest!: validate_MetaData_Inr)
qed

lemma model_validate_sequence:
  assumes "model_validate P j = Inr m"
  obtains v where "pyd_int_ge P 0 v = Inr (sequenceNumber (payload m))"
proof (rule model_validate_Inr [OF assms])
  fix jp
  assume "validate_Payload P jp = Inr (payload m)"
  with that show thesis by (auto dest!: validate_Payload_Inr)
qed

text \<open>
  What the service relies on of pydantic: a string field returns the string it was given, no longer
  than its bound; an integer field with a lower bound returns an integer within it.
\<close>

definition pydantic_ok :: "pydantic \<Rightarrow> bool" where
  "pydantic_ok P \<longleftrightarrow>
     (\<forall>n j s. pyd_str P n j = Inr s \<longrightarrow> j = JStr s \<and> length s \<le> n)
     \<and> (\<forall>b j i. pyd_int_ge P b j = Inr i \<longrightarrow> b \<le> i)"

lemma pydantic_str: "pydantic_ok P \<Longrightarrow> pyd_str P n j = Inr s \<Longrightarrow> j = JStr s \<and> length s \<le> n"
  by (simp add: pydantic_ok_def)

lemma pydantic_int: "pydantic_ok P \<Longrightarrow> pyd_int_ge P b j = Inr i \<Longrightarrow> b \<le> i"
  by (auto simp: pydantic_ok_def)

section \<open>Classification facts\<close>

lemmas str_search = str_in.simps startswith_def classify_error_type.simps

text \<open>pydantic's documented error types for the declared fields, and the code's own.\<close>

lemma classify_types [simp]:
  "classify_error_type ''missing'' = Some MISSING_REQUIRED_FIELD"
  "classify_error_type ''extra_forbidden'' = Some INVALID_FIELD_TYPE"
  "classify_error_type ''model_type'' = Some INVALID_FIELD_TYPE"
  "classify_error_type ''string_type'' = Some INVALID_FIELD_TYPE"
  "classify_error_type ''int_type'' = Some INVALID_FIELD_TYPE"
  "classify_error_type ''int_parsing'' = Some INVALID_FIELD_TYPE"
  "classify_error_type ''int_from_float'' = Some INVALID_FIELD_TYPE"
  "classify_error_type ''bool_type'' = Some INVALID_FIELD_TYPE"
  "classify_error_type ''bool_parsing'' = Some INVALID_FIELD_TYPE"
  "classify_error_type ''enum'' = Some INVALID_ENUM_VALUE"
  "classify_error_type ''datetime_type'' = Some INVALID_TIMESTAMP_FORMAT"
  "classify_error_type ''datetime_parsing'' = Some INVALID_TIMESTAMP_FORMAT"
  "classify_error_type ''datetime_from_date_parsing'' = Some INVALID_TIMESTAMP_FORMAT"
  "classify_error_type ''datetime_not_utc'' = Some INVALID_TIMESTAMP_FORMAT"
  "classify_error_type ''value_error'' = Some BUSINESS_RULE_VIOLATION"
  "classify_error_type ''string_too_long'' = None"
  "classify_error_type ''greater_than_equal'' = None"
  by (simp_all add: str_search)

lemma classify_skip:
  "list_all (\<lambda>e. classify_error_type (err_type e) = None) es \<Longrightarrow>
     classify_validation_error (es @ fs) = classify_validation_error fs"
  by (induction es) auto

text \<open>Every classification is a scenario of the established session, closed with 1007 or 1008.\<close>

lemma classify_error_type_range:
  "classify_error_type t = Some s \<Longrightarrow> s \<in> {INVALID_JSON, INVALID_ENUM_VALUE, MISSING_REQUIRED_FIELD,
     INVALID_FIELD_TYPE, INVALID_TIMESTAMP_FORMAT, BUSINESS_RULE_VIOLATION}"
  by (auto simp: classify_error_type.simps split: if_splits)

lemma classify_range:
  "classify_validation_error es \<in> {INVALID_JSON, INVALID_ENUM_VALUE, MISSING_REQUIRED_FIELD,
     INVALID_FIELD_TYPE, INVALID_TIMESTAMP_FORMAT, BUSINESS_RULE_VIOLATION}"
proof (induction es)
  case (Cons e es)
  then show ?case
    using classify_error_type_range by (auto split: option.splits)
qed simp

lemma classify_needs_no_arguments: "\<not> needs_arguments (classify_validation_error es)"
  using classify_range [of es] by (auto simp: needs_arguments_def)

lemma classify_close_code:
  "\<exists>c. require_ws_close_code (classify_validation_error es) = Inr c \<and> c \<in> {INVALID_PAYLOAD, POLICY_VIOLATION}"
  using classify_range [of es] by (auto simp: require_ws_close_code_def)

section \<open>A concrete pydantic\<close>

text \<open>
  An instance of the parameter, for witnesses: strict field types, and datetimes written as the
  decimal number of microseconds since the epoch, in UTC.
\<close>

definition strict_pydantic :: pydantic where
  "strict_pydantic = \<lparr>
     pyd_str = (\<lambda>n j. case j of
         JStr s \<Rightarrow> if length s \<le> n then Inr s else Inl (mk_verr ''string_too_long'' ''String too long'')
       | _ \<Rightarrow> Inl (mk_verr ''string_type'' ''Input should be a valid string'')),
     pyd_datetime = (\<lambda>j. case j of
         JStr s \<Rightarrow> (case int_of_str s of
             Some n \<Rightarrow> Inr \<lparr>wall_us = n, utcoffset = Some 0\<rparr>
           | None \<Rightarrow> Inl (mk_verr ''datetime_parsing'' ''Input should be a valid datetime''))
       | _ \<Rightarrow> Inl (mk_verr ''datetime_type'' ''Input should be a valid datetime'')),
     pyd_int_ge = (\<lambda>b j. case j of
         JInt i \<Rightarrow> if b \<le> i then Inr i else Inl (mk_verr ''greater_than_equal'' ''Input too small'')
       | _ \<Rightarrow> Inl (mk_verr ''int_type'' ''Input should be a valid integer'')),
     pyd_bool = (\<lambda>j. case j of JBool b \<Rightarrow> Inr b | _ \<Rightarrow> Inl (mk_verr ''bool_type'' ''Input should be a valid boolean'')),
     pyd_event_type = (\<lambda>j. if j = JStr ''SESSION_ONGOING'' then Inr SESSION_ONGOING
       else if j = JStr ''SESSION_COMPLETE'' then Inr SESSION_COMPLETE
       else Inl (mk_verr ''enum'' ''Input should be a member of the enumeration'')),
     pyd_speaker = (\<lambda>j. if j = JStr ''Agent'' then Inr AGENT else if j = JStr ''Customer'' then Inr CUSTOMER
       else if j = JStr ''System'' then Inr SYSTEM
       else Inl (mk_verr ''enum'' ''Input should be a member of the enumeration'')),
     pyd_error_str = (\<lambda>es. str_join ''; '' (map err_msg es)),
     pyd_dump_datetime = (\<lambda>t. str_of_int (wall_us t))\<rparr>"

lemma strict_pydantic_ok: "pydantic_ok strict_pydantic"
  by (auto simp: pydantic_ok_def strict_pydantic_def split: json.splits if_splits)

text \<open>Two inbound messages: a transcript and an end-of-session event.\<close>

definition sample_metadata :: "string \<Rightarrow> json" where
  "sample_metadata cid = JObj [(''conversationId'', JStr cid), (''callStartTimeStamp'', JStr ''1000''),
     (''callEndTimeStamp'', JNull), (''eventType'', JStr ''SESSION_ONGOING'')]"

definition sample_payload :: "int \<Rightarrow> json" where
  "sample_payload n = JObj [(''sequenceNumber'', JInt n), (''speaker'', JStr ''Agent''),
     (''transcript'', JStr ''hello''), (''engineProvider'', JStr ''FanoLabs''), (''dialect'', JStr ''yue''),
     (''isFinal'', JBool True), (''speakTimeStamp'', JStr ''2000''),
     (''transcriptGenerateTimeStamp'', JStr ''3000'')]"

definition sample_ongoing :: "string \<Rightarrow> int \<Rightarrow> json" where
  "sample_ongoing cid n = JObj [(''metaData'', sample_metadata cid), (''payload'', sample_payload n)]"

definition sample_complete :: "string \<Rightarrow> int \<Rightarrow> json" where
  "sample_complete cid n = JObj
     [(''metaData'', JObj [(''conversationId'', JStr cid), (''callStartTimeStamp'', JStr ''1000''),
        (''callEndTimeStamp'', JStr ''9000''), (''eventType'', JStr ''SESSION_COMPLETE'')]),
      (''payload'', JObj [(''sequenceNumber'', JInt n), (''speaker'', JStr ''System''),
        (''transcript'', JStr ''EOL''), (''engineProvider'', JStr ''FanoLabs''), (''dialect'', JStr ''yue''),
        (''isFinal'', JBool True)])]"

abbreviation utc :: "int \<Rightarrow> py_datetime" where
  "utc n \<equiv> \<lparr>wall_us = n, utcoffset = Some 0\<rparr>"

definition ongoing_message :: "string \<Rightarrow> int \<Rightarrow> InboundMessage" where
  "ongoing_message cid n =
     \<lparr>metaData = \<lparr>conversationId = cid, callStartTimeStamp = utc 1000, callEndTimeStamp = None,
        eventType = SESSION_ONGOING\<rparr>,
      payload = \<lparr>sequenceNumber = n, speaker = AGENT, transcript = ''hello'', engineProvider = ''FanoLabs'',
        dialect = ''yue'', isFinal = True, speakTimeStamp = Some (utc 2000),
        transcriptGenerateTimeStamp = Some (utc 3000), model_fields_set = payload_fields\<rparr>\<rparr>"

definition complete_message :: "string \<Rightarrow> int \<Rightarrow> InboundMessage" where
  "complete_message cid n =
     \<lparr>metaData = \<lparr>conversationId = cid, callStartTimeStamp = utc 1000, callEndTimeStamp = Some (utc 9000),
        eventType = SESSION_COMPLETE\<rparr>,
      payload = \<lparr>sequenceNumber = n, speaker = SYSTEM, transcript = ''EOL'', engineProvider = ''FanoLabs'',
        dialect = ''yue'', isFinal = True, speakTimeStamp = None,
        transcriptGenerateTimeStamp = None, model_fields_set = take 6 payload_fields\<rparr>\<rparr>"

lemma strict_datetimes:
  "pyd_datetime strict_pydantic (JStr ''1000'') = Inr (utc 1000)"
  "pyd_datetime strict_pydantic (JStr ''2000'') = Inr (utc 2000)"
  "pyd_datetime strict_pydantic (JStr ''3000'') = Inr (utc 3000)"
  "pyd_datetime strict_pydantic (JStr ''9000'') = Inr (utc 9000)"
  by (simp_all add: strict_pydantic_def nat_of_str_def is_digit_def digit_val_def)

lemmas validate_simps = model_validate_def validate_MetaData_def validate_Payload_def required_model_def
  required_field_def optional_field_def required_utc_def optional_utc_def bind_verr_def
  ensure_utc_timestamp_def extra_errors_def metadata_fields_def payload_fields_def message_fields_def Let_def

lemma strict_fields:
  "length s \<le> n \<Longrightarrow> pyd_str strict_pydantic n (JStr s) = Inr s"
  "b \<le> i \<Longrightarrow> pyd_int_ge strict_pydantic b (JInt i) = Inr i"
  "pyd_bool strict_pydantic (JBool b') = Inr b'"
  "pyd_event_type strict_pydantic (JStr ''SESSION_ONGOING'') = Inr SESSION_ONGOING"
  "pyd_event_type strict_pydantic (JStr ''SESSION_COMPLETE'') = Inr SESSION_COMPLETE"
  "pyd_speaker strict_pydantic (JStr ''Agent'') = Inr AGENT"
  "pyd_speaker strict_pydantic (JStr ''System'') = Inr SYSTEM"
  by (simp_all add: strict_pydantic_def)

lemma sample_ongoing_valid:
  "length cid \<le> 64 \<Longrightarrow> 0 \<le> n \<Longrightarrow> model_validate strict_pydantic (sample_ongoing cid n) = Inr (ongoing_message cid n)"
  by (simp add: validate_simps sample_ongoing_def sample_metadata_def sample_payload_def
      strict_fields strict_datetimes ongoing_message_def check_business_rules_def)

lemma sample_complete_valid:
  "length cid \<le> 64 \<Longrightarrow> 0 \<le> n \<Longrightarrow> model_validate strict_pydantic (sample_complete cid n) = Inr (complete_message cid n)"
  by (simp add: validate_simps sample_complete_def
      strict_fields strict_datetimes complete_message_def check_business_rules_def)

section \<open>Properties\<close>

text \<open>
  Whatever pydantic does to single fields, a message that validation accepts obeys every
  business rule of the contract, has only UTC timestamps, and has no key at its top level but
  \<open>metaData\<close> and \<open>payload\<close>.
\<close>

theorem accepted_message_contract:
  assumes "model_validate P (JObj d) = Inr m"
  shows "contract_rules m \<and> all_utc m \<and> set (map fst d) = {''metaData'', ''payload''}"
proof (rule model_validate_Inr [OF assms])
  fix d' jm jp
  assume d: "JObj d = JObj d'" and keys: "map_of d' ''metaData'' = Some jm" "map_of d' ''payload'' = Some jp"
    "set (map fst d') \<subseteq> set message_fields"
    and parts: "validate_MetaData P jm = Inr (metaData m)" "validate_Payload P jp = Inr (payload m)"
    and rules: "contract_rules m"
  have "all_utc m"
    using validate_MetaData_Inr [OF parts(1)] validate_Payload_Inr [OF parts(2)] by (auto simp: all_utc_def)
  moreover have "set (map fst d') = {''metaData'', ''payload''}"
    using keys by (auto simp: message_fields_def dest!: map_of_SomeD intro: rev_image_eqI)
  ultimately show ?thesis using rules d by simp
qed

theorem accepted_message_contract_witness:
  "contract_rules (ongoing_message ''c1'' 0) \<and> all_utc (ongoing_message ''c1'' 0)"
proof -
  have "model_validate strict_pydantic (JObj [(''metaData'', sample_metadata ''c1''), (''payload'', sample_payload 0)])
      = Inr (ongoing_message ''c1'' 0)"
    using sample_ongoing_valid [of "''c1''" 0] by (simp add: sample_ongoing_def)
  from accepted_message_contract [OF this] show ?thesis by blast
qed

text \<open>
  C39. The business-rule validator accepts exactly the messages that satisfy the contract's rules,
  and a message whose fields parse but which breaks a rule is answered as a business-rule violation
  (E1009, close code 1008).
\<close>

theorem business_rule_violation_scenario:
  assumes "required_model (validate_MetaData P) ''metaData'' d = Inr md"
    and "required_model (validate_Payload P) ''payload'' d = Inr pl"
    and "set (map fst d) \<subseteq> set message_fields"
  shows "(case model_validate P (JObj d) of
      Inr m \<Rightarrow> m = \<lparr>metaData = md, payload = pl\<rparr> \<and> contract_rules m
    | Inl es \<Rightarrow> \<not> contract_rules \<lparr>metaData = md, payload = pl\<rparr>
        \<and> classify_validation_error es = BUSINESS_RULE_VIOLATION)"
proof (cases "check_business_rules \<lparr>metaData = md, payload = pl\<rparr>")
  case (Inl t)
  then have "\<not> contract_rules \<lparr>metaData = md, payload = pl\<rparr>"
    using check_business_rules_iff [of _ "()"] by (metis Inl_Inr_False)
  then show ?thesis using assms Inl
    by (simp add: model_validate_def Let_def extra_errors_Nil [THEN iffD2])
next
  case (Inr u)
  then have "contract_rules \<lparr>metaData = md, payload = pl\<rparr>"
    by (simp add: check_business_rules_iff)
  then show ?thesis using assms Inr
    by (simp add: model_validate_def Let_def extra_errors_Nil [THEN iffD2] del: check_business_rules_iff)
qed

definition system_speaker_metadata :: dict where
  "system_speaker_metadata = [(''metaData'', sample_metadata ''c1''),
     (''payload'', JObj [(''sequenceNumber'', JInt 0), (''speaker'', JStr ''System''),
        (''transcript'', JStr ''EOL''), (''engineProvider'', JStr ''FanoLabs''), (''dialect'', JStr ''yue''),
        (''isFinal'', JBool True)])]"

theorem business_rule_violation_scenario_witness:
  "(case model_validate strict_pydantic (JObj system_speaker_metadata) of
      Inr m \<Rightarrow> False | Inl es \<Rightarrow> classify_validation_error es = BUSINESS_RULE_VIOLATION)"
proof -
  let ?md = "metaData (ongoing_message ''c1'' 0)" and ?pl = "payload (complete_message ''c1'' 0)"
  have h: "required_model (validate_MetaData strict_pydantic) ''metaData'' system_speaker_metadata = Inr ?md"
    "required_model (validate_Payload strict_pydantic) ''payload'' system_speaker_metadata = Inr ?pl"
    "set (map fst system_speaker_metadata) \<subseteq> set message_fields"
    by (simp_all add: validate_simps system_speaker_metadata_def sample_metadata_def
      strict_fields strict_datetimes complete_message_def ongoing_message_def)
  have "\<not> contract_rules \<lparr>metaData = ?md, payload = ?pl\<rparr>"
    by (simp add: contract_rules_def ongoing_message_def complete_message_def)
  then show ?thesis
    using business_rule_violation_scenario [OF h] by (auto split: sum.splits)
qed

text \<open>
  A message rejected only because strings are too long or the sequence number is negative is
  answered as a missing required field (E1003): pydantic's error types for those two checks match
  no test of the classifier, which then falls through to its default.
\<close>

theorem length_and_range_errors_default:
  "classify_validation_error (map (mk_verr ''string_too_long'') ms @ map (mk_verr ''greater_than_equal'') ns)
     = MISSING_REQUIRED_FIELD
   \<and> scenario_error_code MISSING_REQUIRED_FIELD = E1003"
proof -
  have "classify_validation_error ((map (mk_verr ''string_too_long'') ms @ map (mk_verr ''greater_than_equal'') ns) @ [])
      = classify_validation_error []"
    by (rule classify_skip) (auto simp: list_all_iff)
  then show ?thesis by (simp add: scenario_error_code_def)
qed

end
