(* ===== verification/Producer.thy ===== *)
theory Producer
  imports Request Protocols "HOL-Library.Countable"
begin

text \<open>
  The path to Kafka: the message that is published, \<open>converter/kafka_message_converter.py\<close>, the broker
  connections, \<open>producer/kafka_connection.py\<close>, and \<open>KafkaProducer\<close>, \<open>producer/kafka_producer.py\<close>.

  aiokafka and orjson are parameters. \<open>aiokafka\<close> has the calls the class makes on an
  \<open>AIOKafkaProducer\<close>; the locale \<open>kafka_cluster\<close> says what they may do to the topic: a confirmed send has
  appended its record, a send that raises may have appended it, may append it later or never (its
  record stays with the client). \<open>orjson\<close> writes and reads JSON; reading what was written gives it back.
\<close>

section \<open>Message\<close>

definition dump_datetime :: "pydantic \<Rightarrow> py_datetime \<Rightarrow> json" where
  "dump_datetime P t = JStr (pyd_dump_datetime P t)"

definition dump_optional :: "pydantic \<Rightarrow> py_datetime option \<Rightarrow> json" where
  "dump_optional P t = (case t of None \<Rightarrow> JNull | Some u \<Rightarrow> dump_datetime P u)"

text \<open>\<open>model_dump(mode="json")\<close> of the two models: every field, in order, also those that are \<open>None\<close>.\<close>

definition dump_MetaData :: "pydantic \<Rightarrow> MetaData \<Rightarrow> dict" where
  "dump_MetaData P m =
     [(''conversationId'', JStr (conversationId m)),
      (''callStartTimeStamp'', dump_datetime P (callStartTimeStamp m)),
      (''callEndTimeStamp'', dump_optional P (callEndTimeStamp m)),
      (''eventType'', JStr (event_value (eventType m)))]"

definition dump_Payload :: "pydantic \<Rightarrow> Payload \<Rightarrow> dict" where
  "dump_Payload P p =
     [(''sequenceNumber'', JInt (sequenceNumber p)),
      (''speaker'', JStr (speaker_value (speaker p))),
      (''transcript'', JStr (transcript p)),
      (''engineProvider'', JStr (engineProvider p)),
      (''dialect'', JStr (dialect p)),
      (''isFinal'', JBool (isFinal p)),
      (''speakTimeStamp'', dump_optional P (speakTimeStamp p)),
      (''transcriptGenerateTimeStamp'', dump_optional P (transcriptGenerateTimeStamp p))]"

text \<open>\<open>produced_at\<close> is the canonical timestamp of the moment of conversion.\<close>

definition to_kafka_payload :: "pydantic \<Rightarrow> string \<Rightarrow> InboundMessage \<Rightarrow> json \<Rightarrow> dict" where
  "to_kafka_payload P produced_at msg raw_request =
     [(''metaData'', JObj (dump_MetaData P (metaData msg))),
      (''payload'', JObj (dump_Payload P (payload msg))),
      (''enrich'', JObj [(''eventProduceTimestamp'', JStr produced_at)])]"

text \<open>The sequence number and the conversation of a published message.\<close>

definition message_seq :: "dict \<Rightarrow> int option" where
  "message_seq d = (case dict_get d ''payload'' of
     JObj p \<Rightarrow> (case dict_get p ''sequenceNumber'' of JInt n \<Rightarrow> Some n | _ \<Rightarrow> None) | _ \<Rightarrow> None)"

definition message_conversation :: "dict \<Rightarrow> string option" where
  "message_conversation d = (case dict_get d ''metaData'' of
     JObj m \<Rightarrow> (case dict_get m ''conversationId'' of JStr c \<Rightarrow> Some c | _ \<Rightarrow> None) | _ \<Rightarrow> None)"

lemma message_fields [simp]:
  "message_seq (to_kafka_payload P ts m raw) = Some (sequenceNumber (payload m))"
  "message_conversation (to_kafka_payload P ts m raw) = Some (conversationId (metaData m))"
  by (simp_all add: message_seq_def message_conversation_def to_kafka_payload_def dump_MetaData_def dump_Payload_def)

section \<open>Broker connections\<close>

datatype KafkaBrokerConnection =
    LocalPlaintextKafkaConnection
  | AwsMskIamKafkaConnection (aws_region: string) (ssl_ca_file: "string option") (aws_debug_creds: bool)

datatype kwarg = KwStr string | KwSslContext "string option" | KwTokenProvider string bool

fun profile_label :: "KafkaBrokerConnection \<Rightarrow> string" where
  "profile_label LocalPlaintextKafkaConnection = ''local_plaintext''"
| "profile_label (AwsMskIamKafkaConnection _ _ _) = ''aws_msk_iam''"

fun build_client_kwargs :: "KafkaBrokerConnection \<Rightarrow> string \<Rightarrow> (string \<times> kwarg) list" where
  "build_client_kwargs LocalPlaintextKafkaConnection bootstrap =
     [(''bootstrap_servers'', KwStr bootstrap), (''security_protocol'', KwStr ''PLAINTEXT'')]"
| "build_client_kwargs (AwsMskIamKafkaConnection region ca debug) bootstrap =
     [(''bootstrap_servers'', KwStr bootstrap), (''security_protocol'', KwStr ''SASL_SSL''),
      (''ssl_context'', KwSslContext ca), (''sasl_mechanism'', KwStr ''OAUTHBEARER''),
      (''sasl_oauth_token_provider'', KwTokenProvider region debug)]"

definition kafka_connection_for_mode ::
  "string \<Rightarrow> string option \<Rightarrow> string option \<Rightarrow> bool \<Rightarrow> KafkaBrokerConnection res" where
  "kafka_connection_for_mode mode region ca debug =
     (if mode = ''local'' then Inr LocalPlaintextKafkaConnection
      else if mode = ''aws_msk'' then
        (case region of
           None \<Rightarrow> Inl (ValueError ''aws_region is required for KAFKA_MODE=aws_msk'')
         | Some r \<Rightarrow> Inr (AwsMskIamKafkaConnection r ca debug))
      else Inl (ValueError (''unsupported KAFKA_MODE: '' @ py_repr mode)))"

text \<open>
  \<open>MSKTokenProvider._refresh_token\<close>: a cached token is used until one minute before its expiry. The
  clock reading \<open>now_ms\<close> and the signer are arguments.
\<close>

record token_provider =
  cached_token :: "string option"
  expiry_ms :: int

definition refresh_token ::
  "(string \<times> int) res \<Rightarrow> int \<Rightarrow> token_provider \<Rightarrow> string res \<times> token_provider" where
  "refresh_token signer now_ms tp =
     (case cached_token tp of
        Some t \<Rightarrow>
          if now_ms < expiry_ms tp - 60000 then (Inr t, tp)
          else (case signer of Inl e \<Rightarrow> (Inl e, tp) | Inr (u, x) \<Rightarrow> (Inr u, \<lparr>cached_token = Some u, expiry_ms = x\<rparr>))
      | None \<Rightarrow>
          (case signer of Inl e \<Rightarrow> (Inl e, tp) | Inr (u, x) \<Rightarrow> (Inr u, \<lparr>cached_token = Some u, expiry_ms = x\<rparr>)))"

section \<open>Producer\<close>

record orjson =
  dumps :: "json \<Rightarrow> string res"
  loads :: "string \<Rightarrow> json res"

record kafka_config =
  kafka_kwargs :: "(string \<times> kwarg) list"
  compression :: "string option"
  enable_idempotence :: bool
  max_request_size :: nat
  cfg_linger_ms :: int
  max_batch_size :: int

text \<open>
  The calls on an \<open>AIOKafkaProducer\<close>: the constructor, \<open>start\<close>, \<open>send_and_wait\<close> under
  \<open>asyncio.wait_for\<close> with a timeout, \<open>flush\<close> and \<open>stop\<close>.
\<close>

record 'k aiokafka =
  ak_new :: "kafka_config \<Rightarrow> ('k, unit) io"
  ak_start :: "('k, unit) io"
  ak_send_within :: "rat \<Rightarrow> string \<Rightarrow> string \<Rightarrow> string \<Rightarrow> ('k, unit) io"
  ak_flush :: "('k, unit) io"
  ak_stop :: "('k, unit) io"

record kafka_producer =
  bootstrap :: string
  topic :: string
  connection :: KafkaBrokerConnection
  compression_type :: string
  send_timeout_sec :: rat
  linger_ms :: int
  batch_size :: int
  producer_set :: bool

type_synonym ('k, 'a) kafka_io = "(kafka_producer \<times> 'k, 'a) io"

definition producer_config :: "kafka_producer \<Rightarrow> kafka_config" where
  "producer_config p = \<lparr>kafka_kwargs = build_client_kwargs (connection p) (bootstrap p),
     compression = (if compression_type p = ''none'' then None else Some (compression_type p)),
     enable_idempotence = True, max_request_size = 1048576, cfg_linger_ms = linger_ms p,
     max_batch_size = batch_size p\<rparr>"

fun kafka_close :: "'k aiokafka \<Rightarrow> ('k, unit) kafka_io" where
  "kafka_close A (p, k) =
     (if producer_set p
      then (case ak_stop A k of
              (Inl e, k1) \<Rightarrow> (Inl e, (p, k1))
            | (Inr _, k1) \<Rightarrow> (Inr (), (p\<lparr>producer_set := False\<rparr>, k1)))
      else (Inr (), (p, k)))"

text \<open>\<open>except Exception: await self.close(); raise\<close>: an exception of \<open>close\<close> takes the place of the first.\<close>

definition close_and_raise :: "'k aiokafka \<Rightarrow> exn \<Rightarrow> ('k, 'a) kafka_io" where
  "close_and_raise A e pk =
     (case kafka_close A pk of (Inl e', pk') \<Rightarrow> (Inl e', pk') | (Inr _, pk') \<Rightarrow> (Inl e, pk'))"

fun get_producer :: "'k aiokafka \<Rightarrow> ('k, unit) kafka_io" where
  "get_producer A (p, k) =
     (if producer_set p then (Inr (), (p, k))
      else (case ak_new A (producer_config p) k of
          (Inl e, k1) \<Rightarrow> (Inl e, (p, k1))
        | (Inr _, k1) \<Rightarrow>
            (let p1 = p\<lparr>producer_set := True\<rparr> in
             case ak_start A k1 of
               (Inl e, k2) \<Rightarrow> close_and_raise A e (p1, k2)
             | (Inr _, k2) \<Rightarrow> (Inr (), (p1, k2)))))"

definition ensure_ready :: "'k aiokafka \<Rightarrow> ('k, unit) kafka_io" where
  "ensure_ready A pk =
     (case get_producer A pk of (Inl e, pk') \<Rightarrow> close_and_raise A e pk' | (Inr _, pk') \<Rightarrow> (Inr (), pk'))"

text \<open>The value is serialised before a producer is created; its errors come first.\<close>

definition kafka_send :: "'k aiokafka \<Rightarrow> orjson \<Rightarrow> string \<Rightarrow> dict \<Rightarrow> ('k, unit) kafka_io" where
  "kafka_send A J conversation_id msg pk =
     (case dumps J (JObj msg) of
        Inl e \<Rightarrow> (Inl e, pk)
      | Inr v \<Rightarrow>
          (case get_producer A pk of
             (Inl e, pk1) \<Rightarrow> (Inl e, pk1)
           | (Inr _, (p, k)) \<Rightarrow>
               (case ak_send_within A (send_timeout_sec p) (topic p) conversation_id v k of
                  (r, k1) \<Rightarrow> (r, (p, k1)))))"

fun kafka_flush :: "'k aiokafka \<Rightarrow> ('k, unit) kafka_io" where
  "kafka_flush A (p, k) =
     (if producer_set p then (case ak_flush A k of (r, k1) \<Rightarrow> (r, (p, k1))) else (Inr (), (p, k)))"

definition kafka_backend :: "'k aiokafka \<Rightarrow> orjson \<Rightarrow> (kafka_producer \<times> 'k) producer_ops" where
  "kafka_backend A J = \<lparr>p_send = kafka_send A J, p_ensure_ready = ensure_ready A,
     p_flush = kafka_flush A, p_close = kafka_close A\<rparr>"

declare get_producer.simps [simp del] kafka_close.simps [simp del]

section \<open>What the code relies on\<close>

type_synonym kafka_record = "string \<times> string \<times> string"

text \<open>\<open>arrived records inflight k k'\<close>: between the two states only records that were in flight were appended.\<close>

definition arrived ::
  "('k \<Rightarrow> kafka_record list) \<Rightarrow> ('k \<Rightarrow> kafka_record set) \<Rightarrow> 'k \<Rightarrow> 'k \<Rightarrow> bool" where
  "arrived records inflight k k' \<longleftrightarrow> inflight k' \<subseteq> inflight k \<and>
     (\<exists>late. set late \<subseteq> inflight k \<and> records k' = records k @ late)"

locale kafka_cluster =
  fixes A :: "'k aiokafka" and J :: orjson
    and records :: "'k \<Rightarrow> kafka_record list" and inflight :: "'k \<Rightarrow> kafka_record set"
  assumes loads_dumps: "dumps J j = Inr v \<Longrightarrow> loads J v = Inr j"
    and new_arrived: "ak_new A c k = (r, k') \<Longrightarrow> arrived records inflight k k'"
    and start_arrived: "ak_start A k = (r, k') \<Longrightarrow> arrived records inflight k k'"
    and flush_arrived: "ak_flush A k = (r, k') \<Longrightarrow> arrived records inflight k k'"
    and stop_arrived: "ak_stop A k = (r, k') \<Longrightarrow> arrived records inflight k k'"
    and send_confirmed: "ak_send_within A t tpc key v k = (Inr u, k') \<Longrightarrow>
      inflight k' \<subseteq> inflight k \<and>
      (\<exists>late. set late \<subseteq> inflight k \<and> records k' = records k @ late @ [(tpc, key, v)])"
    and send_failed: "ak_send_within A t tpc key v k = (Inl e, k') \<Longrightarrow>
      inflight k' \<subseteq> insert (tpc, key, v) (inflight k) \<and>
      (\<exists>late. set late \<subseteq> insert (tpc, key, v) (inflight k) \<and> records k' = records k @ late)"

text \<open>The messages of a topic, read back: the key and the JSON object of each record.\<close>

definition read_message :: "orjson \<Rightarrow> string \<Rightarrow> dict" where
  "read_message J v = (case loads J v of Inr (JObj d) \<Rightarrow> d | _ \<Rightarrow> [])"

definition read_record :: "orjson \<Rightarrow> kafka_record \<Rightarrow> string \<times> dict" where
  "read_record J rec = (fst (snd rec), read_message J (snd (snd rec)))"

definition topic_messages :: "orjson \<Rightarrow> string \<Rightarrow> kafka_record list \<Rightarrow> (string \<times> dict) list" where
  "topic_messages J tpc recs = map (read_record J) (filter (\<lambda>rec. fst rec = tpc) recs)"

definition producer_delivered ::
  "orjson \<Rightarrow> ('k \<Rightarrow> kafka_record list) \<Rightarrow> kafka_producer \<times> 'k \<Rightarrow> (string \<times> dict) list" where
  "producer_delivered J records pk = topic_messages J (topic (fst pk)) (records (snd pk))"

definition producer_pending ::
  "orjson \<Rightarrow> ('k \<Rightarrow> kafka_record set) \<Rightarrow> kafka_producer \<times> 'k \<Rightarrow> (string \<times> dict) set" where
  "producer_pending J inflight pk = read_record J ` {rec \<in> inflight (snd pk). fst rec = topic (fst pk)}"

lemma topic_messages_simps [simp]:
  "topic_messages J tpc (xs @ ys) = topic_messages J tpc xs @ topic_messages J tpc ys"
  "topic_messages J tpc [] = []"
  "topic_messages J tpc [(tpc, key, v)] = [(key, read_message J v)]"
  by (simp_all add: topic_messages_def read_record_def)

lemma topic_messages_set:
  "set late \<subseteq> X \<Longrightarrow> set (topic_messages J tpc late) \<subseteq> read_record J ` {rec \<in> X. fst rec = tpc}"
  by (auto simp: topic_messages_def)

lemma arrived_refl: "arrived records inflight k k"
  by (auto simp: arrived_def intro: exI [of _ "[]"])

lemma arrived_trans:
  assumes "arrived records inflight k1 k2" "arrived records inflight k2 k3"
  shows "arrived records inflight k1 k3"
proof -
  obtain l1 l2 where l: "set l1 \<subseteq> inflight k1" "records k2 = records k1 @ l1" "set l2 \<subseteq> inflight k2" "records k3 = records k2 @ l2"
    using assms by (auto simp: arrived_def)
  then show ?thesis using assms by (auto simp: arrived_def intro!: exI [of _ "l1 @ l2"])
qed

lemma get_producer_same:
  "topic (fst (snd (get_producer A (p, k)))) = topic p"
  "topic (fst (snd (kafka_close A (p, k)))) = topic p"
  by (auto simp: get_producer.simps close_and_raise_def kafka_close.simps Let_def split: prod.splits sum.splits)

context kafka_cluster
begin

lemma kafka_close_arrived: "kafka_close A (p, k) = (r, p', k') \<Longrightarrow> arrived records inflight k k'"
  by (auto simp: kafka_close.simps arrived_refl stop_arrived split: if_splits prod.splits sum.splits)

lemma close_and_raise_arrived: "close_and_raise A e (p, k) = (r, p', k') \<Longrightarrow> arrived records inflight k k'"
  by (auto simp: close_and_raise_def dest: kafka_close_arrived split: prod.splits sum.splits)

lemma get_producer_arrived:
  assumes "get_producer A (p, k) = (r, p', k')"
  shows "arrived records inflight k k'"
proof (cases "producer_set p")
  case True
  then show ?thesis using assms by (simp add: get_producer.simps arrived_refl)
next
  case False
  obtain r1 k1 where n: "ak_new A (producer_config p) k = (r1, k1)" by fastforce
  obtain r2 k2 where s: "ak_start A k1 = (r2, k2)" by fastforce
  note a1 = new_arrived [OF n] and a2 = start_arrived [OF s]
  show ?thesis
  proof (cases r1)
    case (Inl e)
    then show ?thesis using assms False n a1 by (simp add: get_producer.simps)
  next
    case r1: (Inr u)
    show ?thesis
    proof (cases r2)
      case (Inl e)
      then show ?thesis using assms False n r1 s a1 a2
        by (auto simp: get_producer.simps Let_def dest!: close_and_raise_arrived intro: arrived_trans)
    next
      case (Inr u)
      then show ?thesis using assms False n r1 s arrived_trans [OF a1 a2] by (simp add: get_producer.simps Let_def)
    qed
  qed
qed

lemma arrived_delivered:
  assumes "arrived records inflight k k'"
  shows "producer_pending J inflight (p, k') \<subseteq> producer_pending J inflight (p, k)
    \<and> (\<exists>late. set late \<subseteq> producer_pending J inflight (p, k)
        \<and> producer_delivered J records (p, k') = producer_delivered J records (p, k) @ late)"
proof -
  obtain late where "set late \<subseteq> inflight k" "records k' = records k @ late" "inflight k' \<subseteq> inflight k"
    using assms by (auto simp: arrived_def)
  then show ?thesis
    by (auto simp: producer_pending_def producer_delivered_def
        intro!: exI [of _ "topic_messages J (topic p) late"] dest: topic_messages_set [THEN subsetD, rotated])
qed

lemma delivered_topic: "topic p' = topic p \<Longrightarrow>
  producer_delivered J records (p', k) = producer_delivered J records (p, k)
  \<and> producer_pending J inflight (p', k) = producer_pending J inflight (p, k)"
  by (simp add: producer_delivered_def producer_pending_def)

text \<open>
  A send: it fails before anything is sent, or the record is handed over after records in flight
  may have arrived.
\<close>

lemma kafka_send_cases [consumes 1, case_names unsent handed]:
  assumes "kafka_send A J cid m (p, k) = (r, p', k')"
  obtains (unsent) e where "r = Inl e" "arrived records inflight k k'" "topic p' = topic p"
  | (handed) v k1 where "dumps J (JObj m) = Inr v" "arrived records inflight k k1" "topic p' = topic p"
      "ak_send_within A (send_timeout_sec p') (topic p) cid v k1 = (r, k')"
proof (cases "dumps J (JObj m)")
  case (Inl e)
  then show thesis using assms by (intro unsent) (auto simp: kafka_send_def arrived_refl)
next
  case dumped: (Inr v)
  obtain r1 p1 k1 where g: "get_producer A (p, k) = (r1, p1, k1)" by (metis prod_cases3)
  have t: "topic p1 = topic p" using get_producer_same(1) [of A p k] g by simp
  note arr = get_producer_arrived [OF g]
  show thesis
  proof (cases r1)
    case (Inl e)
    then show thesis using assms dumped g t arr by (intro unsent) (auto simp: kafka_send_def)
  next
    case (Inr u)
    then show thesis using assms dumped g t arr
      by (intro handed [of v k1]) (auto simp: kafka_send_def split: prod.splits)
  qed
qed

lemma producer_contract:
  "producer_backend (kafka_backend A J) (\<lambda>_. True) (producer_delivered J records) (producer_pending J inflight)"
proof
  fix k k' :: "kafka_producer \<times> 'k" and cid m
  obtain p b where k: "k = (p, b)" by fastforce
  obtain p' b' where k': "k' = (p', b')" by fastforce
  let ?D = "producer_delivered J records" and ?P = "producer_pending J inflight"
  have read: "read_message J v = m" if "dumps J (JObj m) = Inr v" for v
    using loads_dumps [OF that] by (simp add: read_message_def)
  have handed: "?P (p', b') \<subseteq> (if is_error r then insert (cid, m) (?P (p, b)) else ?P (p, b)) \<and>
     (if is_error r then \<exists>late. set late \<subseteq> insert (cid, m) (?P (p, b)) \<and> ?D (p', b') = ?D (p, b) @ late
      else \<exists>late. set late \<subseteq> ?P (p, b) \<and> ?D (p', b') = ?D (p, b) @ late @ [(cid, m)])"
    if run: "kafka_send A J cid m (p, b) = (r, p', b')" for r
    using run
  proof (cases rule: kafka_send_cases)
    case (unsent e)
    then show ?thesis using arrived_delivered [OF unsent(2), of p] delivered_topic [OF unsent(3), of b'] by auto
  next
    case (handed v b1)
    obtain l1 where l1: "set l1 \<subseteq> inflight b" "records b1 = records b @ l1" "inflight b1 \<subseteq> inflight b"
      using handed(2) by (auto simp: arrived_def)
    let ?rec = "(topic p, cid, v)" and ?M = "topic_messages J (topic p)"
    have rec: "read_record J ?rec = (cid, m)" using read [OF handed(1)] by (simp add: read_record_def)
    have M: "?M [?rec] = [(cid, m)]" using read [OF handed(1)] by simp
    have pend: "?P (p', b') \<subseteq> insert (cid, m) (?P (p, b))" if "inflight b' \<subseteq> insert ?rec (inflight b1)"
      using that l1 rec handed(3) by (fastforce simp: producer_pending_def)
    have M1: "set (?M l1) \<subseteq> ?P (p, b)"
      using topic_messages_set [OF l1(1)] by (simp add: producer_pending_def)
    show ?thesis
    proof (cases r)
      case (Inr u)
      then obtain l2 where l2: "inflight b' \<subseteq> inflight b1" "set l2 \<subseteq> inflight b1"
        "records b' = records b1 @ l2 @ [?rec]"
        using send_confirmed handed(4) by meson
      have "set (?M l2) \<subseteq> ?P (p, b)"
        using topic_messages_set [of l2 "inflight b"] l1(3) l2(2) by (auto simp: producer_pending_def)
      moreover have "?P (p', b') \<subseteq> ?P (p, b)"
        using l1(3) l2(1) handed(3) by (fastforce simp: producer_pending_def)
      ultimately show ?thesis using M1 Inr l1(2) l2(3) handed(3) M
        by (auto simp: producer_delivered_def intro!: exI [of _ "?M l1 @ ?M l2"])
    next
      case (Inl e)
      then obtain l2 where l2: "inflight b' \<subseteq> insert ?rec (inflight b1)" "set l2 \<subseteq> insert ?rec (inflight b1)"
        "records b' = records b1 @ l2"
        using send_failed handed(4) by meson
      have "set (?M l2) \<subseteq> insert (cid, m) (?P (p, b))"
        using topic_messages_set [of l2 "insert ?rec (inflight b)"] l1(3) l2(2) rec
        by (fastforce simp: producer_pending_def)
      then show ?thesis using pend [OF l2(1)] M1 Inl l1(2) l2(3) handed(3)
        by (auto simp: producer_delivered_def intro!: exI [of _ "?M l1 @ ?M l2"])
    qed
  qed
  show "p_send (kafka_backend A J) cid m k = (Inr u, k') \<Longrightarrow> True \<and> ?P k' \<subseteq> ?P k
      \<and> (\<exists>late. set late \<subseteq> ?P k \<and> ?D k' = ?D k @ late @ [(cid, m)])" for u
    using handed [of "Inr u"] by (simp add: kafka_backend_def k k')
  show "p_send (kafka_backend A J) cid m k = (Inl e, k') \<Longrightarrow> True \<and> ?P k' \<subseteq> insert (cid, m) (?P k)
      \<and> (\<exists>late. set late \<subseteq> insert (cid, m) (?P k) \<and> ?D k' = ?D k @ late)" for e
    using handed [of "Inl e"] by (simp add: kafka_backend_def k k')
qed

end

sublocale kafka_cluster \<subseteq> pub: producer_backend "kafka_backend A J" "\<lambda>_. True"
  "producer_delivered J records" "producer_pending J inflight"
  by (rule producer_contract)

section \<open>A concrete broker\<close>

text \<open>
  An instance of the parameters, for witnesses. JSON is written as the number of the value in an
  enumeration of all values, and read back from it. The broker has a schedule of faults, one per send.
\<close>

instantiation json :: countable
begin

instance by countable_datatype

end

definition numbering_orjson :: orjson where
  "numbering_orjson = \<lparr>dumps = (\<lambda>j. Inr (str_of_nat (to_nat j))),
     loads = (\<lambda>s. case nat_of_str s of Some n \<Rightarrow> Inr (from_nat n) | None \<Rightarrow> Inl (ValueError ''unexpected character''))\<rparr>"

lemma numbering_loads [simp]: "dumps numbering_orjson j = Inr v \<Longrightarrow> loads numbering_orjson v = Inr j"
  by (auto simp: numbering_orjson_def)

datatype kafka_fault = Delivered | TimedOutLost | TimedOutDelivered | TimedOutInFlight | BrokerDown

record kafka_server =
  ks_records :: "kafka_record list"
  ks_inflight :: "kafka_record list"
  ks_faults :: "kafka_fault list"

definition server_flush :: "kafka_server \<Rightarrow> kafka_server" where
  "server_flush k = k\<lparr>ks_records := ks_records k @ ks_inflight k, ks_inflight := []\<rparr>"

definition server_send :: "rat \<Rightarrow> string \<Rightarrow> string \<Rightarrow> string \<Rightarrow> (kafka_server, unit) io" where
  "server_send t tpc key v k =
     (let k1 = (server_flush k)\<lparr>ks_faults := tl (ks_faults k)\<rparr>;
          sent = k1\<lparr>ks_records := ks_records k1 @ [(tpc, key, v)]\<rparr>
      in case (case ks_faults k of [] \<Rightarrow> Delivered | f # _ \<Rightarrow> f) of
           Delivered \<Rightarrow> (Inr (), sent)
         | TimedOutLost \<Rightarrow> (Inl (TimeoutError []), k1)
         | TimedOutDelivered \<Rightarrow> (Inl (TimeoutError []), sent)
         | TimedOutInFlight \<Rightarrow> (Inl (TimeoutError []), k1\<lparr>ks_inflight := [(tpc, key, v)]\<rparr>)
         | BrokerDown \<Rightarrow> (Inl (OtherError ''KafkaConnectionError''), k1))"

definition server_kafka :: "kafka_server aiokafka" where
  "server_kafka = \<lparr>ak_new = (\<lambda>c k. (Inr (), k)), ak_start = (\<lambda>k. (Inr (), k)),
     ak_send_within = server_send, ak_flush = (\<lambda>k. (Inr (), server_flush k)), ak_stop = (\<lambda>k. (Inr (), server_flush k))\<rparr>"

lemma server_flush_arrived:
  "arrived ks_records (\<lambda>k. set (ks_inflight k)) k (server_flush k)"
  by (auto simp: arrived_def server_flush_def)

interpretation broker: kafka_cluster server_kafka numbering_orjson ks_records "\<lambda>k. set (ks_inflight k)"
proof unfold_locales
  show "loads numbering_orjson v = Inr j" if "dumps numbering_orjson j = Inr v" for j v
    using that by simp
  fix k k' :: kafka_server
  show "arrived ks_records (\<lambda>k. set (ks_inflight k)) k k'" if "ak_new server_kafka c k = (r, k')" for c r
    using that by (auto simp: server_kafka_def arrived_refl)
  show "arrived ks_records (\<lambda>k. set (ks_inflight k)) k k'" if "ak_start server_kafka k = (r, k')" for r
    using that by (auto simp: server_kafka_def arrived_refl)
  show "arrived ks_records (\<lambda>k. set (ks_inflight k)) k k'" if "ak_flush server_kafka k = (r, k')" for r
    using that server_flush_arrived by (auto simp: server_kafka_def)
  show "arrived ks_records (\<lambda>k. set (ks_inflight k)) k k'" if "ak_stop server_kafka k = (r, k')" for r
    using that server_flush_arrived by (auto simp: server_kafka_def)
  show "set (ks_inflight k') \<subseteq> set (ks_inflight k) \<and>
      (\<exists>late. set late \<subseteq> set (ks_inflight k) \<and> ks_records k' = ks_records k @ late @ [(tpc, key, v)])"
    if "ak_send_within server_kafka t tpc key v k = (Inr u, k')" for t tpc key v u
    using that by (auto simp: server_kafka_def server_send_def server_flush_def Let_def split: kafka_fault.splits list.splits)
  show "set (ks_inflight k') \<subseteq> insert (tpc, key, v) (set (ks_inflight k)) \<and>
      (\<exists>late. set late \<subseteq> insert (tpc, key, v) (set (ks_inflight k)) \<and> ks_records k' = ks_records k @ late)"
    if "ak_send_within server_kafka t tpc key v k = (Inl e, k')" for t tpc key v e
  proof -
    have "ks_records k' = ks_records k @ ks_inflight k \<or> ks_records k' = ks_records k @ ks_inflight k @ [(tpc, key, v)]"
      and "set (ks_inflight k') \<subseteq> {(tpc, key, v)}"
      using that by (auto simp: server_kafka_def server_send_def server_flush_def Let_def split: kafka_fault.splits list.splits)
    then show ?thesis by (elim disjE) (auto intro: exI [of _ "ks_inflight k"] exI [of _ "ks_inflight k @ [(tpc, key, v)]"])
  qed
qed

definition empty_kafka :: "kafka_fault list \<Rightarrow> kafka_server" where
  "empty_kafka fs = \<lparr>ks_records = [], ks_inflight = [], ks_faults = fs\<rparr>"

definition sample_producer :: kafka_producer where
  "sample_producer = \<lparr>bootstrap = ''localhost:9092'', topic = ''transcripts'', connection = LocalPlaintextKafkaConnection,
     compression_type = ''zstd'', send_timeout_sec = 2, linger_ms = 1, batch_size = 32768, producer_set = False\<rparr>"

section \<open>Properties\<close>

text \<open>
  C14. \<open>KafkaProducer\<close> meets the contract of its protocol class: a \<open>send\<close> that returns has appended its
  message to the topic, under the key of its conversation, after at most some messages of earlier
  sends that had failed; a \<open>send\<close> that raises has appended or left in flight at most its own message.
\<close>

theorem kafka_producer_contract:
  assumes "kafka_cluster A J records inflight"
  shows "producer_backend (kafka_backend A J) (\<lambda>_. True) (producer_delivered J records) (producer_pending J inflight)"
  using assms by (rule kafka_cluster.producer_contract)

theorem kafka_producer_contract_witness:
  "producer_backend (kafka_backend server_kafka numbering_orjson) (\<lambda>_. True)
     (producer_delivered numbering_orjson ks_records) (producer_pending numbering_orjson (\<lambda>k. set (ks_inflight k)))"
  by (rule kafka_producer_contract [OF broker.kafka_cluster_axioms])

text \<open>
  What pydantic guarantees of the values it has parsed: writing them and parsing them again gives
  the same value.
\<close>

definition pydantic_reparses :: "pydantic \<Rightarrow> bool" where
  "pydantic_reparses P \<longleftrightarrow>
     (\<forall>n s. length s \<le> n \<longrightarrow> pyd_str P n (JStr s) = Inr s) \<and> (\<forall>b i. b \<le> i \<longrightarrow> pyd_int_ge P b (JInt i) = Inr i)
     \<and> (\<forall>b. pyd_bool P (JBool b) = Inr b) \<and> (\<forall>e. pyd_event_type P (JStr (event_value e)) = Inr e)
     \<and> (\<forall>s. pyd_speaker P (JStr (speaker_value s)) = Inr s)
     \<and> (\<forall>t. utcoffset t = Some 0 \<longrightarrow> pyd_datetime P (JStr (pyd_dump_datetime P t)) = Inr t)"

definition field_bounds :: "InboundMessage \<Rightarrow> bool" where
  "field_bounds m \<longleftrightarrow> length (conversationId (metaData m)) \<le> 64 \<and> 0 \<le> sequenceNumber (payload m)
     \<and> length (transcript (payload m)) \<le> 8000 \<and> length (engineProvider (payload m)) \<le> 64
     \<and> length (dialect (payload m)) \<le> 32"

lemma strict_pydantic_reparses: "pydantic_reparses strict_pydantic"
proof -
  have "pyd_event_type strict_pydantic (JStr (event_value e)) = Inr e" for e
    by (cases e) (simp_all add: strict_pydantic_def)
  moreover have "pyd_speaker strict_pydantic (JStr (speaker_value s)) = Inr s" for s
    by (cases s) (simp_all add: strict_pydantic_def)
  moreover have "pyd_datetime strict_pydantic (JStr (pyd_dump_datetime strict_pydantic t)) = Inr t" if "utcoffset t = Some 0" for t
    using that by (cases t) (simp add: strict_pydantic_def)
  ultimately show ?thesis
    by (simp add: pydantic_reparses_def) (simp add: strict_pydantic_def)
qed

lemma dump_revalidates:
  assumes P: "pydantic_reparses P" and m: "field_bounds m" "all_utc m"
  shows "validate_MetaData P (JObj (dump_MetaData P (metaData m))) = Inr (metaData m)"
    and "validate_Payload P (JObj (dump_Payload P (payload m))) = Inr ((payload m)\<lparr>model_fields_set := payload_fields\<rparr>)"
proof -
  have opt: "optional_utc P k d = Inr v" if "map_of d k = Some (dump_optional P v)" "utc_opt v" for k d v
    using that P by (cases v) (auto simp: optional_utc_def optional_field_def bind_verr_def dump_optional_def
        dump_datetime_def ensure_utc_timestamp_def pydantic_reparses_def utc_opt_def)
  have start: "required_utc P ''callStartTimeStamp'' (dump_MetaData P (metaData m)) = Inr (callStartTimeStamp (metaData m))"
    using P m by (simp add: required_utc_def required_field_def dump_MetaData_def dump_datetime_def bind_verr_def
        ensure_utc_timestamp_def pydantic_reparses_def all_utc_def)
  have finish: "optional_utc P ''callEndTimeStamp'' (dump_MetaData P (metaData m)) = Inr (callEndTimeStamp (metaData m))"
    by (rule opt) (use m in \<open>simp_all add: dump_MetaData_def all_utc_def\<close>)
  show "validate_MetaData P (JObj (dump_MetaData P (metaData m))) = Inr (metaData m)"
    using P m start finish
    by (simp add: validate_MetaData_def Let_def)
      (simp add: dump_MetaData_def required_field_def extra_errors_def metadata_fields_def pydantic_reparses_def field_bounds_def)
  have speak: "optional_utc P ''speakTimeStamp'' (dump_Payload P (payload m)) = Inr (speakTimeStamp (payload m))"
    by (rule opt) (use m in \<open>simp_all add: dump_Payload_def all_utc_def\<close>)
  have gen: "optional_utc P ''transcriptGenerateTimeStamp'' (dump_Payload P (payload m))
      = Inr (transcriptGenerateTimeStamp (payload m))"
    by (rule opt) (use m in \<open>simp_all add: dump_Payload_def all_utc_def\<close>)
  show "validate_Payload P (JObj (dump_Payload P (payload m))) = Inr ((payload m)\<lparr>model_fields_set := payload_fields\<rparr>)"
    using P m speak gen
    by (simp add: validate_Payload_def Let_def)
      (simp add: dump_Payload_def required_field_def extra_errors_def payload_fields_def pydantic_reparses_def field_bounds_def)
qed

text \<open>
  C40. The published message repeats the accepted one: without \<open>enrich\<close>, a published transcript is
  itself an inbound message that validates to the same message. A published end of session does not: it
  carries its two timestamps as explicit nulls, which the contract forbids for that event.
\<close>

theorem published_message_revalidates:
  assumes "pydantic_reparses P" and "field_bounds m" and "all_utc m" and "contract_rules m"
  shows "(case eventType (metaData m) of
      SESSION_ONGOING \<Rightarrow> model_validate P (JObj (take 2 (to_kafka_payload P ts m raw))) =
        Inr (m\<lparr>payload := (payload m)\<lparr>model_fields_set := payload_fields\<rparr>\<rparr>)
    | SESSION_COMPLETE \<Rightarrow> (\<exists>es. model_validate P (JObj (take 2 (to_kafka_payload P ts m raw))) = Inl es
        \<and> classify_validation_error es = BUSINESS_RULE_VIOLATION))"
proof -
  let ?m = "\<lparr>metaData = metaData m, payload = (payload m)\<lparr>model_fields_set := payload_fields\<rparr>\<rparr>"
  have v: "model_validate P (JObj (take 2 (to_kafka_payload P ts m raw))) =
      (case check_business_rules ?m of Inl t \<Rightarrow> Inl [mk_verr ''value_error'' t] | Inr _ \<Rightarrow> Inr ?m)"
    using dump_revalidates [OF assms(1-3)]
    by (simp add: model_validate_def to_kafka_payload_def required_model_def extra_errors_def message_fields_def Let_def)
  show ?thesis
  proof (cases "eventType (metaData m)")
    case SESSION_ONGOING
    then have "contract_rules ?m" using assms(4) by (simp add: contract_rules_def)
    then obtain u where "check_business_rules ?m = Inr u" using check_business_rules_iff [of ?m] by blast
    then show ?thesis using SESSION_ONGOING v by simp
  next
    case SESSION_COMPLETE
    then have "\<not> contract_rules ?m" by (simp add: contract_rules_def payload_fields_def)
    then obtain t where "check_business_rules ?m = Inl t"
      using check_business_rules_iff [of ?m] by (cases "check_business_rules ?m") auto
    then show ?thesis using SESSION_COMPLETE v by simp
  qed
qed

theorem published_message_revalidates_witness:
  "model_validate strict_pydantic (JObj (take 2 (to_kafka_payload strict_pydantic ''now'' (ongoing_message ''c1'' 3) JNull)))
    = Inr (ongoing_message ''c1'' 3)"
  using published_message_revalidates [OF strict_pydantic_reparses, of "ongoing_message ''c1'' 3" "''now''" JNull]
  by (simp add: field_bounds_def all_utc_def contract_rules_def ongoing_message_def utc_opt_def)

text \<open>
  A token handed to the broker client has either just been signed or is a cached one with more
  than a minute left; a failed signing raises and leaves the cache.
\<close>

theorem token_not_stale:
  "(case refresh_token signer now_ms tp of
      (Inr t, tp') \<Rightarrow> cached_token tp' = Some t \<and>
        ((tp' = tp \<and> now_ms + 60000 < expiry_ms tp) \<or> signer = Inr (t, expiry_ms tp'))
    | (Inl e, tp') \<Rightarrow> signer = Inl e \<and> tp' = tp)"
  by (auto simp: refresh_token_def split: option.splits sum.splits)

end
