(* ===== verification/Orchestrator.thy ===== *)
theory Orchestrator
  imports Sequence_Contract Producer
begin

text \<open>
  The orchestrator, \<open>orchestrator/two_phase.py\<close>: \<open>TwoPhaseOrchestrator\<close> validates an inbound message,
  checks its sequence number, publishes it and advances the counter, and answers with a frame, the
  decision to disconnect and a close code. It is written against the records of \<open>Protocols\<close>: the sequence state machine on a
  world \<open>'s\<close> and the producer on a world \<open>'k\<close> of its own.

  The clock is an argument: \<open>now\<close> is the timestamp of the response that is built, \<open>produced_at\<close> the one
  of the published message. Stage timings are modelled by their keys, in the order in which the code
  enters them.
\<close>

record OrchestratorResult =
  response :: dict
  disconnect :: bool
  close_code :: int
  timings_ms :: "string list"

definition build_success_ack :: "string \<Rightarrow> string \<Rightarrow> int \<Rightarrow> EventType \<Rightarrow> dict" where
  "build_success_ack now conversation_id sequence_number event_type =
     (if event_type = SESSION_COMPLETE then build_eol_ack now conversation_id sequence_number
      else build_transcript_ack now conversation_id sequence_number)"

definition disconnect_after_success :: "EventType \<Rightarrow> bool" where
  "disconnect_after_success event_type = (event_type = SESSION_COMPLETE)"

definition finalize_timings :: "string list \<Rightarrow> string list" where
  "finalize_timings timings = timings @ [''orchestrator_ms'']"

text \<open>\<open>OrchestratorResult(response=scenario.build_response(..), disconnect=True, close_code=..)\<close>.\<close>

definition error_result ::
  "ProtocolErrorScenario \<Rightarrow> string \<Rightarrow> string \<Rightarrow> string option \<Rightarrow> string list \<Rightarrow> OrchestratorResult res" where
  "error_result s now cid details timings =
     (case build_response s now cid details of
        Inl e \<Rightarrow> Inl e
      | Inr r \<Rightarrow> (case require_ws_close_code s of
          Inl e \<Rightarrow> Inl e
        | Inr c \<Rightarrow> Inr \<lparr>response = r, disconnect = True, close_code = ws_code c, timings_ms = timings\<rparr>))"

text \<open>The same after a log record that reads the close code.\<close>

definition logged_error_result ::
  "ProtocolErrorScenario \<Rightarrow> string \<Rightarrow> string \<Rightarrow> string option \<Rightarrow> string list \<Rightarrow> OrchestratorResult res" where
  "logged_error_result s now cid details timings =
     (case require_ws_close_code s of Inl e \<Rightarrow> Inl e | Inr _ \<Rightarrow> error_result s now cid details timings)"

definition validation_failure :: "pydantic \<Rightarrow> string \<Rightarrow> string \<Rightarrow> verr list \<Rightarrow> OrchestratorResult res" where
  "validation_failure P now conversation_id es =
     logged_error_result (classify_validation_error es) now conversation_id
       (Some (take MAX_ERROR_DETAILS_LEN (pyd_error_str P es))) (finalize_timings [''validate_ms''])"

definition idempotent_result :: "string \<Rightarrow> string \<Rightarrow> int \<Rightarrow> EventType \<Rightarrow> OrchestratorResult" where
  "idempotent_result now cid seq event_type =
     \<lparr>response = build_success_ack now cid seq event_type, disconnect = disconnect_after_success event_type,
      close_code = 1000, timings_ms = finalize_timings [''validate_ms'', ''prepare_ms'', ''ack_build_ms'']\<rparr>"

definition out_of_order_result :: "string \<Rightarrow> string \<Rightarrow> int \<Rightarrow> OrchestratorResult res" where
  "out_of_order_result now cid seq =
     (case require_ws_close_code SEQUENCE_OUT_OF_ORDER of
        Inl e \<Rightarrow> Inl e
      | Inr _ \<Rightarrow> (case format_details SEQUENCE_OUT_OF_ORDER [(''sequence_number'', FInt seq)] of
          Inl e \<Rightarrow> Inl e
        | Inr details \<Rightarrow> error_result SEQUENCE_OUT_OF_ORDER now cid details
            (finalize_timings [''validate_ms'', ''prepare_ms''])))"

definition send_failure :: "string \<Rightarrow> string \<Rightarrow> exn \<Rightarrow> OrchestratorResult res" where
  "send_failure now cid e =
     (let timings = finalize_timings [''validate_ms'', ''prepare_ms'', ''kafka_send_ms''] in
      case e of
        TimeoutError _ \<Rightarrow> error_result DOWNSTREAM_TIMEOUT now cid None timings
      | _ \<Rightarrow> error_result DOWNSTREAM_UNAVAILABLE now cid (Some (take MAX_ERROR_MESSAGE_LEN (exn_str e))) timings)"

definition complete_result :: "string \<Rightarrow> string \<Rightarrow> int \<Rightarrow> OrchestratorResult" where
  "complete_result now cid seq =
     \<lparr>response = build_success_ack now cid seq SESSION_COMPLETE, disconnect = True, close_code = 1000,
      timings_ms = finalize_timings [''validate_ms'', ''prepare_ms'', ''kafka_send_ms'', ''redis_commit_ms'',
        ''cleanup_ms'', ''ack_build_ms'']\<rparr>"

definition ongoing_result :: "string \<Rightarrow> string \<Rightarrow> int \<Rightarrow> OrchestratorResult" where
  "ongoing_result now cid seq =
     \<lparr>response = build_success_ack now cid seq SESSION_ONGOING, disconnect = False, close_code = 1000,
      timings_ms = finalize_timings [''validate_ms'', ''prepare_ms'', ''kafka_send_ms'', ''redis_commit_ms'',
        ''ack_build_ms'']\<rparr>"

text \<open>The steps after the pre-check has accepted: publish, commit, and for the last message clean up.\<close>

definition publish_and_commit ::
  "pydantic \<Rightarrow> 's seq_ops \<Rightarrow> 'k producer_ops \<Rightarrow> string \<Rightarrow> string \<Rightarrow> json \<Rightarrow> InboundMessage
    \<Rightarrow> ('s \<times> 'k, OrchestratorResult) io" where
  "publish_and_commit P S K now produced_at raw_json msg w =
     (let cid = conversationId (metaData msg); seq = sequenceNumber (payload msg);
          event_type = eventType (metaData msg); (s0, k0) = w in
      if \<not> is_dict raw_json then (Inl (AssertionError []), w)
      else (case p_send K cid (to_kafka_payload P produced_at msg raw_json) k0 of
          (Inl e, k1) \<Rightarrow> (send_failure now cid e, (s0, k1))
        | (Inr _, k1) \<Rightarrow>
            (case sm_commit S cid seq s0 of
               (Inl e, s1) \<Rightarrow> (Inl e, (s1, k1))
             | (Inr _, s1) \<Rightarrow>
                 (if event_type = SESSION_COMPLETE
                  then (case sm_cleanup S cid s1 of (_, s2) \<Rightarrow> (Inr (complete_result now cid seq), (s2, k1)))
                  else (Inr (ongoing_result now cid seq), (s1, k1))))))"

definition process ::
  "pydantic \<Rightarrow> 's seq_ops \<Rightarrow> 'k producer_ops \<Rightarrow> string \<Rightarrow> string \<Rightarrow> json \<Rightarrow> string
    \<Rightarrow> ('s \<times> 'k, OrchestratorResult) io" where
  "process P S K now produced_at raw_json conversation_id w =
     (case model_validate P raw_json of
        Inl es \<Rightarrow> (validation_failure P now conversation_id es, w)
      | Inr msg \<Rightarrow>
          (let cid = conversationId (metaData msg); seq = sequenceNumber (payload msg);
               event_type = eventType (metaData msg); (s0, k0) = w in
           case sm_prepare S cid seq s0 of
             (Inl e, s1) \<Rightarrow> (Inl e, (s1, k0))
           | (Inr prep, s1) \<Rightarrow>
               (if status prep = IDEMPOTENT then (Inr (idempotent_result now cid seq event_type), (s1, k0))
                else if status prep = OUT_OF_ORDER then (out_of_order_result now cid seq, (s1, k0))
                else publish_and_commit P S K now produced_at raw_json msg (s1, k0))))"

text \<open>The conversation that an error response names: the one in the body, if it is a string.\<close>

definition response_conversation :: "json \<Rightarrow> string \<Rightarrow> string" where
  "response_conversation raw_json conversation_id =
     (case raw_json of
        JObj d \<Rightarrow> (case dict_get d ''metaData'' of
            JObj m \<Rightarrow> (case dict_get m ''conversationId'' of JStr c \<Rightarrow> c | _ \<Rightarrow> conversation_id)
          | _ \<Rightarrow> conversation_id)
      | _ \<Rightarrow> conversation_id)"

definition handle_message ::
  "pydantic \<Rightarrow> 's seq_ops \<Rightarrow> 'k producer_ops \<Rightarrow> string \<Rightarrow> string \<Rightarrow> json \<Rightarrow> string
    \<Rightarrow> ('s \<times> 'k, OrchestratorResult) io" where
  "handle_message P S K now produced_at raw_json conversation_id0 w =
     (let conversation_id = response_conversation raw_json conversation_id0 in
      case process P S K now produced_at raw_json conversation_id w of
        (Inr result, w1) \<Rightarrow> (Inr result, w1)
      | (Inl exc, w1) \<Rightarrow>
          (error_result ORCHESTRATOR_INTERNAL_EXCEPTION now conversation_id
             (Some (take MAX_ERROR_MESSAGE_LEN (exn_str exc))) [''orchestrator_ms''], w1))"

section \<open>Results\<close>

definition error_outcome :: "ProtocolErrorScenario \<Rightarrow> string \<Rightarrow> string \<Rightarrow> string option \<Rightarrow> string list \<Rightarrow> OrchestratorResult" where
  "error_outcome s now cid details timings =
     \<lparr>response = error_frame s now cid details, disconnect = True,
      close_code = ws_code (close_code_for_error (scenario_error_code s)), timings_ms = timings\<rparr>"

text \<open>The scenarios of an established session: they have a close code, the one of their error code.\<close>

definition session_scenario :: "ProtocolErrorScenario \<Rightarrow> bool" where
  "session_scenario s \<longleftrightarrow> s \<in> {INVALID_JSON, INVALID_ENUM_VALUE, MISSING_REQUIRED_FIELD, INVALID_FIELD_TYPE,
     INVALID_TIMESTAMP_FORMAT, SEQUENCE_OUT_OF_ORDER, ORCHESTRATOR_INTERNAL_EXCEPTION,
     DOWNSTREAM_UNAVAILABLE, DOWNSTREAM_TIMEOUT, BUSINESS_RULE_VIOLATION}"

lemma session_close_code:
  "session_scenario s \<Longrightarrow> require_ws_close_code s = Inr (close_code_for_error (scenario_error_code s))"
  by (auto simp: session_scenario_def require_ws_close_code_def scenario_error_code_def close_code_for_error_def)

lemma error_result_session:
  assumes "session_scenario s" "d \<noteq> None \<or> \<not> needs_arguments s"
  shows "error_result s now cid d ts = Inr (error_outcome s now cid d ts)"
  using assms by (auto simp: error_result_def error_outcome_def session_close_code build_response_frame)

lemma classify_session: "session_scenario (classify_validation_error es)"
  using classify_range [of es] by (auto simp: session_scenario_def)

lemma validation_failure_outcome:
  "validation_failure P now cid es = Inr (error_outcome (classify_validation_error es) now cid
     (Some (take MAX_ERROR_DETAILS_LEN (pyd_error_str P es))) (finalize_timings [''validate_ms'']))"
  by (simp add: validation_failure_def logged_error_result_def session_close_code classify_session error_result_session)

lemma out_of_order_outcome:
  "out_of_order_result now cid seq = Inr (error_outcome SEQUENCE_OUT_OF_ORDER now cid
     (Some (''sequenceNumber='' @ str_of_int seq @ '' is not expected''))
     (finalize_timings [''validate_ms'', ''prepare_ms'']))"
proof -
  have s: "session_scenario SEQUENCE_OUT_OF_ORDER" by (simp add: session_scenario_def)
  show ?thesis
    by (simp add: out_of_order_result_def format_details_sequence session_close_code [OF s] error_result_session [OF s])
qed

lemma send_failure_outcome:
  "\<exists>s d ts. session_scenario s \<and> send_failure now cid e = Inr (error_outcome s now cid d ts)
    \<and> s \<in> {DOWNSTREAM_TIMEOUT, DOWNSTREAM_UNAVAILABLE} \<and> (case d of None \<Rightarrow> True | Some t \<Rightarrow> length t \<le> MAX_ERROR_MESSAGE_LEN)"
proof (cases "\<exists>m. e = TimeoutError m")
  case True
  then show ?thesis
    by (intro exI [of _ DOWNSTREAM_TIMEOUT] exI [of _ None])
      (auto simp: send_failure_def session_scenario_def error_result_session needs_arguments_def)
next
  case False
  then have "send_failure now cid e = Inr (error_outcome DOWNSTREAM_UNAVAILABLE now cid
      (Some (take MAX_ERROR_MESSAGE_LEN (exn_str e))) (finalize_timings [''validate_ms'', ''prepare_ms'', ''kafka_send_ms'']))"
    by (cases e) (simp_all add: send_failure_def session_scenario_def error_result_session Let_def)
  then show ?thesis
    by (intro exI [of _ DOWNSTREAM_UNAVAILABLE] exI [of _ "Some (take MAX_ERROR_MESSAGE_LEN (exn_str e))"])
      (auto simp: session_scenario_def)
qed

lemma internal_outcome:
  "error_result ORCHESTRATOR_INTERNAL_EXCEPTION now cid (Some d) ts =
     Inr (error_outcome ORCHESTRATOR_INTERNAL_EXCEPTION now cid (Some d) ts)"
  by (simp add: error_result_session session_scenario_def)

text \<open>The paths of \<open>handle_message\<close>.\<close>

abbreviation internal_error :: "string \<Rightarrow> string \<Rightarrow> exn \<Rightarrow> OrchestratorResult" where
  "internal_error now cid e \<equiv> error_outcome ORCHESTRATOR_INTERNAL_EXCEPTION now cid
     (Some (take MAX_ERROR_MESSAGE_LEN (exn_str e))) [''orchestrator_ms'']"

lemma model_validate_dict: "model_validate P j = Inr m \<Longrightarrow> is_dict j"
  by (cases j) (auto simp: model_validate_def is_dict_def)

lemma handle_cases [consumes 1, case_names invalid unprepared replay gap unsent uncommitted completed continued]:
  assumes run: "handle_message P S K now at_ts raw cid0 (s, k) = (r, s', k')"
  obtains
    (invalid) es c where "model_validate P raw = Inl es" "s' = s" "k' = k"
      "r = Inr (error_outcome (classify_validation_error es) now c
         (Some (take MAX_ERROR_DETAILS_LEN (pyd_error_str P es))) (finalize_timings [''validate_ms'']))"
      "c = response_conversation raw cid0"
  | (unprepared) m e c where "model_validate P raw = Inr m" "k' = k"
      "sm_prepare S (conversationId (metaData m)) (sequenceNumber (payload m)) s = (Inl e, s')"
      "r = Inr (internal_error now c e)" "c = response_conversation raw cid0"
  | (replay) m prep where "model_validate P raw = Inr m" "k' = k" "status prep = IDEMPOTENT"
      "sm_prepare S (conversationId (metaData m)) (sequenceNumber (payload m)) s = (Inr prep, s')"
      "r = Inr (idempotent_result now (conversationId (metaData m)) (sequenceNumber (payload m)) (eventType (metaData m)))"
  | (gap) m prep where "model_validate P raw = Inr m" "k' = k" "status prep = OUT_OF_ORDER"
      "sm_prepare S (conversationId (metaData m)) (sequenceNumber (payload m)) s = (Inr prep, s')"
      "r = Inr (error_outcome SEQUENCE_OUT_OF_ORDER now (conversationId (metaData m))
         (Some (''sequenceNumber='' @ str_of_int (sequenceNumber (payload m)) @ '' is not expected''))
         (finalize_timings [''validate_ms'', ''prepare_ms'']))"
  | (unsent) m prep e where "model_validate P raw = Inr m" "status prep = PRE_CHECK_OK"
      "sm_prepare S (conversationId (metaData m)) (sequenceNumber (payload m)) s = (Inr prep, s')"
      "p_send K (conversationId (metaData m)) (to_kafka_payload P at_ts m raw) k = (Inl e, k')"
      "r = send_failure now (conversationId (metaData m)) e"
  | (uncommitted) m prep s1 u e c where "model_validate P raw = Inr m" "status prep = PRE_CHECK_OK"
      "sm_prepare S (conversationId (metaData m)) (sequenceNumber (payload m)) s = (Inr prep, s1)"
      "p_send K (conversationId (metaData m)) (to_kafka_payload P at_ts m raw) k = (Inr u, k')"
      "sm_commit S (conversationId (metaData m)) (sequenceNumber (payload m)) s1 = (Inl e, s')"
      "r = Inr (internal_error now c e)" "c = response_conversation raw cid0"
  | (completed) m prep s1 u s2 v rc where "model_validate P raw = Inr m" "status prep = PRE_CHECK_OK"
      "eventType (metaData m) = SESSION_COMPLETE"
      "sm_prepare S (conversationId (metaData m)) (sequenceNumber (payload m)) s = (Inr prep, s1)"
      "p_send K (conversationId (metaData m)) (to_kafka_payload P at_ts m raw) k = (Inr u, k')"
      "sm_commit S (conversationId (metaData m)) (sequenceNumber (payload m)) s1 = (Inr v, s2)"
      "sm_cleanup S (conversationId (metaData m)) s2 = (rc, s')"
      "r = Inr (complete_result now (conversationId (metaData m)) (sequenceNumber (payload m)))"
  | (continued) m prep s1 u v where "model_validate P raw = Inr m" "status prep = PRE_CHECK_OK"
      "eventType (metaData m) = SESSION_ONGOING"
      "sm_prepare S (conversationId (metaData m)) (sequenceNumber (payload m)) s = (Inr prep, s1)"
      "p_send K (conversationId (metaData m)) (to_kafka_payload P at_ts m raw) k = (Inr u, k')"
      "sm_commit S (conversationId (metaData m)) (sequenceNumber (payload m)) s1 = (Inr v, s')"
      "r = Inr (ongoing_result now (conversationId (metaData m)) (sequenceNumber (payload m)))"
proof (cases "model_validate P raw")
  case (Inl es)
  then show thesis using run by (intro invalid) (auto simp: handle_message_def process_def validation_failure_outcome)
next
  case m: (Inr m)
  let ?cid = "conversationId (metaData m)" and ?n = "sequenceNumber (payload m)"
  note d = model_validate_dict [OF m]
  obtain rp s1 where p: "sm_prepare S ?cid ?n s = (rp, s1)" by fastforce
  show thesis
  proof (cases rp)
    case (Inl e)
    then show thesis using run m p by (intro unprepared) (auto simp: handle_message_def process_def internal_outcome Let_def)
  next
    case rp: (Inr prep)
    show thesis
    proof (cases "status prep")
      case IDEMPOTENT
      then show thesis using run m p rp by (intro replay) (auto simp: handle_message_def process_def Let_def)
    next
      case OUT_OF_ORDER
      then show thesis using run m p rp
        by (intro gap) (auto simp: handle_message_def process_def out_of_order_outcome Let_def)
    next
      case ok: PRE_CHECK_OK
      have run': "(case publish_and_commit P S K now at_ts raw m (s1, k) of
            (Inr x, w1) \<Rightarrow> (Inr x, w1)
          | (Inl e, w1) \<Rightarrow> (Inr (internal_error now (response_conversation raw cid0) e), w1)) = (r, s', k')"
        using run m p rp ok by (auto simp: handle_message_def process_def internal_outcome Let_def split: prod.splits sum.splits)
      obtain rs k1 where sd: "p_send K ?cid (to_kafka_payload P at_ts m raw) k = (rs, k1)" by fastforce
      show thesis
      proof (cases rs)
        case (Inl e)
        obtain x where x: "send_failure now ?cid e = Inr x" using send_failure_outcome by metis
        then show thesis using run' p rp ok sd Inl d m
          by (intro unsent) (auto simp: publish_and_commit_def Let_def)
      next
        case rs: (Inr u)
        obtain rc s2 where c: "sm_commit S ?cid ?n s1 = (rc, s2)" by fastforce
        show thesis
        proof (cases rc)
          case (Inl e)
          then show thesis using run' p rp ok sd rs c d m
            by (intro uncommitted) (auto simp: publish_and_commit_def Let_def)
        next
          case rc: (Inr v)
          show thesis
          proof (cases "eventType (metaData m)")
            case SESSION_COMPLETE
            then show thesis using run' p rp ok sd rs c rc d m
              by (cases "sm_cleanup S ?cid s2") (auto simp: publish_and_commit_def Let_def intro: completed)
          next
            case SESSION_ONGOING
            then show thesis using run' p rp ok sd rs c rc d m
              by (intro continued) (auto simp: publish_and_commit_def Let_def)
          qed
        qed
      qed
    qed
  qed
qed

section \<open>Properties\<close>

text \<open>
  The contract of an answer: an acknowledgement of a transcript keeps the connection; an
  acknowledgement of the end of the session closes it with 1000; an error closes it with the close code
  of its error code.
\<close>

definition consistent_answer :: "OrchestratorResult \<Rightarrow> bool" where
  "consistent_answer res \<longleftrightarrow>
     (meta_event_type (response res) = JStr ''TRANSCRIPT_ACK'' \<and> \<not> disconnect res)
   \<or> (meta_event_type (response res) = JStr ''EOL_ACK'' \<and> disconnect res \<and> close_code res = ws_code NORMAL)
   \<or> (\<exists>c. meta_event_type (response res) = JStr ''ERROR'' \<and> disconnect res
        \<and> response_code (response res) = JStr (error_code_value c)
        \<and> close_code res = ws_code (close_code_for_error c))"

text \<open>The details are cut at 2048 characters, but for the message that repeats a sequence number.\<close>

definition bounded_details :: "OrchestratorResult \<Rightarrow> bool" where
  "bounded_details res \<longleftrightarrow> (case response_details (response res) of None \<Rightarrow> True
     | Some d \<Rightarrow> length d \<le> MAX_ERROR_DETAILS_LEN \<or> (\<exists>n. d = ''sequenceNumber='' @ str_of_int n @ '' is not expected''))"

lemma consistent_ack: "consistent_answer \<lparr>response = build_success_ack now cid n evt,
    disconnect = (evt = SESSION_COMPLETE), close_code = 1000, timings_ms = ts\<rparr>
  \<and> bounded_details \<lparr>response = build_success_ack now cid n evt,
    disconnect = (evt = SESSION_COMPLETE), close_code = 1000, timings_ms = ts\<rparr>"
  by (simp add: consistent_answer_def bounded_details_def build_success_ack_def build_eol_ack_def build_transcript_ack_def)

lemma consistent_error:
  assumes "case d of None \<Rightarrow> True | Some t \<Rightarrow> length t \<le> MAX_ERROR_DETAILS_LEN"
  shows "consistent_answer (error_outcome s now cid d ts) \<and> bounded_details (error_outcome s now cid d ts)"
  using assms scenario_lengths [of s]
  by (auto simp: consistent_answer_def bounded_details_def error_outcome_def error_frame_def split: option.splits)


text \<open>
  Once the last message of a session is published and committed, the answer is the acknowledgement
  of the end of the session with close code 1000, also when the cleanup that follows fails.
\<close>

theorem cleanup_failure_still_acknowledged:
  assumes "model_validate P raw = Inr m" and "eventType (metaData m) = SESSION_COMPLETE"
    and "sm_prepare S (conversationId (metaData m)) (sequenceNumber (payload m)) s = (Inr prep, sa)" "status prep = PRE_CHECK_OK"
    and "p_send K (conversationId (metaData m)) (to_kafka_payload P at_ts m raw) k = (Inr u, kk)"
    and "sm_commit S (conversationId (metaData m)) (sequenceNumber (payload m)) sa = (Inr v, sb)"
    and "sm_cleanup S (conversationId (metaData m)) sb = (rc, sc)"
  shows "handle_message P S K now at_ts raw cid (s, k) =
      (Inr (complete_result now (conversationId (metaData m)) (sequenceNumber (payload m))), sc, kk)
    \<and> meta_event_type (response (complete_result now (conversationId (metaData m)) (sequenceNumber (payload m)))) = JStr ''EOL_ACK''"
  using assms model_validate_dict [OF assms(1)]
  by (simp add: handle_message_def process_def publish_and_commit_def complete_result_def build_success_ack_def
      build_eol_ack_def)

definition cleanup_fails :: "unit seq_ops" where
  "cleanup_fails = \<lparr>sm_prepare = (\<lambda>c n s. (Inr \<lparr>status = PRE_CHECK_OK, expected_sequence = Some n\<rparr>, s)),
     sm_commit = (\<lambda>c n s. (Inr (), s)), sm_cleanup = (\<lambda>c s. (Inl (OtherError ''Connection lost''), s)),
     sm_close = (\<lambda>s. (Inr (), s))\<rparr>"

theorem cleanup_failure_still_acknowledged_witness:
  "fst (handle_message strict_pydantic cleanup_fails (kafka_backend server_kafka numbering_orjson) ''now'' ''then''
      (sample_complete ''c1'' 4) ''c1'' ((), sample_producer, empty_kafka [])) = Inr (complete_result ''now'' ''c1'' 4)"
proof -
  obtain u kk where sent: "p_send (kafka_backend server_kafka numbering_orjson) ''c1''
      (to_kafka_payload strict_pydantic ''then'' (complete_message ''c1'' 4) (sample_complete ''c1'' 4))
      (sample_producer, empty_kafka []) = (Inr u, kk)"
    by (simp add: kafka_backend_def kafka_send_def get_producer.simps sample_producer_def server_kafka_def
        server_send_def server_flush_def empty_kafka_def numbering_orjson_def Let_def)
  show ?thesis
    using cleanup_failure_still_acknowledged [where K = "kafka_backend server_kafka numbering_orjson" and S = cleanup_fails
        and m = "complete_message ''c1'' 4" and kk = kk and u = u, OF sample_complete_valid] sent
    by (simp add: cleanup_fails_def complete_message_def)
qed

end
