(* ===== verification/Delivery.thy ===== *)
theory Delivery
  imports Orchestrator
begin

text \<open>
  What the service guarantees about Kafka: for each conversation the topic holds its messages in order
  and without gaps, and every acknowledged message is there. The locale \<open>orchestration\<close> has the
  orchestrator over any sequence state machine and any producer that meet the contracts of \<open>Protocols\<close>; its
  lemmas are about any run of the service, with every failure the contracts allow. The properties at
  the end are for the program's own classes over Redis and aiokafka.
\<close>

section \<open>Logs\<close>

text \<open>The sequence numbers published for a conversation, in the order of the topic.\<close>

fun record_seq :: "string \<Rightarrow> string \<times> dict \<Rightarrow> int list" where
  "record_seq c (key, d) = (if key = c then (case message_seq d of None \<Rightarrow> [] | Some n \<Rightarrow> [n]) else [])"

definition conversation_log :: "string \<Rightarrow> (string \<times> dict) list \<Rightarrow> int list" where
  "conversation_log c ds = concat (map (record_seq c) ds)"

text \<open>A log without gaps: before a number is first published, every smaller one has been.\<close>

definition gap_free :: "int list \<Rightarrow> bool" where
  "gap_free ns \<longleftrightarrow> (\<forall>i < length ns. \<forall>m. 0 \<le> m \<and> m < ns ! i \<longrightarrow> m \<in> set (take i ns))"

definition covers :: "int list \<Rightarrow> int \<Rightarrow> bool" where
  "covers ns n \<longleftrightarrow> (\<forall>m. 0 \<le> m \<and> m < n \<longrightarrow> m \<in> set ns)"

lemma conversation_log_simps [simp]:
  "conversation_log c [] = []"
  "conversation_log c (xs @ ys) = conversation_log c xs @ conversation_log c ys"
  "conversation_log c (x # xs) = record_seq c x @ conversation_log c xs"
  by (simp_all add: conversation_log_def)

lemma record_seq_set: "n \<in> set (record_seq c x) \<longleftrightarrow> fst x = c \<and> message_seq (snd x) = Some n"
  by (cases x; cases "fst x = c"; cases "message_seq (snd x)") auto

lemma conversation_log_set:
  "n \<in> set (conversation_log c ds) \<longleftrightarrow> (\<exists>d. (c, d) \<in> set ds \<and> message_seq d = Some n)"
proof -
  have "n \<in> set (conversation_log c ds) \<longleftrightarrow> (\<exists>x\<in>set ds. n \<in> set (record_seq c x))"
    by (simp add: conversation_log_def)
  then show ?thesis by (simp only: record_seq_set) force
qed

lemma covers_append: "covers ns n \<Longrightarrow> covers (ns @ ms) n"
  by (auto simp: covers_def)

lemma covers_step: "covers ns n \<Longrightarrow> n \<in> set ns \<Longrightarrow> covers ns (n + 1)"
  by (auto simp: covers_def) (metis order_le_less)

lemma covers_0 [simp]: "covers ns 0"
  by (auto simp: covers_def)

lemma gap_free_Nil [simp]: "gap_free []"
  by (simp add: gap_free_def)

lemma gap_free_snoc: "gap_free (ns @ [n]) \<longleftrightarrow> gap_free ns \<and> covers ns n"
  by (auto simp: gap_free_def covers_def nth_append less_Suc_eq)

lemma gap_free_append:
  assumes "gap_free ns" and "\<And>n. n \<in> set ms \<Longrightarrow> covers ns n"
  shows "gap_free (ns @ ms)"
  using assms
proof (induction ms rule: rev_induct)
  case (snoc m ms)
  then have "gap_free (ns @ ms)" by simp
  moreover have "covers (ns @ ms) m" using snoc.prems by (intro covers_append) simp
  ultimately have "gap_free ((ns @ ms) @ [m])" by (simp only: gap_free_snoc simp_thms)
  then show ?case by simp
qed simp

section \<open>Acknowledgements\<close>

text \<open>The conversation and number that a positive response acknowledges.\<close>

definition acknowledges :: "dict \<Rightarrow> string \<Rightarrow> int \<Rightarrow> bool" where
  "acknowledges resp c n \<longleftrightarrow>
     (meta_event_type resp = JStr ''TRANSCRIPT_ACK'' \<or> meta_event_type resp = JStr ''EOL_ACK'')
     \<and> message_conversation resp = Some c \<and> message_seq resp = Some n"

lemma build_ack_facts:
  "message_conversation (build_success_ack now c n evt) = Some c"
  "message_seq (build_success_ack now c n evt) = Some n"
  "meta_event_type (build_success_ack now c n evt) =
     JStr (if evt = SESSION_COMPLETE then ''EOL_ACK'' else ''TRANSCRIPT_ACK'')"
  by (simp_all add: build_success_ack_def build_eol_ack_def build_transcript_ack_def build_success_response_def
      message_conversation_def message_seq_def meta_event_type_def)

lemma acknowledges_ack: "acknowledges (build_success_ack now c n evt) c' n' \<longleftrightarrow> c' = c \<and> n' = n"
  by (auto simp: acknowledges_def build_ack_facts)

lemma error_not_ack: "\<not> acknowledges (response (error_outcome s now cid d ts)) c n"
  by (simp add: acknowledges_def error_outcome_def)

lemma send_failure_error: "send_failure now cid e = Inr res \<Longrightarrow>
   \<exists>s d ts. session_scenario s \<and> res = error_outcome s now cid d ts \<and> s \<in> {DOWNSTREAM_TIMEOUT, DOWNSTREAM_UNAVAILABLE}"
  using send_failure_outcome [of now cid e] by auto

section \<open>The orchestrator over its contracts\<close>

locale orchestration = sequence_backend S ok expected + producer_backend K kok delivered pending
  for S :: "'s seq_ops" and ok :: "'s \<Rightarrow> bool" and expected :: "string \<Rightarrow> 's \<Rightarrow> int"
    and K :: "'k producer_ops" and kok :: "'k \<Rightarrow> bool"
    and delivered :: "'k \<Rightarrow> (string \<times> dict) list" and pending :: "'k \<Rightarrow> (string \<times> dict) set" +
  fixes P :: pydantic
  assumes pydantic: "pydantic_ok P"

text \<open>
  A run of the service, with the number of messages handled so far. Between messages a counter may
  expire and messages in flight may arrive at the topic.
\<close>

inductive service_run ::
  "'s seq_ops \<Rightarrow> 'k producer_ops \<Rightarrow> pydantic \<Rightarrow> ('s \<Rightarrow> bool) \<Rightarrow> (string \<Rightarrow> 's \<Rightarrow> int) \<Rightarrow> ('k \<Rightarrow> bool)
    \<Rightarrow> ('k \<Rightarrow> (string \<times> dict) list) \<Rightarrow> ('k \<Rightarrow> (string \<times> dict) set) \<Rightarrow> 's \<Rightarrow> 'k \<Rightarrow> nat \<Rightarrow> 's \<Rightarrow> 'k \<Rightarrow> bool"
  for S K P ok expected kok delivered pending s0 k0 where
  start: "service_run S K P ok expected kok delivered pending s0 k0 0 s0 k0"
| handled: "service_run S K P ok expected kok delivered pending s0 k0 i s k \<Longrightarrow>
    handle_message P S K now at_ts raw cid (s, k) = (r, s', k') \<Longrightarrow>
    service_run S K P ok expected kok delivered pending s0 k0 (Suc i) s' k'"
| expired: "service_run S K P ok expected kok delivered pending s0 k0 i s k \<Longrightarrow>
    ok s' \<Longrightarrow> (\<forall>c. expected c s' = expected c s \<or> expected c s' = 0) \<Longrightarrow>
    service_run S K P ok expected kok delivered pending s0 k0 i s' k"
| arrived_late: "service_run S K P ok expected kok delivered pending s0 k0 i s k \<Longrightarrow>
    kok k' \<Longrightarrow> pending k' \<subseteq> pending k \<Longrightarrow> set late \<subseteq> pending k \<Longrightarrow> delivered k' = delivered k @ late \<Longrightarrow>
    service_run S K P ok expected kok delivered pending s0 k0 i s k'"

definition delivery_inv ::
  "(string \<Rightarrow> 's \<Rightarrow> int) \<Rightarrow> ('k \<Rightarrow> (string \<times> dict) list) \<Rightarrow> ('k \<Rightarrow> (string \<times> dict) set) \<Rightarrow> 's \<Rightarrow> 'k \<Rightarrow> bool" where
  "delivery_inv expected delivered pending s k \<longleftrightarrow> (\<forall>c.
     gap_free (conversation_log c (delivered k))
     \<and> covers (conversation_log c (delivered k)) (expected c s)
     \<and> (\<forall>d n. (c, d) \<in> pending k \<longrightarrow> message_seq d = Some n \<longrightarrow> covers (conversation_log c (delivered k)) n))"

text \<open>Late arrivals and a counter that moves only over published numbers keep the invariant.\<close>

lemma delivery_inv_late:
  assumes inv: "delivery_inv expected delivered pending s k"
    and late: "set late \<subseteq> pending k" "delivered k' = delivered k @ late"
    and pend: "\<And>c d n. (c, d) \<in> pending k' \<Longrightarrow> message_seq d = Some n \<Longrightarrow>
      (c, d) \<in> pending k \<or> covers (conversation_log c (delivered k)) n"
    and ex: "\<And>c. covers (conversation_log c (delivered k)) (expected c s')"
  shows "delivery_inv expected delivered pending s' k'"
  unfolding delivery_inv_def
proof (intro allI conjI impI)
  fix c
  let ?L = "conversation_log c (delivered k)"
  have i: "gap_free ?L" "\<And>d n. (c, d) \<in> pending k \<Longrightarrow> message_seq d = Some n \<Longrightarrow> covers ?L n"
    using inv by (auto simp: delivery_inv_def)
  show "gap_free (conversation_log c (delivered k'))"
    unfolding late(2) conversation_log_simps
    by (rule gap_free_append [OF i(1)]) (use i(2) late(1) in \<open>auto simp: conversation_log_set\<close>)
  show "covers (conversation_log c (delivered k')) (expected c s')"
    using ex [of c] by (simp add: late(2) covers_append)
  show "covers (conversation_log c (delivered k')) n" if "(c, d) \<in> pending k'" "message_seq d = Some n" for d n
    using pend [OF that] i(2) that by (auto simp: late(2) intro: covers_append)
qed

context orchestration
begin

lemma accepted_facts:
  assumes "model_validate P raw = Inr m"
  shows "0 \<le> sequenceNumber (payload m)"
proof -
  obtain v where "pyd_int_ge P 0 v = Inr (sequenceNumber (payload m))"
    by (rule model_validate_sequence [OF assms])
  then show ?thesis using pydantic_int [OF pydantic] by blast
qed

text \<open>A message that passes the pre-check has the expected number.\<close>

lemma prechecked:
  assumes "ok s" and "\<And>c. expected c s < exact_limit" and "model_validate P raw = Inr m"
    and "sm_prepare S (conversationId (metaData m)) (sequenceNumber (payload m)) s = (Inr prep, s1)"
    and "status prep = PRE_CHECK_OK"
  shows "sequenceNumber (payload m) = expected (conversationId (metaData m)) s" and "ok s1"
    and "\<And>c. expected c s1 = expected c s"
proof -
  have "sequence_status (sequenceNumber (payload m)) (expected (conversationId (metaData m)) s) = PRE_CHECK_OK"
    using prepare_status [OF assms(1) accepted_facts [OF assms(3)] assms(2) assms(4)] assms(5) by simp
  then show "sequenceNumber (payload m) = expected (conversationId (metaData m)) s"
    by (simp add: sequence_status_def split: if_splits)
  show "ok s1" and "\<And>c. expected c s1 = expected c s" using prepare_frame [OF assms(1,4)] by blast+
qed

text \<open>
  The effect of one message on the counters and the topic. Either nothing moves, or the message has the
  expected number: then it was handed to Kafka, and the counter moved only if Kafka confirmed it.
\<close>

lemma handle_effect:
  assumes run: "handle_message P S K now at_ts raw cid0 (s, k) = (r, s', k')"
    and inv: "ok s" "kok k" and small: "\<And>c. expected c s < exact_limit"
  obtains (quiet) "ok s'" "k' = k" "\<And>c. expected c s' = expected c s"
  | (published) m n where "ok s'" "kok k'" "model_validate P raw = Inr m" "n = expected (conversationId (metaData m)) s"
      "sequenceNumber (payload m) = n" "\<And>c. c \<noteq> conversationId (metaData m) \<Longrightarrow> expected c s' = expected c s"
      "expected (conversationId (metaData m)) s' = n + 1 \<or> expected (conversationId (metaData m)) s' = n"
      "pending k' \<subseteq> pending k"
      "\<exists>late. set late \<subseteq> pending k \<and> delivered k' = delivered k @ late @ [(conversationId (metaData m), to_kafka_payload P at_ts m raw)]"
  | (uncertain) m n where "ok s'" "kok k'" "model_validate P raw = Inr m" "n = expected (conversationId (metaData m)) s"
      "sequenceNumber (payload m) = n" "\<And>c. expected c s' = expected c s"
      "pending k' \<subseteq> insert (conversationId (metaData m), to_kafka_payload P at_ts m raw) (pending k)"
      "\<exists>late. set late \<subseteq> insert (conversationId (metaData m), to_kafka_payload P at_ts m raw) (pending k)
        \<and> delivered k' = delivered k @ late"
  using run
proof (cases rule: handle_cases)
  case (invalid es c)
  then show ?thesis using inv by (intro quiet) auto
next
  case (unprepared m e c)
  then show ?thesis using prepare_frame [OF inv(1)] by (intro quiet) blast+
next
  case (replay m prep)
  then show ?thesis using prepare_frame [OF inv(1)] by (intro quiet) blast+
next
  case (gap m prep)
  then show ?thesis using prepare_frame [OF inv(1)] by (intro quiet) blast+
next
  case (unsent m prep e)
  let ?cid = "conversationId (metaData m)"
  note pre = prechecked [OF inv(1) small unsent(1) unsent(3) unsent(2)]
  show ?thesis
    using unsent pre send_raised [OF inv(2) unsent(4)]
    by (intro uncertain [of m "expected ?cid s"]) auto
next
  case (uncommitted m prep s1 u e c)
  let ?cid = "conversationId (metaData m)"
  note pre = prechecked [OF inv(1) small uncommitted(1) uncommitted(3) uncommitted(2)]
  show ?thesis
    using uncommitted pre send_returned [OF inv(2) uncommitted(4)] small [of ?cid] expected_nonneg [OF inv(1), of ?cid]
      commit_frame [OF pre(2) _ uncommitted(5)] commit_counter [OF pre(2) _ _ uncommitted(5)]
    by (intro published [of m "expected ?cid s"]) auto
next
  case (completed m prep s1 u s2 v rc)
  let ?cid = "conversationId (metaData m)"
  note pre = prechecked [OF inv(1) small completed(1) completed(4) completed(2)]
  have c: "ok s2 \<and> (c \<noteq> ?cid \<longrightarrow> expected c s2 = expected c s1)" "expected ?cid s2 = expected ?cid s + 1" for c
    using commit_frame [OF pre(2) _ completed(6)] commit_counter [OF pre(2) _ _ completed(6)] pre small [of ?cid]
      expected_nonneg [OF inv(1), of ?cid] by auto
  have s2: "ok s'" "\<And>c. expected c s' = expected c s2" using cleanup_frame [OF c(1) [THEN conjunct1] completed(7)] by blast+
  show ?thesis
    using completed pre s2 c send_returned [OF inv(2) completed(5)]
    by (intro published [of m "expected ?cid s"]) auto
next
  case (continued m prep s1 u v)
  let ?cid = "conversationId (metaData m)"
  note pre = prechecked [OF inv(1) small continued(1) continued(4) continued(2)]
  have c: "ok s' \<and> (c \<noteq> ?cid \<longrightarrow> expected c s' = expected c s1)" "expected ?cid s' = expected ?cid s + 1" for c
    using commit_frame [OF pre(2) _ continued(6)] commit_counter [OF pre(2) _ _ continued(6)] pre small [of ?cid]
      expected_nonneg [OF inv(1), of ?cid] by auto
  show ?thesis
    using continued pre c send_returned [OF inv(2) continued(5)]
    by (intro published [of m "expected ?cid s"]) auto
qed

text \<open>Every number that is published stays behind the counter of its conversation.\<close>

lemma delivery_inv_handle:
  assumes run: "handle_message P S K now at_ts raw cid0 (s, k) = (r, s', k')"
    and ok: "ok s" "kok k" and small: "\<And>c. expected c s < exact_limit"
    and inv: "delivery_inv expected delivered pending s k"
  shows "ok s' \<and> kok k' \<and> delivery_inv expected delivered pending s' k'
    \<and> (\<forall>c. expected c s' \<le> expected c s + 1)"
  using run ok small
proof (cases rule: handle_effect)
  case quiet
  then show ?thesis using ok inv by (simp add: delivery_inv_def)
next
  case (uncertain m n)
  let ?cid = "conversationId (metaData m)" and ?d = "to_kafka_payload P at_ts m raw"
  obtain late where late: "set late \<subseteq> insert (?cid, ?d) (pending k)" "delivered k' = delivered k @ late"
    using uncertain(8) by blast
  have new: "covers (conversation_log ?cid (delivered k)) n"
    using inv uncertain(4) by (simp add: delivery_inv_def)
  have "delivery_inv expected delivered pending s' k'"
    unfolding delivery_inv_def
  proof (intro allI conjI impI)
    fix c
    let ?L = "conversation_log c (delivered k)"
    have i: "gap_free ?L" "covers ?L (expected c s)" "\<And>d n. (c, d) \<in> pending k \<Longrightarrow> message_seq d = Some n \<Longrightarrow> covers ?L n"
      using inv by (auto simp: delivery_inv_def)
    have known: "covers ?L j" if "(c, d) \<in> insert (?cid, ?d) (pending k)" "message_seq d = Some j" for d j
      using that i(3) new uncertain(5) by auto
    show "gap_free (conversation_log c (delivered k'))"
      unfolding late(2) conversation_log_simps
      by (rule gap_free_append [OF i(1)]) (use known late(1) in \<open>auto simp: conversation_log_set\<close>)
    show "covers (conversation_log c (delivered k')) (expected c s')"
      using i(2) by (simp add: late(2) uncertain(6) covers_append)
    show "covers (conversation_log c (delivered k')) j" if "(c, d) \<in> pending k'" "message_seq d = Some j" for d j
      using known [of d j] that uncertain(7) by (auto simp: late(2) intro: covers_append)
  qed
  then show ?thesis using uncertain by auto
next
  case (published m n)
  let ?cid = "conversationId (metaData m)" and ?d = "to_kafka_payload P at_ts m raw"
  obtain late where late: "set late \<subseteq> pending k" "delivered k' = delivered k @ late @ [(?cid, ?d)]"
    using published(9) by blast
  have "delivery_inv expected delivered pending s' k'"
    unfolding delivery_inv_def
  proof (intro allI conjI impI)
    fix c
    let ?L = "conversation_log c (delivered k)" and ?L' = "conversation_log c (delivered k @ late)"
    have i: "gap_free ?L" "covers ?L (expected c s)" "\<And>d n. (c, d) \<in> pending k \<Longrightarrow> message_seq d = Some n \<Longrightarrow> covers ?L n"
      using inv by (auto simp: delivery_inv_def)
    have k': "conversation_log c (delivered k') = ?L' @ (if ?cid = c then [n] else [])"
      using published(5) by (simp add: late(2))
    have g: "gap_free ?L'"
      unfolding conversation_log_simps
      by (rule gap_free_append [OF i(1)]) (use i(3) late(1) in \<open>auto simp: conversation_log_set\<close>)
    have e: "covers ?L' (expected c s)" using i(2) by (simp add: covers_append)
    show "gap_free (conversation_log c (delivered k'))"
      using g e published(4) by (auto simp: k' gap_free_snoc simp del: conversation_log_simps)
    show "covers (conversation_log c (delivered k')) (expected c s')"
    proof (cases "c = ?cid \<and> expected ?cid s' = n + 1")
      case True
      then have "covers (?L' @ [n]) (n + 1)"
        using e published(4) by (intro covers_step covers_append) auto
      then show ?thesis unfolding k' using True by (simp del: conversation_log_simps)
    next
      case False
      then have "expected c s' = expected c s" using published(4,6,7) by (cases "c = ?cid") auto
      then show ?thesis using e by (simp add: k' covers_append del: conversation_log_simps)
    qed
    show "covers (conversation_log c (delivered k')) j" if "(c, d) \<in> pending k'" "message_seq d = Some j" for d j
      using i(3) [of d j] that published(8) by (auto simp: late(2) intro: covers_append)
  qed
  moreover have "expected c s' \<le> expected c s + 1" for c
    using published(4,6,7) by (cases "c = ?cid") auto
  ultimately show ?thesis using published by auto
qed

text \<open>The invariant of a run, and a counter that the number of handled messages bounds.\<close>

lemma run_invariant:
  assumes run: "service_run S K P ok expected kok delivered pending s0 k0 i s k"
    and start: "ok s0" "kok k0" "\<And>c. expected c s0 = 0" "delivered k0 = []" "pending k0 = {}"
    and small: "int i < exact_limit"
  shows "ok s \<and> kok k \<and> delivery_inv expected delivered pending s k \<and> (\<forall>c. expected c s \<le> int i)"
  using run small
proof (induction rule: service_run.induct)
  case start
  then show ?case using assms(2-6) by (simp add: delivery_inv_def)
next
  case (handled i s k now at_ts raw cid r s' k')
  then have ih: "ok s" "kok k" "delivery_inv expected delivered pending s k" "\<And>c. expected c s \<le> int i" by auto
  have "expected c s < exact_limit" for c
    using ih(4) [of c] handled.prems by simp
  from delivery_inv_handle [OF handled.hyps(2) ih(1,2) this ih(3)]
  have res: "ok s' \<and> kok k' \<and> delivery_inv expected delivered pending s' k'" "\<And>c. expected c s' \<le> expected c s + 1"
    by blast+
  then show ?case using ih(4) by (fastforce intro: order_trans)
next
  case (expired i s k s')
  then have ih: "kok k" "delivery_inv expected delivered pending s k" "\<And>c. expected c s \<le> int i" by auto
  have "covers (conversation_log c (delivered k)) (expected c s')" for c
    using ih(2) expired.hyps(3) by (metis covers_0 delivery_inv_def)
  moreover have "expected c s' \<le> int i" for c
    using ih(3) [of c] expired.hyps(3) [rule_format, of c] by auto
  ultimately show ?case using ih expired.hyps(2) by (simp add: delivery_inv_def)
next
  case (arrived_late i s k k' late)
  then have ih: "ok s" "delivery_inv expected delivered pending s k" "\<And>c. expected c s \<le> int i" by auto
  have "delivery_inv expected delivered pending s k'"
    by (rule delivery_inv_late [OF ih(2) arrived_late.hyps(4,5)])
      (use arrived_late.hyps(3) ih(2) in \<open>auto simp: delivery_inv_def\<close>)
  then show ?case using ih arrived_late.hyps(2) by simp
qed

text \<open>What is acknowledged is in the topic.\<close>

lemma acknowledged_delivered:
  assumes run: "handle_message P S K now at_ts raw cid0 (s, k) = (Inr res, s', k')"
    and ok: "ok s" "kok k" and small: "\<And>c. expected c s < exact_limit"
    and inv: "delivery_inv expected delivered pending s k" and ack: "acknowledges (response res) c n"
  shows "n \<in> set (conversation_log c (delivered k'))"
  using run
proof (cases rule: handle_cases)
  case (replay m prep)
  let ?cid = "conversationId (metaData m)" and ?n = "sequenceNumber (payload m)"
  have cn: "c = ?cid" "n = ?n" using ack replay(5) by (auto simp: idempotent_result_def acknowledges_ack)
  have "sequence_status ?n (expected ?cid s) = IDEMPOTENT"
    using prepare_status [OF ok(1) accepted_facts [OF replay(1)] small replay(4)] replay(3) by simp
  then have "?n < expected ?cid s" by (simp add: sequence_status_def split: if_splits)
  then show ?thesis using inv accepted_facts [OF replay(1)] cn replay(2) by (auto simp: delivery_inv_def covers_def)
next
  case (unsent m prep e)
  then show ?thesis using ack send_failure_error error_not_ack by metis
next
  case (completed m prep s1 u s2 v rc)
  then have "c = conversationId (metaData m)" "n = sequenceNumber (payload m)"
    using ack by (auto simp: complete_result_def acknowledges_ack)
  then show ?thesis using send_returned [OF ok(2) completed(5)] by auto
next
  case (continued m prep s1 u v)
  then have "c = conversationId (metaData m)" "n = sequenceNumber (payload m)"
    using ack by (auto simp: ongoing_result_def acknowledges_ack)
  then show ?thesis using send_returned [OF ok(2) continued(5)] by auto
qed (use ack error_not_ack in auto)

text \<open>
  A message that is answered without a report of a downstream failure (E1007, E1008, E1011) is published
  and committed, or neither: exactly-once bookkeeping is kept.
\<close>

lemma exact_handle:
  assumes run: "handle_message P S K now at_ts raw cid0 (s, k) = (Inr res, s', k')"
    and ok: "ok s" "kok k" and small: "\<And>c. expected c s < exact_limit"
    and clean: "response_code (response res) \<notin> {JStr ''E1007'', JStr ''E1008'', JStr ''E1011''}"
    and pend: "pending k = {}"
    and inv: "\<And>c. conversation_log c (delivered k) = map int [0..<nat (expected c s)]"
  shows "ok s' \<and> kok k' \<and> pending k' = {} \<and> (\<forall>c. expected c s' \<le> expected c s + 1)
    \<and> (\<forall>c. conversation_log c (delivered k') = map int [0..<nat (expected c s')])"
proof -
  have advance: "ok s2 \<Longrightarrow> kok k' \<and> pending k' = {} \<and> (\<forall>c. expected c s2 \<le> expected c s + 1)
    \<and> (\<forall>c. conversation_log c (delivered k') = map int [0..<nat (expected c s2)])"
    if m: "model_validate P raw = Inr m" and p: "status prep = PRE_CHECK_OK"
      "sm_prepare S (conversationId (metaData m)) (sequenceNumber (payload m)) s = (Inr prep, s1)"
      and sent: "p_send K (conversationId (metaData m)) (to_kafka_payload P at_ts m raw) k = (Inr u, k')"
      and c: "sm_commit S (conversationId (metaData m)) (sequenceNumber (payload m)) s1 = (Inr v, s2)" for m prep s1 u v s2
  proof -
    let ?cid = "conversationId (metaData m)" and ?n = "sequenceNumber (payload m)"
    note pre = prechecked [OF ok(1) small m p(2,1)]
    note n = accepted_facts [OF m]
    have e: "expected ?cid s2 = ?n + 1" "\<And>c. c \<noteq> ?cid \<Longrightarrow> expected c s2 = expected c s"
      using commit_counter [OF pre(2) n _ c] commit_frame [OF pre(2) n c] pre small [of ?cid] by auto
    have k': "kok k'" "pending k' = {}" "delivered k' = delivered k @ [(?cid, to_kafka_payload P at_ts m raw)]"
      using send_returned [OF ok(2) sent] pend by auto
    have "map int [0..<nat (?n + 1)] = map int [0..<nat ?n] @ [?n]"
      using n by (simp add: nat_add_distrib)
    then have "conversation_log c (delivered k') = map int [0..<nat (expected c s2)]" for c
      using inv [of c] e pre(1) by (cases "c = ?cid") (simp_all add: k'(3))
    moreover have "expected c s2 \<le> expected c s + 1" for c
      using e pre(1) by (cases "c = ?cid") simp_all
    ultimately show ?thesis using k' by simp
  qed
  show ?thesis
    using run
  proof (cases rule: handle_cases)
    case (unprepared m e c)
    then show ?thesis using clean by (simp add: error_outcome_def scenario_error_code_def)
  next
    case (replay m prep)
    then show ?thesis using prepare_frame [OF ok(1) replay(4)] ok inv pend by simp
  next
    case (gap m prep)
    then show ?thesis using prepare_frame [OF ok(1) gap(4)] ok inv pend by simp
  next
    case (unsent m prep e)
    then show ?thesis
      using clean send_failure_error [OF unsent(5) [symmetric]] by (auto simp: error_outcome_def scenario_error_code_def)
  next
    case (uncommitted m prep s1 u e c)
    then show ?thesis using clean by (simp add: error_outcome_def scenario_error_code_def)
  next
    case (completed m prep s1 u s2 v rc)
    have "ok s2"
      using commit_frame [OF _ accepted_facts [OF completed(1)] completed(6)] prepare_frame [OF ok(1) completed(4)] by blast
    then show ?thesis
      using advance [OF completed(1,2,4,5,6)] cleanup_frame [OF _ completed(7)] by simp
  next
    case (continued m prep s1 u v)
    have "ok s'"
      using commit_frame [OF _ accepted_facts [OF continued(1)] continued(6)] prepare_frame [OF ok(1) continued(4)] by blast
    then show ?thesis using advance [OF continued(1,2,4,5,6)] by simp
  qed (use ok inv pend in auto)
qed

end

section \<open>The program over Redis and Kafka\<close>

text \<open>The program's classes over a Redis and a Kafka that behave as documented.\<close>

locale deployment = redis_backend R C db sha up loaded + kafka_cluster A J records inflight
  for R :: "'d redis_ops" and C :: "'w redis_client" and db :: "'w \<Rightarrow> 'd" and sha :: "lua_script \<Rightarrow> string"
    and up :: "'w \<Rightarrow> bool" and loaded :: "'w \<Rightarrow> lua_script set"
    and A :: "'k aiokafka" and J :: orjson and records :: "'k \<Rightarrow> kafka_record list" and inflight :: "'k \<Rightarrow> kafka_record set" +
  fixes P :: pydantic
  assumes deployed_pydantic: "pydantic_ok P"

sublocale deployment \<subseteq> service: orchestration "redis_sequence C" "sm_ok R db sha" "sm_expected R db"
  "kafka_backend A J" "\<lambda>_. True" "producer_delivered J records" "producer_pending J inflight" P
  by unfold_locales (rule deployed_pydantic)

lemma deployment_orchestrates:
  assumes "deployment R C db sha up loaded A J records inflight P"
  shows "orchestration (redis_sequence C) (sm_ok R db sha) (sm_expected R db) (kafka_backend A J) (\<lambda>_. True)
    (producer_delivered J records) (producer_pending J inflight) P"
  using assms
  by (intro orchestration.intro orchestration_axioms.intro redis_backend.sequence_contract
      kafka_cluster.producer_contract deployment.axioms(1) deployment.axioms(2))
    (auto simp: deployment_def deployment_axioms_def)

interpretation concrete: deployment clock_redis_ops server_client rs_db script_sha
  "\<lambda>w. rs_faults w = []" "\<lambda>w. set (rs_scripts w)"
  server_kafka numbering_orjson ks_records "\<lambda>k. set (ks_inflight k)" strict_pydantic
  by unfold_locales (rule strict_pydantic_ok)

text \<open>
  Runs of the program. A run starts with no counter stored, and nothing published to the topic or in
  flight to it.
\<close>

definition program_run ::
  "'d redis_ops \<Rightarrow> 'w redis_client \<Rightarrow> ('w \<Rightarrow> 'd) \<Rightarrow> (lua_script \<Rightarrow> string) \<Rightarrow> 'k aiokafka \<Rightarrow> orjson
    \<Rightarrow> ('k \<Rightarrow> kafka_record list) \<Rightarrow> ('k \<Rightarrow> kafka_record set) \<Rightarrow> pydantic
    \<Rightarrow> seq_sm \<times> 'w \<Rightarrow> kafka_producer \<times> 'k \<Rightarrow> nat \<Rightarrow> seq_sm \<times> 'w \<Rightarrow> kafka_producer \<times> 'k \<Rightarrow> bool" where
  "program_run R C db sha A J records inflight P =
     service_run (redis_sequence C) (kafka_backend A J) P (sm_ok R db sha) (sm_expected R db) (\<lambda>_. True)
       (producer_delivered J records) (producer_pending J inflight)"

definition fresh_start ::
  "'d redis_ops \<Rightarrow> ('w \<Rightarrow> 'd) \<Rightarrow> (lua_script \<Rightarrow> string) \<Rightarrow> orjson \<Rightarrow> ('k \<Rightarrow> kafka_record list) \<Rightarrow> ('k \<Rightarrow> kafka_record set)
    \<Rightarrow> seq_sm \<times> 'w \<Rightarrow> kafka_producer \<times> 'k \<Rightarrow> bool" where
  "fresh_start R db sha J records inflight s k \<longleftrightarrow> sm_ok R db sha s \<and> (\<forall>c. sm_expected R db c s = 0)
     \<and> producer_delivered J records k = [] \<and> producer_pending J inflight k = {}"

lemma program_invariant:
  assumes "deployment R C db sha up loaded A J records inflight P"
    and "fresh_start R db sha J records inflight s0 k0"
    and "program_run R C db sha A J records inflight P s0 k0 i s k" and "int i < exact_limit"
  shows "sm_ok R db sha s \<and> delivery_inv (sm_expected R db) (producer_delivered J records) (producer_pending J inflight) s k
    \<and> (\<forall>c. sm_expected R db c s \<le> int i)"
  using orchestration.run_invariant [OF deployment_orchestrates [OF assms(1)], of s0 k0 i s k] assms
  by (simp add: program_run_def fresh_start_def)

section \<open>A concrete run\<close>

text \<open>
  The program on the concrete Redis and Kafka. A first transcript reaches the topic but its
  confirmation times out; the client sends it again and it is acknowledged.
\<close>

abbreviation serve :: "json \<Rightarrow> string \<Rightarrow> ((seq_sm \<times> redis_server) \<times> (kafka_producer \<times> kafka_server), OrchestratorResult) io" where
  "serve \<equiv> handle_message strict_pydantic (redis_sequence server_client) (kafka_backend server_kafka numbering_orjson)
     ''now'' ''then''"

definition start_sm :: "seq_sm \<times> redis_server" where
  "start_sm = (sample_sm, empty_redis [])"

definition start_kafka :: "kafka_fault list \<Rightarrow> kafka_producer \<times> kafka_server" where
  "start_kafka ks = (sample_producer, empty_kafka ks)"

lemma sample_ongoing_dict [simp]: "is_dict (sample_ongoing c n)"
  by (simp add: sample_ongoing_def is_dict_def)

lemma dumps_numbering: "dumps numbering_orjson j = Inr (str_of_nat (to_nat j))"
  by (simp add: numbering_orjson_def)

lemma read_numbering [simp]: "read_message numbering_orjson (str_of_nat (to_nat (JObj d))) = d"
  by (simp add: read_message_def numbering_orjson_def)

lemmas serve_simps = handle_message_def process_def publish_and_commit_def redis_sequence_def kafka_backend_def
  prepare.simps commit.simps cleanup.simps sm_ensure_scripts_loaded.simps get_client_def ensure_script_def eval_reload_def
  server_simps sample_sm_def sm_key_def lua_prepare_def lua_commit_def prepare_outcome_def parse_prepare_result_def
  prepare_result_of_def double_of_int_small kafka_send_def get_producer.simps sample_producer_def server_kafka_def
  server_send_def server_flush_def empty_kafka_def Let_def ongoing_message_def start_sm_def start_kafka_def
  sample_ongoing_valid

abbreviation concrete_log :: "string \<Rightarrow> kafka_producer \<times> kafka_server \<Rightarrow> int list" where
  "concrete_log c k \<equiv> conversation_log c (producer_delivered numbering_orjson ks_records k)"

lemma serve_twice:
  obtains r s1 k1 s2 k2 where
    "serve (sample_ongoing ''c1'' 0) ''c1'' (start_sm, start_kafka [TimedOutDelivered]) = (r, s1, k1)"
    "serve (sample_ongoing ''c1'' 0) ''c1'' (s1, k1) = (Inr (ongoing_result ''now'' ''c1'' 0), s2, k2)"
    "concrete_log ''c1'' k2 = [0, 0]"
proof -
  obtain r s1 k1 where one: "serve (sample_ongoing ''c1'' 0) ''c1'' (start_sm, start_kafka [TimedOutDelivered]) = (r, s1, k1)"
    by (metis prod_cases3)
  obtain r2 s2 k2 where two: "serve (sample_ongoing ''c1'' 0) ''c1'' (s1, k1) = (r2, s2, k2)"
    by (metis prod_cases3)
  have "r2 = Inr (ongoing_result ''now'' ''c1'' 0) \<and> concrete_log ''c1'' k2 = [0, 0]"
    using one two by (auto simp: serve_simps dumps_numbering ongoing_result_def send_failure_def
        error_result_session session_scenario_def needs_arguments_def producer_delivered_def
        topic_messages_def read_record_def)
  then show thesis using one two that by blast
qed

lemma serve_once:
  obtains s1 k1 where
    "serve (sample_ongoing ''c1'' 0) ''c1'' (start_sm, start_kafka []) = (Inr (ongoing_result ''now'' ''c1'' 0), s1, k1)"
    "concrete_log ''c1'' k1 = [0]" "sm_expected clock_redis_ops rs_db ''c1'' s1 = 1"
proof -
  obtain r s1 k1 where one: "serve (sample_ongoing ''c1'' 0) ''c1'' (start_sm, start_kafka []) = (r, s1, k1)"
    by (metis prod_cases3)
  have "r = Inr (ongoing_result ''now'' ''c1'' 0) \<and> concrete_log ''c1'' k1 = [0]
      \<and> sm_expected clock_redis_ops rs_db ''c1'' s1 = 1"
    using one by (auto simp: serve_simps dumps_numbering ongoing_result_def producer_delivered_def
        sm_expected_def counter_def)
  then show thesis using one that by blast
qed

abbreviation concrete_run where
  "concrete_run \<equiv> program_run clock_redis_ops server_client rs_db script_sha server_kafka numbering_orjson
     ks_records (\<lambda>k. set (ks_inflight k)) strict_pydantic"

lemma concrete_fresh:
  "fresh_start clock_redis_ops rs_db script_sha numbering_orjson ks_records (\<lambda>k. set (ks_inflight k))
     start_sm (start_kafka ks)"
  using sample_sm_ok [of "[]"]
  by (simp add: fresh_start_def start_sm_def start_kafka_def sample_sm_expected empty_kafka_def
      producer_delivered_def producer_pending_def)

lemma concrete_step:
  "concrete_run s0 k0 i s k \<Longrightarrow> serve raw cid (s, k) = (r, s', k') \<Longrightarrow> concrete_run s0 k0 (Suc i) s' k'"
  unfolding program_run_def by (rule service_run.handled)

lemma concrete_start: "concrete_run s0 k0 0 s0 k0"
  unfolding program_run_def by (rule service_run.start)

section \<open>Properties\<close>

text \<open>
  No gaps, ever. Whatever the clients send, however Redis and Kafka fail, and even when counters
  expire: in the topic, a sequence number of a conversation is preceded by every smaller one of that
  conversation, and every number below the conversation's counter is there.
\<close>

theorem gap_free_delivery:
  assumes "deployment R C db sha up loaded A J records inflight P"
    and "fresh_start R db sha J records inflight s0 k0"
    and "program_run R C db sha A J records inflight P s0 k0 i s k" and "int i < exact_limit"
  shows "gap_free (conversation_log c (producer_delivered J records k))
    \<and> covers (conversation_log c (producer_delivered J records k)) (sm_expected R db c s)"
  using program_invariant [OF assms] by (simp add: delivery_inv_def)

theorem gap_free_delivery_witness:
  "\<exists>s k. concrete_run start_sm (start_kafka [TimedOutDelivered]) 2 s k \<and> concrete_log ''c1'' k = [0, 0]
     \<and> gap_free (concrete_log ''c1'' k)"
proof (rule serve_twice)
  fix r s1 k1 s2 k2
  assume h: "serve (sample_ongoing ''c1'' 0) ''c1'' (start_sm, start_kafka [TimedOutDelivered]) = (r, s1, k1)"
    "serve (sample_ongoing ''c1'' 0) ''c1'' (s1, k1) = (Inr (ongoing_result ''now'' ''c1'' 0), s2, k2)"
    "concrete_log ''c1'' k2 = [0, 0]"
  have run: "concrete_run start_sm (start_kafka [TimedOutDelivered]) (Suc (Suc 0)) s2 k2"
    by (rule concrete_step [OF concrete_step [OF concrete_start h(1)] h(2)])
  have "gap_free (concrete_log ''c1'' k2)"
    using gap_free_delivery [OF concrete.deployment_axioms concrete_fresh run] by (simp add: exact_limit_def)
  then show ?thesis unfolding numeral_2_eq_2 using run h(3) by blast
qed

text \<open>
  Acknowledged means delivered: after any run, when the service answers a message with a positive
  acknowledgement, whether it published it now or recognised it as a replay, the acknowledged number of
  the conversation is in the topic.
\<close>

theorem acknowledged_is_delivered:
  assumes dep: "deployment R C db sha up loaded A J records inflight P"
    and fresh: "fresh_start R db sha J records inflight s0 k0"
    and run: "program_run R C db sha A J records inflight P s0 k0 i s k" and small: "int i < exact_limit"
    and handled: "handle_message P (redis_sequence C) (kafka_backend A J) now at_ts raw cid (s, k) = (Inr res, s', k')"
    and ack: "acknowledges (response res) c n"
  shows "n \<in> set (conversation_log c (producer_delivered J records k'))"
proof -
  have inv: "sm_ok R db sha s" "delivery_inv (sm_expected R db) (producer_delivered J records) (producer_pending J inflight) s k"
    and e: "\<And>c. sm_expected R db c s \<le> int i"
    using program_invariant [OF dep fresh run small] by blast+
  have "sm_expected R db c s < exact_limit" for c using e [of c] small by simp
  then show ?thesis
    using orchestration.acknowledged_delivered [OF deployment_orchestrates [OF dep] handled inv(1) _ _ inv(2) ack] by blast
qed

theorem acknowledged_is_delivered_witness:
  "\<exists>s1 k1. serve (sample_ongoing ''c1'' 0) ''c1'' (start_sm, start_kafka []) = (Inr (ongoing_result ''now'' ''c1'' 0), s1, k1)
    \<and> 0 \<in> set (concrete_log ''c1'' k1)"
proof (rule serve_once)
  fix s1 k1
  assume h: "serve (sample_ongoing ''c1'' 0) ''c1'' (start_sm, start_kafka []) = (Inr (ongoing_result ''now'' ''c1'' 0), s1, k1)"
  have "acknowledges (response (ongoing_result ''now'' ''c1'' 0)) ''c1'' 0"
    by (simp add: ongoing_result_def acknowledges_ack)
  then have "0 \<in> set (concrete_log ''c1'' k1)"
    using acknowledged_is_delivered [OF concrete.deployment_axioms concrete_fresh concrete_start _ h] by (simp add: exact_limit_def)
  then show ?thesis using h by blast
qed

text \<open>
  Runs in which no answer reports a failure of the service or its backends (E1007, E1008, E1011).
  Refused messages, replays and numbers out of order may occur.
\<close>

inductive undisturbed_run ::
  "'d redis_ops \<Rightarrow> 'w redis_client \<Rightarrow> ('w \<Rightarrow> 'd) \<Rightarrow> (lua_script \<Rightarrow> string) \<Rightarrow> 'k aiokafka \<Rightarrow> orjson \<Rightarrow> pydantic
    \<Rightarrow> seq_sm \<times> 'w \<Rightarrow> kafka_producer \<times> 'k \<Rightarrow> nat \<Rightarrow> seq_sm \<times> 'w \<Rightarrow> kafka_producer \<times> 'k \<Rightarrow> bool"
  for R C db sha A J P s0 k0 where
  undisturbed_start: "undisturbed_run R C db sha A J P s0 k0 0 s0 k0"
| undisturbed_step: "undisturbed_run R C db sha A J P s0 k0 i s k \<Longrightarrow>
    handle_message P (redis_sequence C) (kafka_backend A J) now at_ts raw cid (s, k) = (Inr res, s', k') \<Longrightarrow>
    response_code (response res) \<notin> {JStr ''E1007'', JStr ''E1008'', JStr ''E1011''} \<Longrightarrow>
    undisturbed_run R C db sha A J P s0 k0 (Suc i) s' k'"

text \<open>
  C8. Exactly once: in a run in which no answer reports a failure, the topic holds for each
  conversation the numbers from 0 up to its counter, each once and in order, whatever the clients send.
\<close>

theorem exactly_once_undisturbed:
  assumes dep: "deployment R C db sha up loaded A J records inflight P"
    and fresh: "fresh_start R db sha J records inflight s0 k0"
    and run: "undisturbed_run R C db sha A J P s0 k0 i s k" and small: "int i < exact_limit"
  shows "conversation_log c (producer_delivered J records k) = map int [0..<nat (sm_expected R db c s)]"
proof -
  note orch = deployment_orchestrates [OF dep]
  let ?D = "producer_delivered J records"
  have "sm_ok R db sha s \<and> producer_pending J inflight k = {} \<and> (\<forall>c. sm_expected R db c s \<le> int i)
    \<and> (\<forall>c. conversation_log c (?D k) = map int [0..<nat (sm_expected R db c s)])"
    using run small
  proof (induction rule: undisturbed_run.induct)
    case undisturbed_start
    then show ?case using fresh by (simp add: fresh_start_def)
  next
    case (undisturbed_step i s k now at_ts raw cid res s' k')
    then have ih: "sm_ok R db sha s" "producer_pending J inflight k = {}" "\<And>c. sm_expected R db c s \<le> int i"
      "\<And>c. conversation_log c (?D k) = map int [0..<nat (sm_expected R db c s)]" by auto
    have lim: "sm_expected R db c s < exact_limit" for c using ih(3) [of c] undisturbed_step.prems by simp
    have "sm_ok R db sha s' \<and> True \<and> producer_pending J inflight k' = {} \<and> (\<forall>c. sm_expected R db c s' \<le> sm_expected R db c s + 1)
      \<and> (\<forall>c. conversation_log c (?D k') = map int [0..<nat (sm_expected R db c s')])"
      by (rule orchestration.exact_handle [OF orch undisturbed_step.hyps(2) ih(1) _ lim undisturbed_step.hyps(3) ih(2) ih(4)]) simp
    then show ?case using ih(3) by (fastforce intro: order_trans)
  qed
  then show ?thesis by blast
qed

theorem exactly_once_undisturbed_witness:
  "\<exists>s1 k1. undisturbed_run clock_redis_ops server_client rs_db script_sha server_kafka numbering_orjson strict_pydantic
      start_sm (start_kafka []) 1 s1 k1
    \<and> concrete_log ''c1'' k1 = map int [0..<nat (sm_expected clock_redis_ops rs_db ''c1'' s1)]"
proof (rule serve_once)
  fix s1 k1
  assume h: "serve (sample_ongoing ''c1'' 0) ''c1'' (start_sm, start_kafka []) = (Inr (ongoing_result ''now'' ''c1'' 0), s1, k1)"
  have run: "undisturbed_run clock_redis_ops server_client rs_db script_sha server_kafka numbering_orjson strict_pydantic
      start_sm (start_kafka []) (Suc 0) s1 k1"
    by (rule undisturbed_step [OF undisturbed_start h])
      (simp add: ongoing_result_def build_success_ack_def build_transcript_ack_def)
  have "concrete_log ''c1'' k1 = map int [0..<nat (sm_expected clock_redis_ops rs_db ''c1'' s1)]"
    by (rule exactly_once_undisturbed [OF concrete.deployment_axioms concrete_fresh run]) (simp add: exact_limit_def)
  then show ?thesis unfolding One_nat_def using run by blast
qed

text \<open>
  C10. The counter of a conversation moves only by one, only for a message of that conversation with
  exactly the expected number, and only when that message has been appended to the topic under the key
  of the conversation. The counters of the other conversations do not move.
\<close>

theorem commit_only_after_delivery:
  assumes dep: "deployment R C db sha up loaded A J records inflight P"
    and ok: "sm_ok R db sha s" and small: "\<And>c. sm_expected R db c s < exact_limit"
    and run: "handle_message P (redis_sequence C) (kafka_backend A J) now at_ts raw cid (s, k) = (r, s', k')"
    and moved: "sm_expected R db c s' \<noteq> sm_expected R db c s"
  shows "\<exists>m. model_validate P raw = Inr m \<and> conversationId (metaData m) = c
    \<and> sequenceNumber (payload m) = sm_expected R db c s \<and> sm_expected R db c s' = sm_expected R db c s + 1
    \<and> producer_delivered J records k' \<noteq> []
    \<and> last (producer_delivered J records k') = (c, to_kafka_payload P at_ts m raw)"
proof (rule orchestration.handle_effect [OF deployment_orchestrates [OF dep] run ok TrueI small], goal_cases)
  case (2 m n)
  then have c: "c = conversationId (metaData m)" using moved by metis
  obtain late where "producer_delivered J records k' = (producer_delivered J records k @ late) @
      [(conversationId (metaData m), to_kafka_payload P at_ts m raw)]"
    using 2(9) by auto
  then show ?case using 2 c moved by (intro exI [of _ m]) auto
qed (use moved in auto)

theorem commit_only_after_delivery_witness:
  "\<exists>s1 k1. serve (sample_ongoing ''c1'' 0) ''c1'' (start_sm, start_kafka []) = (Inr (ongoing_result ''now'' ''c1'' 0), s1, k1)
    \<and> last (producer_delivered numbering_orjson ks_records k1) =
        (''c1'', to_kafka_payload strict_pydantic ''then'' (ongoing_message ''c1'' 0) (sample_ongoing ''c1'' 0))"
proof (rule serve_once)
  fix s1 k1
  assume h: "serve (sample_ongoing ''c1'' 0) ''c1'' (start_sm, start_kafka []) = (Inr (ongoing_result ''now'' ''c1'' 0), s1, k1)"
    and one: "sm_expected clock_redis_ops rs_db ''c1'' s1 = 1"
  have ok: "sm_ok clock_redis_ops rs_db script_sha start_sm" and e: "sm_expected clock_redis_ops rs_db c start_sm = 0" for c
    by (simp_all add: start_sm_def sample_sm_ok sample_sm_expected)
  show ?thesis
    using h commit_only_after_delivery [OF concrete.deployment_axioms ok _ h, of "''c1''"]
    by (simp add: e one exact_limit_def sample_ongoing_valid)
qed

text \<open>
  C16. A number that is not the expected one leaves no trace: nothing is published and no counter moves.
  If Redis answers, a smaller number is acknowledged again as a replay and a larger one is answered with
  E1006 and close code 1008.
\<close>

theorem unexpected_number_leaves_no_trace:
  assumes dep: "deployment R C db sha up loaded A J records inflight P"
    and ok: "sm_ok R db sha s" and small: "sm_expected R db (conversationId (metaData m)) s < exact_limit"
    and valid: "model_validate P raw = Inr m"
    and unexpected: "sequenceNumber (payload m) \<noteq> sm_expected R db (conversationId (metaData m)) s"
    and run: "handle_message P (redis_sequence C) (kafka_backend A J) now at_ts raw cid (s, k) = (r, s', k')"
  shows "k' = k \<and> (\<forall>c. sm_expected R db c s' = sm_expected R db c s) \<and>
    (\<forall>x. fst (prepare C (conversationId (metaData m)) (sequenceNumber (payload m)) s) = Inr x \<longrightarrow>
      r = Inr (if sequenceNumber (payload m) < sm_expected R db (conversationId (metaData m)) s
        then idempotent_result now (conversationId (metaData m)) (sequenceNumber (payload m)) (eventType (metaData m))
        else error_outcome SEQUENCE_OUT_OF_ORDER now (conversationId (metaData m))
          (Some (''sequenceNumber='' @ str_of_int (sequenceNumber (payload m)) @ '' is not expected''))
          (finalize_timings [''validate_ms'', ''prepare_ms''])))"
proof -
  note orch = deployment_orchestrates [OF dep]
  let ?cid = "conversationId (metaData m)" and ?n = "sequenceNumber (payload m)"
  have seq: "sequence_backend (redis_sequence C) (sm_ok R db sha) (sm_expected R db)"
    using orch by (rule orchestration.axioms(1))
  have n: "0 \<le> ?n" by (rule orchestration.accepted_facts [OF orch valid])
  have prep: "sm_prepare (redis_sequence C) = prepare C" by (simp add: redis_sequence_def)
  have frame: "sm_expected R db c s1 = sm_expected R db c s" if "prepare C ?cid ?n s = (r1, s1)" for r1 s1 c
    using sequence_backend.prepare_frame [OF seq ok] that prep by metis
  have st: "status x = sequence_status ?n (sm_expected R db ?cid s)" if "prepare C ?cid ?n s = (Inr x, s1)" for x s1
    using sequence_backend.prepare_status [OF seq ok n small] that prep by fastforce
  show ?thesis
    using run
  proof (cases rule: handle_cases)
    case (unprepared m' e c)
    then show ?thesis using valid frame by (auto simp: prep)
  next
    case (replay m' p)
    then show ?thesis using valid frame st [of p s'] by (auto simp: prep sequence_status_def split: if_splits)
  next
    case (gap m' p)
    then show ?thesis using valid frame st [of p s'] by (auto simp: prep sequence_status_def split: if_splits)
  qed (use valid st unexpected in \<open>auto simp: prep sequence_status_def split: if_splits\<close>)
qed

theorem unexpected_number_leaves_no_trace_witness:
  "snd (snd (serve (sample_ongoing ''c1'' 5) ''c1'' (start_sm, start_kafka []))) = start_kafka []"
proof -
  obtain r s' k' where run: "serve (sample_ongoing ''c1'' 5) ''c1'' (start_sm, start_kafka []) = (r, s', k')"
    by (metis prod_cases3)
  have ok: "sm_ok clock_redis_ops rs_db script_sha start_sm" and e: "sm_expected clock_redis_ops rs_db c start_sm = 0" for c
    by (simp_all add: start_sm_def sample_sm_ok sample_sm_expected)
  show ?thesis
    using unexpected_number_leaves_no_trace [OF concrete.deployment_axioms ok _ sample_ongoing_valid _ run]
    by (simp add: run e exact_limit_def ongoing_message_def)
qed

end
