(* ===== verification/Handler_Steps.thy ===== *)
theory Handler_Steps
  imports Delivery
begin

text \<open>
  \<open>TwoPhaseOrchestrator.handle_message\<close> as the event loop runs it: a coroutine that gives way at each of its four
  awaits (\<open>prepare\<close>, \<open>send\<close>, \<open>commit\<close>, \<open>cleanup\<close>). A phase is what the coroutine holds between two of them, and
  \<open>handler_step\<close> runs it from one to the next. Run without interruption the steps are \<open>handle_message\<close>.
\<close>

section \<open>Steps\<close>

record request =
  rq_now :: string
  rq_produced_at :: string
  rq_raw :: json
  rq_conversation :: string

datatype phase =
    Arrived
  | Accepted InboundMessage
  | Published InboundMessage
  | Committed InboundMessage
  | Answered "OrchestratorResult res"

text \<open>The end of the coroutine: a result, or an exception that the outermost handler turns into one.\<close>

definition answered :: "request \<Rightarrow> OrchestratorResult res \<Rightarrow> phase" where
  "answered rq r = Answered (case r of
     Inr result \<Rightarrow> Inr result
   | Inl exc \<Rightarrow> error_result ORCHESTRATOR_INTERNAL_EXCEPTION (rq_now rq) (response_conversation (rq_raw rq) (rq_conversation rq))
       (Some (take MAX_ERROR_MESSAGE_LEN (exn_str exc))) [''orchestrator_ms''])"

text \<open>Up to the return of \<open>prepare\<close>.\<close>

definition begin_step :: "pydantic \<Rightarrow> 's seq_ops \<Rightarrow> request \<Rightarrow> 's \<Rightarrow> phase \<times> 's" where
  "begin_step P S rq s =
     (case model_validate P (rq_raw rq) of
        Inl es \<Rightarrow> (answered rq (validation_failure P (rq_now rq) (response_conversation (rq_raw rq) (rq_conversation rq)) es), s)
      | Inr msg \<Rightarrow>
          (let cid = conversationId (metaData msg); seq = sequenceNumber (payload msg) in
           case sm_prepare S cid seq s of
             (Inl e, s1) \<Rightarrow> (answered rq (Inl e), s1)
           | (Inr prep, s1) \<Rightarrow>
               (if status prep = IDEMPOTENT
                then (answered rq (Inr (idempotent_result (rq_now rq) cid seq (eventType (metaData msg)))), s1)
                else if status prep = OUT_OF_ORDER then (answered rq (out_of_order_result (rq_now rq) cid seq), s1)
                else if \<not> is_dict (rq_raw rq) then (answered rq (Inl (AssertionError [])), s1)
                else (Accepted msg, s1))))"

fun handler_step ::
  "pydantic \<Rightarrow> 's seq_ops \<Rightarrow> 'k producer_ops \<Rightarrow> request \<Rightarrow> phase \<Rightarrow> 's \<times> 'k \<Rightarrow> phase \<times> ('s \<times> 'k)" where
  "handler_step P S K rq Arrived (s, k) = (case begin_step P S rq s of (ph, s1) \<Rightarrow> (ph, (s1, k)))"
| "handler_step P S K rq (Accepted msg) (s, k) =
     (let cid = conversationId (metaData msg) in
      case p_send K cid (to_kafka_payload P (rq_produced_at rq) msg (rq_raw rq)) k of
        (Inl e, k1) \<Rightarrow> (answered rq (send_failure (rq_now rq) cid e), (s, k1))
      | (Inr _, k1) \<Rightarrow> (Published msg, (s, k1)))"
| "handler_step P S K rq (Published msg) (s, k) =
     (let cid = conversationId (metaData msg); seq = sequenceNumber (payload msg) in
      case sm_commit S cid seq s of
        (Inl e, s1) \<Rightarrow> (answered rq (Inl e), (s1, k))
      | (Inr _, s1) \<Rightarrow>
          (if eventType (metaData msg) = SESSION_COMPLETE then (Committed msg, (s1, k))
           else (answered rq (Inr (ongoing_result (rq_now rq) cid seq)), (s1, k))))"
| "handler_step P S K rq (Committed msg) (s, k) =
     (let cid = conversationId (metaData msg) in
      case sm_cleanup S cid s of
        (_, s1) \<Rightarrow> (answered rq (Inr (complete_result (rq_now rq) cid (sequenceNumber (payload msg)))), (s1, k)))"
| "handler_step P S K rq (Answered r) (s, k) = (Answered r, (s, k))"

fun handler_run ::
  "pydantic \<Rightarrow> 's seq_ops \<Rightarrow> 'k producer_ops \<Rightarrow> request \<Rightarrow> nat \<Rightarrow> phase \<times> ('s \<times> 'k) \<Rightarrow> phase \<times> ('s \<times> 'k)" where
  "handler_run P S K rq 0 x = x"
| "handler_run P S K rq (Suc n) (ph, w) = handler_run P S K rq n (handler_step P S K rq ph w)"

section \<open>The steps are the handler\<close>

lemma handler_run_answered [simp]: "handler_run P S K rq n (Answered r, w) = (Answered r, w)"
  by (induction n) (auto, metis handler_step.simps(5) surj_pair)

lemma answered_Inr [simp]: "answered rq (Inr x) = Answered (Inr x)"
  by (simp add: answered_def)

lemma handler_run_answered' [simp]: "handler_run P S K rq n (answered rq r, w) = (answered rq r, w)"
  by (simp add: answered_def)

lemma handler_steps_compose:
  "handler_run P S K rq 4 (Arrived, w) =
     (case handle_message P S K (rq_now rq) (rq_produced_at rq) (rq_raw rq) (rq_conversation rq) w of (r, w') \<Rightarrow> (Answered r, w'))"
proof -
  obtain s k where w: "w = (s, k)" by fastforce
  have n: "(4::nat) = Suc (Suc (Suc (Suc 0)))" by simp
  show ?thesis
    unfolding n w
    by (auto simp: begin_step_def handle_message_def process_def publish_and_commit_def answered_def Let_def
        split: sum.splits prod.splits)
qed

section \<open>Properties\<close>

text \<open>
  The four steps of the coroutine, run without interruption, are the handler: every message is answered after at
  most four awaits, with the result and the effects of \<open>handle_message\<close>.
\<close>

theorem handler_steps_are_handle_message:
  "handler_run P S K rq 4 (Arrived, w) =
     (case handle_message P S K (rq_now rq) (rq_produced_at rq) (rq_raw rq) (rq_conversation rq) w of (r, w') \<Rightarrow> (Answered r, w'))"
  by (rule handler_steps_compose)

end
