(* ===== verification/Interleaving.thy ===== *)
theory Interleaving
  imports Handler_Steps
begin

text \<open>
  Many messages in progress at once. Any number of instances of the service, each with its own
  \<open>RedisSequenceStateMachine\<close> and \<open>KafkaProducer\<close>, share one Redis and one topic; the handlers of
  \<open>orchestrator/two_phase.py\<close> interleave at every await, and any of them may stop for good. The locale \<open>service_fleet\<close> has the
  lemmas over the contracts of \<open>Protocols\<close>; its interpretation is the program's own classes.
\<close>

section \<open>Runs\<close>

record task =
  tk_instance :: nat
  tk_request :: request
  tk_phase :: phase

text \<open>Holding a conversation: accepted with its number, and not yet committed.\<close>

fun holds :: "string \<Rightarrow> phase \<Rightarrow> bool" where
  "holds c (Accepted m) \<longleftrightarrow> conversationId (metaData m) = c"
| "holds c (Published m) \<longleftrightarrow> conversationId (metaData m) = c"
| "holds c _ \<longleftrightarrow> False"

fun held_number :: "phase \<Rightarrow> int" where
  "held_number (Accepted m) = sequenceNumber (payload m)"
| "held_number (Published m) = sequenceNumber (payload m)"
| "held_number _ = 0"

definition exclusive_ok :: "(string \<Rightarrow> 's \<Rightarrow> int) \<Rightarrow> 's \<Rightarrow> task list \<Rightarrow> bool" where
  "exclusive_ok expected s ts \<longleftrightarrow> (\<forall>j < length ts. \<forall>c. holds c (tk_phase (ts ! j)) \<longrightarrow>
     held_number (tk_phase (ts ! j)) = expected c s
     \<and> (\<forall>l < length ts. l \<noteq> j \<longrightarrow> \<not> holds c (tk_phase (ts ! l))))"

lemma exclusive_ok_update:
  assumes old: "\<And>l c. l < length ts \<Longrightarrow> l \<noteq> j \<Longrightarrow> holds c (tk_phase (ts ! l)) \<Longrightarrow>
      held_number (tk_phase (ts ! l)) = expected c s \<and> \<not> holds c ph"
    and apart: "\<And>l m c. l < length ts \<Longrightarrow> m < length ts \<Longrightarrow> holds c (tk_phase (ts ! l)) \<Longrightarrow> holds c (tk_phase (ts ! m)) \<Longrightarrow> l = m"
    and new: "\<And>c. holds c ph \<Longrightarrow> held_number ph = expected c s"
  shows "exclusive_ok expected s (ts[j := (ts ! j)\<lparr>tk_phase := ph\<rparr>])"
  unfolding exclusive_ok_def
proof (intro allI impI conjI)
  fix a c
  assume a: "a < length (ts[j := (ts ! j)\<lparr>tk_phase := ph\<rparr>])" "holds c (tk_phase (ts[j := (ts ! j)\<lparr>tk_phase := ph\<rparr>] ! a))"
  show "held_number (tk_phase (ts[j := (ts ! j)\<lparr>tk_phase := ph\<rparr>] ! a)) = expected c s"
    using a old new by (cases "a = j") auto
  fix b
  assume b: "b < length (ts[j := (ts ! j)\<lparr>tk_phase := ph\<rparr>])" "b \<noteq> a"
  show "\<not> holds c (tk_phase (ts[j := (ts ! j)\<lparr>tk_phase := ph\<rparr>] ! b))"
  proof
    assume h: "holds c (tk_phase (ts[j := (ts ! j)\<lparr>tk_phase := ph\<rparr>] ! b))"
    show False
    proof (cases "a = j \<or> b = j")
      case True
      then show ?thesis using a b h old [of a c] old [of b c] by auto
    next
      case False
      then show ?thesis using a b h apart [of a b c] by simp
    qed
  qed
qed

text \<open>Exclusive access: a message is not taken up while another one of its conversation is held.\<close>

definition alone :: "pydantic \<Rightarrow> task list \<Rightarrow> nat \<Rightarrow> bool" where
  "alone P ts j \<longleftrightarrow> (tk_phase (ts ! j) = Arrived \<longrightarrow>
     (case model_validate P (rq_raw (tk_request (ts ! j))) of
        Inl _ \<Rightarrow> True
      | Inr m \<Rightarrow> list_all (\<lambda>t. \<not> holds (conversationId (metaData m)) (tk_phase t)) ts))"

text \<open>
  A run, with the number of handler steps so far. Messages arrive at any instance; a step of any task moves it to
  its next await; between steps a counter may expire and messages in flight may arrive at the topic. With
  \<open>exclusive\<close>, conversations are accessed exclusively, and the counter of a conversation that is held does not expire.
\<close>

inductive interleaved ::
  "bool \<Rightarrow> (nat \<Rightarrow> 's seq_ops) \<Rightarrow> (nat \<Rightarrow> 'k producer_ops) \<Rightarrow> pydantic \<Rightarrow> ('s \<Rightarrow> bool) \<Rightarrow> (string \<Rightarrow> 's \<Rightarrow> int) \<Rightarrow> ('k \<Rightarrow> bool)
    \<Rightarrow> ('k \<Rightarrow> (string \<times> dict) list) \<Rightarrow> ('k \<Rightarrow> (string \<times> dict) set) \<Rightarrow> 's \<Rightarrow> 'k \<Rightarrow> nat \<Rightarrow> 's \<Rightarrow> 'k \<Rightarrow> task list \<Rightarrow> bool"
  for exclusive S K P ok expected kok delivered pending s0 k0 where
  nothing: "interleaved exclusive S K P ok expected kok delivered pending s0 k0 0 s0 k0 []"
| arrives: "interleaved exclusive S K P ok expected kok delivered pending s0 k0 n s k ts \<Longrightarrow>
    interleaved exclusive S K P ok expected kok delivered pending s0 k0 n s k
      (ts @ [\<lparr>tk_instance = i, tk_request = rq, tk_phase = Arrived\<rparr>])"
| moves: "interleaved exclusive S K P ok expected kok delivered pending s0 k0 n s k ts \<Longrightarrow> j < length ts \<Longrightarrow>
    (exclusive \<longrightarrow> alone P ts j) \<Longrightarrow>
    handler_step P (S (tk_instance (ts ! j))) (K (tk_instance (ts ! j))) (tk_request (ts ! j)) (tk_phase (ts ! j)) (s, k)
      = (ph, s', k') \<Longrightarrow>
    interleaved exclusive S K P ok expected kok delivered pending s0 k0 (Suc n) s' k' (ts[j := (ts ! j)\<lparr>tk_phase := ph\<rparr>])"
| expires: "interleaved exclusive S K P ok expected kok delivered pending s0 k0 n s k ts \<Longrightarrow>
    ok s' \<Longrightarrow> (\<forall>c. expected c s' = expected c s
      \<or> expected c s' = 0 \<and> (exclusive \<longrightarrow> list_all (\<lambda>t. \<not> holds c (tk_phase t)) ts)) \<Longrightarrow>
    interleaved exclusive S K P ok expected kok delivered pending s0 k0 n s' k ts"
| comes_late: "interleaved exclusive S K P ok expected kok delivered pending s0 k0 n s k ts \<Longrightarrow>
    kok k' \<Longrightarrow> pending k' \<subseteq> pending k \<Longrightarrow> set late \<subseteq> pending k \<Longrightarrow> delivered k' = delivered k @ late \<Longrightarrow>
    interleaved exclusive S K P ok expected kok delivered pending s0 k0 n s k' ts"

text \<open>What a task holds: the number it was accepted for has its predecessors in the topic, and once published is there.\<close>

fun phase_ok :: "int \<Rightarrow> (string \<times> dict) list \<Rightarrow> phase \<Rightarrow> bool" where
  "phase_ok n D Arrived \<longleftrightarrow> True"
| "phase_ok n D (Accepted m) \<longleftrightarrow> 0 \<le> sequenceNumber (payload m) \<and> sequenceNumber (payload m) < n
     \<and> covers (conversation_log (conversationId (metaData m)) D) (sequenceNumber (payload m))"
| "phase_ok n D (Published m) \<longleftrightarrow> 0 \<le> sequenceNumber (payload m) \<and> sequenceNumber (payload m) < n
     \<and> covers (conversation_log (conversationId (metaData m)) D) (sequenceNumber (payload m))
     \<and> sequenceNumber (payload m) \<in> set (conversation_log (conversationId (metaData m)) D)"
| "phase_ok n D (Committed m) \<longleftrightarrow> sequenceNumber (payload m) \<in> set (conversation_log (conversationId (metaData m)) D)"
| "phase_ok n D (Answered r) \<longleftrightarrow>
     (\<forall>res c x. r = Inr res \<longrightarrow> acknowledges (response res) c x \<longrightarrow> x \<in> set (conversation_log c D))"

lemma phase_ok_mono: "phase_ok n D ph \<Longrightarrow> n \<le> n' \<Longrightarrow> phase_ok n' (D @ xs) ph"
  by (cases ph) (auto intro: covers_append)

lemma answered_phase [simp]:
  "answered rq r \<noteq> Arrived" "answered rq r \<noteq> Accepted m" "answered rq r \<noteq> Published m" "answered rq r \<noteq> Committed m"
  "Arrived \<noteq> answered rq r" "Accepted m \<noteq> answered rq r" "Published m \<noteq> answered rq r" "Committed m \<noteq> answered rq r"
  by (simp_all add: answered_def)

lemma answered_error_ok:
  "phase_ok n D (answered rq (Inl e))"
  "phase_ok n D (answered rq (send_failure now c e))"
  "phase_ok n D (answered rq (out_of_order_result now c x))"
  "phase_ok n D (answered rq (validation_failure P now c es))"
proof -
  obtain s d ts where f: "send_failure now c e = Inr (error_outcome s now c d ts)"
    using send_failure_outcome by metis
  show "phase_ok n D (answered rq (Inl e))"
    by (simp add: answered_def internal_outcome error_not_ack)
  show "phase_ok n D (answered rq (send_failure now c e))" by (simp add: f error_not_ack)
  show "phase_ok n D (answered rq (out_of_order_result now c x))" by (simp add: out_of_order_outcome error_not_ack)
  show "phase_ok n D (answered rq (validation_failure P now c es))" by (simp add: validation_failure_outcome error_not_ack)
qed

section \<open>The fleet over its contracts\<close>

locale service_fleet =
  fixes S :: "nat \<Rightarrow> 's seq_ops" and ok :: "'s \<Rightarrow> bool" and expected :: "string \<Rightarrow> 's \<Rightarrow> int"
    and K :: "nat \<Rightarrow> 'k producer_ops" and kok :: "'k \<Rightarrow> bool"
    and delivered :: "'k \<Rightarrow> (string \<times> dict) list" and pending :: "'k \<Rightarrow> (string \<times> dict) set" and P :: pydantic
  assumes instances: "orchestration (S i) ok expected (K i) kok delivered pending P"
begin

abbreviation "dinv \<equiv> delivery_inv expected delivered pending"

lemma inv_facts:
  assumes "dinv s k"
  shows "gap_free (conversation_log c (delivered k))" and "covers (conversation_log c (delivered k)) (expected c s)"
    and "(c, d) \<in> pending k \<Longrightarrow> message_seq d = Some n \<Longrightarrow> covers (conversation_log c (delivered k)) n"
  using assms by (auto simp: delivery_inv_def)

lemma inv_counter:
  assumes "dinv s k" and "\<And>c. covers (conversation_log c (delivered k)) (expected c s')"
  shows "dinv s' k"
  using assms by (auto simp: delivery_inv_def)

lemma seq: "sequence_backend (S i) ok expected"
  using instances by (rule orchestration.axioms(1))

lemma prod: "producer_backend (K i) kok delivered pending"
  using instances by (rule orchestration.axioms(2))

lemmas prepare_frame = sequence_backend.prepare_frame [OF seq]
  and prepare_status = sequence_backend.prepare_status [OF seq]
  and commit_frame = sequence_backend.commit_frame [OF seq]
  and commit_counter = sequence_backend.commit_counter [OF seq]
  and cleanup_frame = sequence_backend.cleanup_frame [OF seq]
  and send_returned = producer_backend.send_returned [OF prod]
  and send_raised = producer_backend.send_raised [OF prod]
  and accepted_facts = orchestration.accepted_facts [OF instances]

text \<open>The pre-check of one task.\<close>

lemma begin_inv:
  assumes step: "begin_step P (S i) rq s = (ph, s')" and ok: "ok s" and inv: "dinv s k"
    and n: "\<And>c. expected c s \<le> n" "n < exact_limit"
  shows "ok s' \<and> (\<forall>c. expected c s' = expected c s) \<and> phase_ok (n + 1) (delivered k) ph
    \<and> (\<forall>m. ph = Accepted m \<longrightarrow> model_validate P (rq_raw rq) = Inr m
        \<and> sequenceNumber (payload m) = expected (conversationId (metaData m)) s)
    \<and> (\<forall>m. ph \<noteq> Published m \<and> ph \<noteq> Committed m)"
proof (cases "model_validate P (rq_raw rq)")
  case (Inl es)
  then show ?thesis using step ok answered_error_ok(4) by (auto simp: begin_step_def)
next
  case m: (Inr m)
  define cid where "cid = conversationId (metaData m)"
  define x where "x = sequenceNumber (payload m)"
  obtain r s1 where p: "sm_prepare (S i) cid x s = (r, s1)" by fastforce
  have fr: "ok s1" "\<And>c. expected c s1 = expected c s" using prepare_frame [OF ok p] by blast+
  have x: "0 \<le> x" using accepted_facts [OF m] by (simp add: x_def)
  show ?thesis
  proof (cases r)
    case (Inl e)
    then show ?thesis using step m p fr answered_error_ok(1)
      by (auto simp: begin_step_def Let_def cid_def x_def)
  next
    case (Inr prep)
    have lim: "expected cid s < exact_limit" using n(1) [of cid] n(2) by simp
    have st: "status prep = sequence_status x (expected cid s)"
      using prepare_status [OF ok x lim] p Inr by fastforce
    show ?thesis
    proof (cases "status prep")
      case IDEMPOTENT
      then have "x < expected cid s" using st by (simp add: sequence_status_def split: if_splits)
      then have "x \<in> set (conversation_log cid (delivered k))"
        using inv_facts(2) [OF inv, of cid] x by (simp add: covers_def)
      then show ?thesis using step m p fr Inr IDEMPOTENT
        by (auto simp: begin_step_def Let_def cid_def x_def idempotent_result_def acknowledges_ack)
    next
      case OUT_OF_ORDER
      then show ?thesis using step m p fr Inr answered_error_ok(3)
        by (auto simp: begin_step_def Let_def cid_def x_def)
    next
      case PRE_CHECK_OK
      then have e: "x = expected cid s" using st by (simp add: sequence_status_def split: if_splits)
      show ?thesis using step m p fr Inr PRE_CHECK_OK e n(1) [of cid] x inv_facts(2) [OF inv, of cid]
          model_validate_dict [OF m]
        by (auto simp: begin_step_def Let_def cid_def x_def)
    qed
  qed
qed

text \<open>The publication of one task: what was in flight may arrive before it, in its place if the send fails.\<close>

lemma send_inv:
  assumes step: "handler_step P (S i) (K i) rq (Accepted m) (s, k) = (ph, s', k')" and kok: "kok k" and inv: "dinv s k"
    and task: "phase_ok n (delivered k) (Accepted m)"
  shows "s' = s \<and> kok k' \<and> dinv s k' \<and> phase_ok n (delivered k') ph \<and> (\<exists>xs. delivered k' = delivered k @ xs)
    \<and> (\<forall>m'. ph = Published m' \<longrightarrow> m' = m) \<and> (\<forall>m'. ph \<noteq> Accepted m' \<and> ph \<noteq> Committed m')"
proof -
  define cid where "cid = conversationId (metaData m)"
  define d where "d = to_kafka_payload P (rq_produced_at rq) m (rq_raw rq)"
  have x: "message_seq d = Some (sequenceNumber (payload m))" by (simp add: d_def)
  obtain r k1 where snd: "p_send (K i) cid d k = (r, k1)" by fastforce
  have known: "covers (conversation_log c (delivered k)) j" if "(c, e) \<in> insert (cid, d) (pending k)" "message_seq e = Some j" for c e j
    using that task x inv_facts(3) [OF inv] by (auto simp: cid_def)
  have early: "covers (conversation_log c (delivered k)) j"
    if "set late \<subseteq> insert (cid, d) (pending k)" "j \<in> set (conversation_log c late)" for late c j
  proof -
    note h = that
    obtain e where "(c, e) \<in> set late" "message_seq e = Some j" using h(2) by (auto simp: conversation_log_set)
    then show ?thesis using known [of c e j] h(1) by blast
  qed
  show ?thesis
  proof (cases r)
    case (Inl e)
    obtain late where late: "kok k1" "pending k1 \<subseteq> insert (cid, d) (pending k)" "set late \<subseteq> insert (cid, d) (pending k)"
      "delivered k1 = delivered k @ late"
      using send_raised [OF kok] snd Inl by blast
    have "dinv s k1"
      unfolding delivery_inv_def
    proof (intro allI conjI impI)
      fix c
      show "gap_free (conversation_log c (delivered k1))"
        unfolding late(4) conversation_log_simps
        by (rule gap_free_append [OF inv_facts(1) [OF inv]]) (rule early [OF late(3)])
      show "covers (conversation_log c (delivered k1)) (expected c s)"
        using inv_facts(2) [OF inv] by (simp add: late(4) covers_append)
      show "covers (conversation_log c (delivered k1)) j" if "(c, e) \<in> pending k1" "message_seq e = Some j" for e j
        using known [of c e j] that late(2) by (auto simp: late(4) intro: covers_append)
    qed
    then show ?thesis
      using step snd Inl late answered_error_ok(2) by (auto simp: Let_def cid_def d_def)
  next
    case (Inr u)
    obtain late where late: "kok k1" "pending k1 \<subseteq> pending k" "set late \<subseteq> pending k"
      "delivered k1 = delivered k @ late @ [(cid, d)]"
      using send_returned [OF kok] snd Inr by blast
    let ?L = "\<lambda>c. conversation_log c (delivered k @ late)"
    have log: "conversation_log c (delivered k1) = ?L c @ (if c = cid then [sequenceNumber (payload m)] else [])" for c
      using x by (simp add: late(4))
    have cov: "covers (?L cid) (sequenceNumber (payload m))" using task by (simp add: cid_def covers_append)
    have "dinv s k1"
      unfolding delivery_inv_def
    proof (intro allI conjI impI)
      fix c
      have "gap_free (?L c)"
        unfolding conversation_log_simps
        by (rule gap_free_append [OF inv_facts(1) [OF inv]]) (rule early [OF subset_insertI2 [OF late(3)]])
      then show "gap_free (conversation_log c (delivered k1))"
        using cov by (auto simp: log gap_free_snoc simp del: conversation_log_simps)
      show "covers (conversation_log c (delivered k1)) (expected c s)"
        using inv_facts(2) [OF inv] by (simp add: late(4) covers_append)
      show "covers (conversation_log c (delivered k1)) j" if "(c, e) \<in> pending k1" "message_seq e = Some j" for e j
        using known [of c e j] that late(2) by (auto simp: late(4) intro: covers_append)
    qed
    moreover have "phase_ok n (delivered k1) (Published m)"
      using task cov log [of cid] by (auto simp: cid_def intro: covers_append)
    ultimately show ?thesis using step snd Inr late by (auto simp: Let_def cid_def d_def)
  qed
qed

text \<open>The commit and the cleanup of one task: whatever the counter was, it becomes the number behind a published one, or stays.\<close>

lemma commit_inv:
  assumes step: "handler_step P (S i) (K i) rq (Published m) (s, k) = (ph, s', k')" and ok: "ok s" and inv: "dinv s k"
    and task: "phase_ok n (delivered k) (Published m)" and n: "n \<le> exact_limit"
  shows "k' = k \<and> ok s' \<and> dinv s' k \<and> phase_ok n (delivered k) ph
    \<and> (\<forall>c. c \<noteq> conversationId (metaData m) \<longrightarrow> expected c s' = expected c s)
    \<and> expected (conversationId (metaData m)) s' \<in> {expected (conversationId (metaData m)) s, sequenceNumber (payload m) + 1}
    \<and> (\<forall>m'. ph = Committed m' \<longrightarrow> m' = m) \<and> (\<forall>m'. ph \<noteq> Accepted m' \<and> ph \<noteq> Published m')"
proof -
  define cid where "cid = conversationId (metaData m)"
  define x where "x = sequenceNumber (payload m)"
  obtain r s1 where c: "sm_commit (S i) cid x s = (r, s1)" by fastforce
  have x: "0 \<le> x" "x < exact_limit" using task n by (simp_all add: x_def)
  have fr: "ok s1" "\<And>c. c \<noteq> cid \<Longrightarrow> expected c s1 = expected c s"
    using commit_frame [OF ok x(1) c] by blast+
  have e: "expected cid s1 \<in> {expected cid s, x + 1}" using commit_counter [OF ok x c] by auto
  have "covers (conversation_log cid (delivered k)) (x + 1)"
    using task by (auto simp: cid_def x_def intro: covers_step)
  then have "covers (conversation_log c (delivered k)) (expected c s1)" for c
    using inv_facts(2) [OF inv, of c] fr(2) [of c] e by (cases "c = cid") auto
  then have "dinv s1 k" by (rule inv_counter [OF inv])
  moreover have "s' = s1 \<and> k' = k"
    using step c by (auto simp: Let_def cid_def x_def split: sum.splits if_splits)
  moreover have "(\<exists>e. ph = answered rq (Inl e)) \<or> ph = Committed m \<or> ph = answered rq (Inr (ongoing_result (rq_now rq) cid x))"
    using step c by (cases r) (auto simp: Let_def cid_def x_def split: if_splits)
  then have "phase_ok n (delivered k) ph \<and> (\<forall>m'. ph = Committed m' \<longrightarrow> m' = m) \<and> (\<forall>m'. ph \<noteq> Accepted m' \<and> ph \<noteq> Published m')"
    using task answered_error_ok(1) by (elim disjE exE) (auto simp: cid_def x_def ongoing_result_def acknowledges_ack)
  ultimately show ?thesis using fr e by (auto simp: cid_def x_def)
qed

text \<open>One step of a task, whatever its phase, and what it leaves for every other task.\<close>

lemma step_inv:
  assumes step: "handler_step P (S i) (K i) rq ph0 (s, k) = (ph, s', k')"
    and ok: "ok s" "kok k" and inv: "dinv s k" and e: "\<And>c. expected c s \<le> n" and n: "n < exact_limit"
    and task: "phase_ok n (delivered k) ph0"
  shows "ok s' \<and> kok k' \<and> dinv s' k' \<and> (\<forall>c. expected c s' \<le> n + 1) \<and> phase_ok (n + 1) (delivered k') ph
    \<and> (\<exists>xs. delivered k' = delivered k @ xs)"
proof (cases ph0)
  case Arrived
  obtain ph1 s1 where b: "begin_step P (S i) rq s = (ph1, s1)" by fastforce
  then show ?thesis
    using step Arrived begin_inv [OF b ok(1) inv e n] ok e inv_counter [OF inv] inv_facts(2) [OF inv]
    by (auto simp: add_increasing2)
next
  case (Accepted m)
  show ?thesis
    using send_inv [OF step [unfolded Accepted] ok(2) inv task [unfolded Accepted]] ok(1) e
      phase_ok_mono [of n "delivered k'" ph "n + 1" "[]"] by (auto simp: add_increasing2)
next
  case (Published m)
  note h = commit_inv [OF step [unfolded Published] ok(1) inv task [unfolded Published]]
  have "expected c s' \<le> n + 1" for c
    using h n e [of c] task Published by (cases "c = conversationId (metaData m)") auto
  then show ?thesis
    using h n ok(2) phase_ok_mono [of n "delivered k" ph "n + 1" "[]"] by auto
next
  case (Committed m)
  obtain r s1 where c: "sm_cleanup (S i) (conversationId (metaData m)) s = (r, s1)" by fastforce
  have "ok s1 \<and> (\<forall>c. expected c s1 = expected c s)" using cleanup_frame [OF ok(1) c] by blast
  then show ?thesis
    using step Committed c ok e task inv_counter [OF inv, of s1] inv_facts(2) [OF inv]
    by (auto simp: Let_def complete_result_def acknowledges_ack add_increasing2)
next
  case (Answered r)
  then show ?thesis using step ok inv e task by (auto simp: add_increasing2)
qed

text \<open>The invariant of a run: the topic and the counters, and every task.\<close>

lemma interleaved_inv:
  assumes run: "interleaved x S K P ok expected kok delivered pending s0 k0 n s k ts"
    and start: "ok s0" "kok k0" "\<And>c. expected c s0 = 0" "delivered k0 = []" "pending k0 = {}"
    and small: "int n < exact_limit"
  shows "ok s \<and> kok k \<and> dinv s k \<and> (\<forall>c. expected c s \<le> int n)
    \<and> (\<forall>t\<in>set ts. phase_ok (int n) (delivered k) (tk_phase t))"
  using run small
proof (induction rule: interleaved.induct)
  case nothing
  then show ?case using start by (simp add: delivery_inv_def)
next
  case (arrives n s k ts i rq)
  then show ?case by auto
next
  case (moves n s k ts j ph s' k')
  then have ih: "ok s" "kok k" "dinv s k" "\<And>c. expected c s \<le> int n"
      "\<And>t. t \<in> set ts \<Longrightarrow> phase_ok (int n) (delivered k) (tk_phase t)" and lim: "int n < exact_limit" by auto
  have "phase_ok (int n) (delivered k) (tk_phase (ts ! j))" using ih(5) moves.hyps(2) by simp
  note h = step_inv [OF moves.hyps(4) ih(1-4) lim this]
  then obtain xs where xs: "delivered k' = delivered k @ xs" by blast
  have "phase_ok (int n + 1) (delivered k') (tk_phase t)" if "t \<in> set ts" for t
    unfolding xs by (rule phase_ok_mono [OF ih(5) [OF that]]) simp
  then have "phase_ok (int n + 1) (delivered k') (tk_phase t)"
    if "t \<in> set (ts[j := (ts ! j)\<lparr>tk_phase := ph\<rparr>])" for t
    using that h set_update_subset_insert [of ts j] by fastforce
  then show ?case using h by (simp add: add.commute)
next
  case (expires n s k ts s')
  then have ih: "dinv s k" "\<And>c. expected c s \<le> int n" by auto
  have "covers (conversation_log c (delivered k)) (expected c s')" for c
    using inv_facts(2) [OF ih(1), of c] expires.hyps(3) [rule_format, of c] by auto
  moreover have "expected c s' \<le> int n" for c
    using ih(2) [of c] expires.hyps(3) [rule_format, of c] by auto
  ultimately show ?case using expires inv_counter [OF ih(1)] by auto
next
  case (comes_late n s k ts k' late)
  then have ih: "dinv s k" "\<And>t. t \<in> set ts \<Longrightarrow> phase_ok (int n) (delivered k) (tk_phase t)" by auto
  have "dinv s k'"
    by (rule delivery_inv_late [OF ih(1) comes_late.hyps(4,5)])
      (use comes_late.hyps(3) inv_facts [OF ih(1)] in auto)
  moreover have "phase_ok (int n) (delivered k') (tk_phase t)" if "t \<in> set ts" for t
    unfolding comes_late.hyps(5) by (rule phase_ok_mono [OF ih(2) [OF that]]) simp
  ultimately show ?case using comes_late by auto
qed

text \<open>Under exclusive access a held number is the expected one, and a conversation is held once.\<close>

lemma step_effect:
  assumes step: "handler_step P (S i) (K i) rq ph0 (s, k) = (ph, s', k')"
    and ok: "ok s" "kok k" and inv: "dinv s k" and e: "\<And>c. expected c s \<le> n" and n: "n < exact_limit"
    and task: "phase_ok n (delivered k) ph0"
  obtains (quiet) "\<And>c. expected c s' = expected c s" "\<And>c. holds c ph \<Longrightarrow> holds c ph0 \<Longrightarrow> held_number ph = held_number ph0"
      "\<And>c. holds c ph \<Longrightarrow> \<not> holds c ph0 \<Longrightarrow> held_number ph = expected c s \<and> ph0 = Arrived
        \<and> (\<exists>m. model_validate P (rq_raw rq) = Inr m \<and> conversationId (metaData m) = c)"
  | (counted) m where "ph0 = Published m" "\<And>c. \<not> holds c ph" "\<And>c. c \<noteq> conversationId (metaData m) \<Longrightarrow> expected c s' = expected c s"
      "expected (conversationId (metaData m)) s' \<in> {expected (conversationId (metaData m)) s, held_number ph0 + 1}"
proof (cases ph0)
  case Arrived
  obtain ph1 s1 where b: "begin_step P (S i) rq s = (ph1, s1)" by fastforce
  show ?thesis
    by (rule quiet; cases ph) (use step Arrived b begin_inv [OF b ok(1) inv e n] in auto)
next
  case (Accepted m)
  note h = send_inv [OF step [unfolded Accepted] ok(2) inv task [unfolded Accepted]]
  show ?thesis by (rule quiet; cases ph) (use h Accepted in auto)
next
  case (Published m)
  note h = commit_inv [OF step [unfolded Published] ok(1) inv task [unfolded Published]]
  show ?thesis
    by (rule counted [OF Published]; cases ph) (use h n Published in auto)
next
  case (Committed m)
  obtain r s1 where c: "sm_cleanup (S i) (conversationId (metaData m)) s = (r, s1)" by fastforce
  have "ok s1 \<and> (\<forall>c. expected c s1 = expected c s)" using cleanup_frame [OF ok(1) c] by blast
  then show ?thesis by (intro quiet) (use step Committed c in \<open>auto simp: Let_def\<close>)
next
  case (Answered r)
  show ?thesis by (rule quiet) (use step Answered in auto)
qed

lemma exclusive_step:
  assumes step: "handler_step P (S i) (K i) (tk_request (ts ! j)) (tk_phase (ts ! j)) (s, k) = (ph, s', k')"
    and ok: "ok s" "kok k" and inv: "dinv s k" and e: "\<And>c. expected c s \<le> n" and n: "n < exact_limit"
    and j: "j < length ts" "phase_ok n (delivered k) (tk_phase (ts ! j))"
    and alone: "alone P ts j" and excl: "exclusive_ok expected s ts"
  shows "exclusive_ok expected s' (ts[j := (ts ! j)\<lparr>tk_phase := ph\<rparr>]) \<and> (\<forall>c. expected c s' \<in> {expected c s, expected c s + 1})"
proof -
  have x: "held_number (tk_phase (ts ! l)) = expected c s" if "l < length ts" "holds c (tk_phase (ts ! l))" for l c
    using excl that unfolding exclusive_ok_def by blast
  have apart: "l = m" if "l < length ts" "m < length ts" "holds c (tk_phase (ts ! l))" "holds c (tk_phase (ts ! m))" for l m c
    using excl that unfolding exclusive_ok_def by blast
  show ?thesis
    using step ok inv e n j(2)
  proof (cases rule: step_effect)
    case quiet
    have free: "\<not> holds c ph" if l: "l < length ts" "l \<noteq> j" "holds c (tk_phase (ts ! l))" for c l
    proof
      assume h: "holds c ph"
      show False
      proof (cases "holds c (tk_phase (ts ! j))")
        case True
        then show ?thesis using apart [OF j(1) l(1) _ l(3)] l(2) by simp
      next
        case False
        then show ?thesis using quiet(3) [OF h] alone l by (auto simp: alone_def list_all_length)
      qed
    qed
    have new: "held_number ph = expected c s'" if h: "holds c ph" for c
      using quiet(2,3) [OF h] x [OF j(1)] quiet(1) [of c] by (cases "holds c (tk_phase (ts ! j))") simp_all
    have "exclusive_ok expected s' (ts[j := (ts ! j)\<lparr>tk_phase := ph\<rparr>])"
    proof (rule exclusive_ok_update)
      show "held_number (tk_phase (ts ! l)) = expected c s' \<and> \<not> holds c ph"
        if "l < length ts" "l \<noteq> j" "holds c (tk_phase (ts ! l))" for l c
        using x [OF that(1,3)] free [OF that] quiet(1) by simp
      show "l = m" if "l < length ts" "m < length ts" "holds c (tk_phase (ts ! l))" "holds c (tk_phase (ts ! m))" for l m c
        using that by (rule apart)
      show "held_number ph = expected c s'" if "holds c ph" for c using that by (rule new)
    qed
    then show ?thesis using quiet(1) by simp
  next
    case (counted m)
    let ?c = "conversationId (metaData m)"
    have held: "held_number (tk_phase (ts ! j)) = expected ?c s" using x [OF j(1), of ?c] counted(1) by simp
    have other: "c \<noteq> ?c" if "l < length ts" "l \<noteq> j" "holds c (tk_phase (ts ! l))" for c l
      using apart [OF j(1) that(1), of ?c] that counted(1) by auto
    have "exclusive_ok expected s' (ts[j := (ts ! j)\<lparr>tk_phase := ph\<rparr>])"
    proof (rule exclusive_ok_update)
      show "held_number (tk_phase (ts ! l)) = expected c s' \<and> \<not> holds c ph"
        if "l < length ts" "l \<noteq> j" "holds c (tk_phase (ts ! l))" for l c
        using x [OF that(1,3)] counted(2) counted(3) [OF other [OF that]] by simp
      show "l = m" if "l < length ts" "m < length ts" "holds c (tk_phase (ts ! l))" "holds c (tk_phase (ts ! m))" for l m c
        using that by (rule apart)
      show "held_number ph = expected c s'" if "holds c ph" for c using that counted(2) by simp
    qed
    moreover have "expected c s' \<in> {expected c s, expected c s + 1}" for c
      using counted(3) [of c] counted(4) held by (cases "c = ?c") auto
    ultimately show ?thesis by blast
  qed
qed

lemma exclusive_inv:
  assumes run: "interleaved True S K P ok expected kok delivered pending s0 k0 n s k ts"
    and start: "ok s0" "kok k0" "\<And>c. expected c s0 = 0" "delivered k0 = []" "pending k0 = {}"
    and small: "int n < exact_limit"
  shows "exclusive_ok expected s ts"
proof -
  define b where "b = True"
  have "b" by (simp add: b_def)
  show ?thesis
    using run [folded b_def] small \<open>b\<close>
  proof (induction rule: interleaved.induct)
    case nothing
    then show ?case by (simp add: exclusive_ok_def)
  next
    case (arrives n s k ts i rq)
    then show ?case by (auto simp: exclusive_ok_def nth_append less_Suc_eq)
  next
    case (moves n s k ts j ph s' k')
    have lim: "int n < exact_limit" using moves.prems by simp
    have i: "ok s" "kok k" "dinv s k" "\<And>c. expected c s \<le> int n" "phase_ok (int n) (delivered k) (tk_phase (ts ! j))"
      using interleaved_inv [OF moves.hyps(1) start lim] moves.hyps(2) by auto
    show ?case
      using exclusive_step [OF moves.hyps(4) i(1-4) lim moves.hyps(2) i(5)] moves by simp
  next
    case (expires n s k ts s')
    then show ?case unfolding exclusive_ok_def by (metis list_all_length)
  next
    case (comes_late n s k ts k' late)
    then show ?case by blast
  qed
qed

end

end
