(* ===== verification/Fleet.thy ===== *)
theory Fleet
  imports Interleaving
begin

text \<open>
  The program as a fleet: instances with a \<open>RedisSequenceStateMachine\<close> and a \<open>KafkaProducer\<close> of their own, configured
  alike, over one Redis (\<open>redis/sequence_state_machine.py\<close>) and one topic (\<open>producer/kafka_producer.py\<close>). The
  guarantees about the topic hold for every interleaving of any number of handlers; the counter needs more: it only
  counts up while a conversation is handled by one handler at a time.
\<close>

section \<open>Instances\<close>

text \<open>An operation of one of the objects, with the world that all of them share.\<close>

definition at_instance :: "nat \<Rightarrow> ('m \<times> 'w, 'a) io \<Rightarrow> ((nat \<Rightarrow> 'm) \<times> 'w, 'a) io" where
  "at_instance i f = (\<lambda>(ms, w). case f (ms i, w) of (r, (m, w')) \<Rightarrow> (r, (ms(i := m), w')))"

definition fleet_sequence :: "'w redis_client \<Rightarrow> nat \<Rightarrow> ((nat \<Rightarrow> seq_sm) \<times> 'w) seq_ops" where
  "fleet_sequence C i = \<lparr>sm_prepare = (\<lambda>cid n. at_instance i (prepare C cid n)), sm_commit = (\<lambda>cid n. at_instance i (commit C cid n)),
     sm_cleanup = (\<lambda>cid. at_instance i (cleanup C cid)), sm_close = at_instance i (sm_close_client C)\<rparr>"

definition fleet_producer :: "'k aiokafka \<Rightarrow> orjson \<Rightarrow> nat \<Rightarrow> ((nat \<Rightarrow> kafka_producer) \<times> 'k) producer_ops" where
  "fleet_producer A J i = \<lparr>p_send = (\<lambda>cid m. at_instance i (kafka_send A J cid m)), p_ensure_ready = at_instance i (ensure_ready A),
     p_flush = at_instance i (kafka_flush A), p_close = at_instance i (kafka_close A)\<rparr>"

definition fleet_ok ::
  "'d redis_ops \<Rightarrow> ('w \<Rightarrow> 'd) \<Rightarrow> (lua_script \<Rightarrow> string) \<Rightarrow> string \<Rightarrow> (nat \<Rightarrow> seq_sm) \<times> 'w \<Rightarrow> bool" where
  "fleet_ok R db sha prefix s \<longleftrightarrow> (\<forall>i. key_prefix (fst s i) = prefix \<and> sm_ok R db sha (fst s i, snd s))"

definition fleet_expected :: "'d redis_ops \<Rightarrow> ('w \<Rightarrow> 'd) \<Rightarrow> string \<Rightarrow> string \<Rightarrow> (nat \<Rightarrow> seq_sm) \<times> 'w \<Rightarrow> int" where
  "fleet_expected R db prefix c s = counter R (sm_key prefix c) (db (snd s))"

definition fleet_topic :: "string \<Rightarrow> (nat \<Rightarrow> kafka_producer) \<times> 'k \<Rightarrow> bool" where
  "fleet_topic tpc k \<longleftrightarrow> (\<forall>i. topic (fst k i) = tpc)"

definition fleet_delivered ::
  "orjson \<Rightarrow> ('k \<Rightarrow> kafka_record list) \<Rightarrow> string \<Rightarrow> (nat \<Rightarrow> kafka_producer) \<times> 'k \<Rightarrow> (string \<times> dict) list" where
  "fleet_delivered J records tpc k = topic_messages J tpc (records (snd k))"

definition fleet_pending ::
  "orjson \<Rightarrow> ('k \<Rightarrow> kafka_record set) \<Rightarrow> string \<Rightarrow> (nat \<Rightarrow> kafka_producer) \<times> 'k \<Rightarrow> (string \<times> dict) set" where
  "fleet_pending J inflight tpc k = read_record J ` {rec \<in> inflight (snd k). fst rec = tpc}"

section \<open>The fleet meets the contracts\<close>

context redis_backend
begin

lemma prepare_config: "sm_ok R db sha (s, w) \<Longrightarrow> prepare C cid n (s, w) = (r, s', w') \<Longrightarrow> sm_config s' = sm_config s"
  by (erule (1) prepare_cases)

lemma commit_config: "sm_ok R db sha (s, w) \<Longrightarrow> commit C cid n (s, w) = (r, s', w') \<Longrightarrow> sm_config s' = sm_config s"
  by (erule (1) commit_cases)

lemma cleanup_config: "sm_ok R db sha (s, w) \<Longrightarrow> cleanup C cid (s, w) = (r, s', w') \<Longrightarrow> sm_config s' = sm_config s"
  by (erule (1) cleanup_cases)

text \<open>One object moves; the others stay valid, since they only depend on the shared counters.\<close>

lemma fleet_ok_update:
  assumes "fleet_ok R db sha prefix (ms, w)" and "sm_ok R db sha (m, w')" and "sm_config m = sm_config (ms i)"
  shows "fleet_ok R db sha prefix (ms(i := m), w')"
  using assms by (auto simp: fleet_ok_def sm_ok_def sm_config_def)

lemma fleet_expected_at: "fleet_ok R db sha prefix (ms, w) \<Longrightarrow> sm_config m = sm_config (ms i) \<Longrightarrow>
    sm_expected R db c (m, w') = fleet_expected R db prefix c (ms', w')"
  by (auto simp: fleet_ok_def sm_expected_def fleet_expected_def sm_config_def)

lemma fleet_sequence_contract:
  "sequence_backend (fleet_sequence C i) (fleet_ok R db sha prefix) (fleet_expected R db prefix)"
proof
  fix s s' :: "(nat \<Rightarrow> seq_sm) \<times> 'w" and c cid :: string and n :: int
  assume ok: "fleet_ok R db sha prefix s"
  obtain ms w where s: "s = (ms, w)" by fastforce
  obtain ms' w' where s': "s' = (ms', w')" by fastforce
  note ok = ok [unfolded s]
  have one: "sm_ok R db sha (ms i, w)" using ok by (simp add: fleet_ok_def)
  have e: "sm_expected R db c (ms i, w) = fleet_expected R db prefix c (ms, w)" for c
    using fleet_expected_at [OF ok refl] by blast
  note seq = sequence_contract
  note defs = s s' fleet_sequence_def at_instance_def redis_sequence_def
  show "0 \<le> fleet_expected R db prefix c s"
    using sequence_backend.expected_nonneg [OF seq one] e s by metis
  have pre: "\<exists>m. prepare C cid n (ms i, w) = (r, m, w') \<and> ms' = ms(i := m)"
    if "sm_prepare (fleet_sequence C i) cid n s = (r, s')" for r
    using that by (auto simp: defs split: prod.splits)
  have com: "\<exists>m. commit C cid n (ms i, w) = (r, m, w') \<and> ms' = ms(i := m)"
    if "sm_commit (fleet_sequence C i) cid n s = (r, s')" for r
    using that by (auto simp: defs split: prod.splits)
  have cle: "\<exists>m. cleanup C cid (ms i, w) = (r, m, w') \<and> ms' = ms(i := m)"
    if "sm_cleanup (fleet_sequence C i) cid s = (r, s')" for r
    using that by (auto simp: defs split: prod.splits)
  show "sm_prepare (fleet_sequence C i) cid n s = (r, s') \<Longrightarrow>
      fleet_ok R db sha prefix s' \<and> fleet_expected R db prefix c s' = fleet_expected R db prefix c s" for r
    using pre [of r] prepare_frame [OF one] prepare_config [OF one] fleet_ok_update [OF ok] fleet_expected_at [OF ok] e
    unfolding s s' by metis
  show "0 \<le> n \<Longrightarrow> fleet_expected R db prefix cid s < exact_limit \<Longrightarrow> sm_prepare (fleet_sequence C i) cid n s = (Inr x, s') \<Longrightarrow>
      x = \<lparr>status = sequence_status n (fleet_expected R db prefix cid s), expected_sequence = Some (fleet_expected R db prefix cid s)\<rparr>" for x
    using pre [of "Inr x"] prepare_status [OF one, of n cid x] e unfolding s by metis
  show "0 \<le> n \<Longrightarrow> sm_commit (fleet_sequence C i) cid n s = (ru, s') \<Longrightarrow>
      fleet_ok R db sha prefix s' \<and> (c \<noteq> cid \<longrightarrow> fleet_expected R db prefix c s' = fleet_expected R db prefix c s)" for ru
    using com [of ru] commit_effect(1,2) [OF one, of n cid ru] commit_config [OF one] fleet_ok_update [OF ok] fleet_expected_at [OF ok] e
    unfolding s s' by metis
  show "0 \<le> n \<Longrightarrow> n < exact_limit \<Longrightarrow> sm_commit (fleet_sequence C i) cid n s = (ru, s') \<Longrightarrow>
      fleet_expected R db prefix cid s' = n + 1 \<or> (is_error ru \<and> fleet_expected R db prefix cid s' = fleet_expected R db prefix cid s)" for ru
  proof -
    assume n: "0 \<le> n" "n < exact_limit" and run: "sm_commit (fleet_sequence C i) cid n s = (ru, s')"
    obtain m where m: "commit C cid n (ms i, w) = (ru, m, w')" "ms' = ms(i := m)" using com [OF run] by blast
    have "sm_commit (redis_sequence C) cid n (ms i, w) = (ru, (m, w'))" using m(1) by (simp add: redis_sequence_def)
    from sequence_backend.commit_counter [OF seq one n this] show ?thesis
      using fleet_expected_at [OF ok commit_config [OF one m(1)]] e unfolding s s' by metis
  qed
  show "sm_cleanup (fleet_sequence C i) cid s = (ru, s') \<Longrightarrow>
      fleet_ok R db sha prefix s' \<and> fleet_expected R db prefix c s' = fleet_expected R db prefix c s" for ru
    using cle [of ru] cleanup_frame [OF one] cleanup_config [OF one] fleet_ok_update [OF ok] fleet_expected_at [OF ok] e
    unfolding s s' by metis
qed

end

context kafka_cluster
begin

lemma kafka_send_topic: "kafka_send A J cid m (p, k) = (r, p', k') \<Longrightarrow> topic p' = topic p"
  by (erule kafka_send_cases)

lemma fleet_producer_contract:
  "producer_backend (fleet_producer A J i) (fleet_topic tpc) (fleet_delivered J records tpc) (fleet_pending J inflight tpc)"
proof
  fix k k' :: "(nat \<Rightarrow> kafka_producer) \<times> 'k" and cid m
  assume ok: "fleet_topic tpc k"
  obtain ps b where k: "k = (ps, b)" by fastforce
  obtain ps' b' where k': "k' = (ps', b')" by fastforce
  have t: "topic (ps i) = tpc" using ok by (simp add: k fleet_topic_def)
  have D: "producer_delivered J records (p, y) = fleet_delivered J records tpc (qs, y)"
    "producer_pending J inflight (p, y) = fleet_pending J inflight tpc (qs, y)" if "topic p = tpc" for p y qs
    using that by (simp_all add: producer_delivered_def fleet_delivered_def producer_pending_def fleet_pending_def)
  have one: "\<exists>p. p_send (kafka_backend A J) cid m (ps i, b) = (r, (p, b')) \<and> ps' = ps(i := p) \<and> topic p = tpc"
    if run: "p_send (fleet_producer A J i) cid m k = (r, k')" for r
  proof -
    obtain r0 p b0 where s: "kafka_send A J cid m (ps i, b) = (r0, p, b0)" by (metis prod_cases3)
    then show ?thesis
      using run kafka_send_topic [OF s] t by (auto simp: fleet_producer_def kafka_backend_def at_instance_def k k')
  qed
  have topics: "fleet_topic tpc (ps(i := p), b')" if "topic p = tpc" for p
    using ok that by (simp add: fleet_topic_def k)
  show "fleet_topic tpc k' \<and> fleet_pending J inflight tpc k' \<subseteq> fleet_pending J inflight tpc k
      \<and> (\<exists>late. set late \<subseteq> fleet_pending J inflight tpc k
        \<and> fleet_delivered J records tpc k' = fleet_delivered J records tpc k @ late @ [(cid, m)])"
    if "p_send (fleet_producer A J i) cid m k = (Inr u, k')" for u
  proof -
    note h = that
    obtain p where p: "p_send (kafka_backend A J) cid m (ps i, b) = (Inr u, (p, b'))" "ps' = ps(i := p)" "topic p = tpc"
      using one [OF h] by blast
    show ?thesis
      using producer_backend.send_returned [OF producer_contract TrueI p(1)] topics [OF p(3)]
      unfolding k k' p(2) D(1) [OF p(3), of _ "ps(i := p)"] D(2) [OF p(3), of _ "ps(i := p)"] D(1) [OF t, of _ ps] D(2) [OF t, of _ ps] by blast
  qed
  show "fleet_topic tpc k' \<and> fleet_pending J inflight tpc k' \<subseteq> insert (cid, m) (fleet_pending J inflight tpc k)
      \<and> (\<exists>late. set late \<subseteq> insert (cid, m) (fleet_pending J inflight tpc k)
        \<and> fleet_delivered J records tpc k' = fleet_delivered J records tpc k @ late)"
    if "p_send (fleet_producer A J i) cid m k = (Inl e, k')" for e
  proof -
    note h = that
    obtain p where p: "p_send (kafka_backend A J) cid m (ps i, b) = (Inl e, (p, b'))" "ps' = ps(i := p)" "topic p = tpc"
      using one [OF h] by blast
    show ?thesis
      using producer_backend.send_raised [OF producer_contract TrueI p(1)] topics [OF p(3)]
      unfolding k k' p(2) D(1) [OF p(3), of _ "ps(i := p)"] D(2) [OF p(3), of _ "ps(i := p)"] D(1) [OF t, of _ ps] D(2) [OF t, of _ ps] by blast
  qed
qed

end

sublocale deployment \<subseteq> shared: service_fleet "fleet_sequence C" "fleet_ok R db sha prefix" "fleet_expected R db prefix"
  "fleet_producer A J" "fleet_topic tpc" "fleet_delivered J records tpc" "fleet_pending J inflight tpc" P for prefix tpc
  by (intro service_fleet.intro orchestration.intro orchestration_axioms.intro fleet_sequence_contract fleet_producer_contract deployed_pydantic)

lemma deployment_fleet:
  assumes "deployment R C db sha up loaded A J records inflight P"
  shows "service_fleet (fleet_sequence C) (fleet_ok R db sha prefix) (fleet_expected R db prefix)
    (fleet_producer A J) (fleet_topic tpc) (fleet_delivered J records tpc) (fleet_pending J inflight tpc) P"
  using assms
  by (intro service_fleet.intro orchestration.intro orchestration_axioms.intro redis_backend.fleet_sequence_contract
      kafka_cluster.fleet_producer_contract deployment.axioms(1) deployment.axioms(2))
    (auto simp: deployment_def deployment_axioms_def)

section \<open>Runs of the program\<close>

definition fleet_run ::
  "bool \<Rightarrow> 'd redis_ops \<Rightarrow> 'w redis_client \<Rightarrow> ('w \<Rightarrow> 'd) \<Rightarrow> (lua_script \<Rightarrow> string) \<Rightarrow> 'k aiokafka \<Rightarrow> orjson
    \<Rightarrow> ('k \<Rightarrow> kafka_record list) \<Rightarrow> ('k \<Rightarrow> kafka_record set) \<Rightarrow> pydantic \<Rightarrow> string \<Rightarrow> string
    \<Rightarrow> (nat \<Rightarrow> seq_sm) \<times> 'w \<Rightarrow> (nat \<Rightarrow> kafka_producer) \<times> 'k \<Rightarrow> nat \<Rightarrow> (nat \<Rightarrow> seq_sm) \<times> 'w \<Rightarrow> (nat \<Rightarrow> kafka_producer) \<times> 'k
    \<Rightarrow> task list \<Rightarrow> bool" where
  "fleet_run exclusive R C db sha A J records inflight P prefix tpc =
     interleaved exclusive (fleet_sequence C) (fleet_producer A J) P (fleet_ok R db sha prefix) (fleet_expected R db prefix)
       (fleet_topic tpc) (fleet_delivered J records tpc) (fleet_pending J inflight tpc)"

text \<open>At the start no counter is stored, and nothing is published to the topic or in flight to it.\<close>

definition fleet_start ::
  "'d redis_ops \<Rightarrow> ('w \<Rightarrow> 'd) \<Rightarrow> (lua_script \<Rightarrow> string) \<Rightarrow> orjson \<Rightarrow> ('k \<Rightarrow> kafka_record list) \<Rightarrow> ('k \<Rightarrow> kafka_record set)
    \<Rightarrow> string \<Rightarrow> string \<Rightarrow> (nat \<Rightarrow> seq_sm) \<times> 'w \<Rightarrow> (nat \<Rightarrow> kafka_producer) \<times> 'k \<Rightarrow> bool" where
  "fleet_start R db sha J records inflight prefix tpc s k \<longleftrightarrow> fleet_ok R db sha prefix s
     \<and> (\<forall>c. fleet_expected R db prefix c s = 0) \<and> fleet_topic tpc k
     \<and> fleet_delivered J records tpc k = [] \<and> fleet_pending J inflight tpc k = {}"

lemma fleet_invariant:
  assumes dep: "deployment R C db sha up loaded A J records inflight P"
    and start: "fleet_start R db sha J records inflight prefix tpc s0 k0"
    and run: "fleet_run x R C db sha A J records inflight P prefix tpc s0 k0 n s k ts" and small: "int n < exact_limit"
  shows "fleet_ok R db sha prefix s \<and> fleet_topic tpc k
    \<and> delivery_inv (fleet_expected R db prefix) (fleet_delivered J records tpc) (fleet_pending J inflight tpc) s k
    \<and> (\<forall>c. fleet_expected R db prefix c s \<le> int n) \<and> (\<forall>t\<in>set ts. phase_ok (int n) (fleet_delivered J records tpc k) (tk_phase t))"
  by (rule service_fleet.interleaved_inv [OF deployment_fleet [OF dep] run [unfolded fleet_run_def]])
    (use start small in \<open>auto simp: fleet_start_def\<close>)

section \<open>A concrete fleet\<close>

text \<open>A schedule: a message arrives at an instance, or a task moves.\<close>

datatype schedule_event = Arrives nat request | Moves nat

fun schedule_step ::
  "pydantic \<Rightarrow> (nat \<Rightarrow> 's seq_ops) \<Rightarrow> (nat \<Rightarrow> 'k producer_ops) \<Rightarrow> schedule_event \<Rightarrow> ('s \<times> 'k) \<times> task list \<Rightarrow> ('s \<times> 'k) \<times> task list" where
  "schedule_step P S K (Arrives i rq) (w, ts) = (w, ts @ [\<lparr>tk_instance = i, tk_request = rq, tk_phase = Arrived\<rparr>])"
| "schedule_step P S K (Moves j) (w, ts) =
     (let t = ts ! j in
      case handler_step P (S (tk_instance t)) (K (tk_instance t)) (tk_request t) (tk_phase t) w of
        (ph, w') \<Rightarrow> (w', ts[j := t\<lparr>tk_phase := ph\<rparr>]))"

definition run_schedule where
  "run_schedule P S K es x = fold (schedule_step P S K) es x"

definition start_fleet :: "((nat \<Rightarrow> seq_sm) \<times> redis_server) \<times> ((nat \<Rightarrow> kafka_producer) \<times> kafka_server)" where
  "start_fleet = ((\<lambda>_. sample_sm, empty_redis []), (\<lambda>_. sample_producer, empty_kafka []))"

abbreviation serve_fleet where
  "serve_fleet es \<equiv> run_schedule strict_pydantic (fleet_sequence server_client) (fleet_producer server_kafka numbering_orjson) es (start_fleet, [])"

definition transcript_no :: "int \<Rightarrow> request" where
  "transcript_no n = \<lparr>rq_now = ''now'', rq_produced_at = ''then'', rq_raw = sample_ongoing ''c1'' n, rq_conversation = ''c1''\<rparr>"

text \<open>
  The first transcript is published by instance 0, which then stalls before its commit. The client comes back
  at instance 1, sends it again and then the next one; then the commit of instance 0 goes through, and the client goes on.
\<close>

definition overtaken :: "schedule_event list" where
  "overtaken = [Arrives 0 (transcript_no 0), Moves 0, Moves 0, Arrives 1 (transcript_no 0), Moves 1, Moves 1, Moves 1,
     Arrives 1 (transcript_no 1), Moves 2, Moves 2, Moves 2]"

lemmas fleet_simps = run_schedule_def start_fleet_def transcript_no_def fleet_sequence_def fleet_producer_def at_instance_def
  begin_step_def fleet_expected_def counter_def

lemmas schedule_simps = fleet_simps serve_simps dumps_numbering ongoing_message_def

text \<open>A schedule that names only tasks that exist is a run.\<close>

fun schedule_fits ::
  "bool \<Rightarrow> pydantic \<Rightarrow> (nat \<Rightarrow> 's seq_ops) \<Rightarrow> (nat \<Rightarrow> 'k producer_ops) \<Rightarrow> schedule_event list \<Rightarrow> ('s \<times> 'k) \<times> task list \<Rightarrow> bool" where
  "schedule_fits x P S K [] st \<longleftrightarrow> True"
| "schedule_fits x P S K (e # es) st \<longleftrightarrow>
     (case e of Arrives _ _ \<Rightarrow> True | Moves j \<Rightarrow> j < length (snd st) \<and> (x \<longrightarrow> alone P (snd st) j))
     \<and> schedule_fits x P S K es (schedule_step P S K e st)"

fun moves_in :: "schedule_event list \<Rightarrow> nat" where
  "moves_in [] = 0"
| "moves_in (Arrives _ _ # es) = moves_in es"
| "moves_in (Moves _ # es) = Suc (moves_in es)"

lemma schedule_runs:
  assumes "interleaved x S K P ok expected kok delivered pending s0 k0 n s k ts"
    and "schedule_fits x P S K es ((s, k), ts)" and "run_schedule P S K es ((s, k), ts) = ((s', k'), ts')"
  shows "interleaved x S K P ok expected kok delivered pending s0 k0 (n + moves_in es) s' k' ts'"
  using assms
proof (induction es arbitrary: n s k ts)
  case Nil
  then show ?case by (simp add: run_schedule_def)
next
  case (Cons e es)
  show ?case
  proof (cases e)
    case (Arrives i rq)
    show ?thesis
      using Cons.IH [OF interleaved.arrives [OF Cons.prems(1), of i rq]] Cons.prems(2,3) by (simp add: Arrives run_schedule_def)
  next
    case (Moves j)
    obtain ph s1 k1 where h: "handler_step P (S (tk_instance (ts ! j))) (K (tk_instance (ts ! j))) (tk_request (ts ! j))
        (tk_phase (ts ! j)) (s, k) = (ph, s1, k1)" by (metis prod_cases3)
    have j: "j < length ts" "x \<longrightarrow> alone P ts j" using Cons.prems(2) by (auto simp: Moves)
    show ?thesis
      using Cons.IH [OF interleaved.moves [OF Cons.prems(1) j h]] Cons.prems(2,3) by (simp add: Moves run_schedule_def h)
  qed
qed

abbreviation concrete_fleet_run where
  "concrete_fleet_run x \<equiv> fleet_run x clock_redis_ops server_client rs_db script_sha server_kafka numbering_orjson ks_records
     (\<lambda>k. set (ks_inflight k)) strict_pydantic ''seq'' ''transcripts'' (fst start_fleet) (snd start_fleet)"

lemma concrete_fleet_start:
  "fleet_start clock_redis_ops rs_db script_sha numbering_orjson ks_records (\<lambda>k. set (ks_inflight k)) ''seq'' ''transcripts''
     (fst start_fleet) (snd start_fleet)"
  using sample_sm_ok [of "[]"]
  by (simp add: fleet_start_def start_fleet_def fleet_ok_def fleet_expected_def fleet_topic_def fleet_delivered_def
      fleet_pending_def empty_kafka_def sample_producer_def counter_def server_simps)

lemma concrete_schedule:
  assumes "schedule_fits x strict_pydantic (fleet_sequence server_client) (fleet_producer server_kafka numbering_orjson) es (start_fleet, [])"
    and "serve_fleet es = ((s, k), ts)"
  shows "concrete_fleet_run x (moves_in es) s k ts"
  using schedule_runs [OF interleaved.nothing [of x _ _ _ _ _ _ _ _ "fst start_fleet" "snd start_fleet"]] assms
  by (simp add: fleet_run_def)

section \<open>Properties\<close>

text \<open>
  C1. No gaps under concurrency. Whatever the clients send, however many handlers of however many instances interleave, stall or
  stop for good, however Redis and Kafka fail, and even when counters expire: in the topic, a sequence
  number of a conversation is preceded by every smaller one of that conversation, and every number below the
  conversation's counter is there.
\<close>

theorem gap_free_interleaved:
  assumes dep: "deployment R C db sha up loaded A J records inflight P"
    and start: "fleet_start R db sha J records inflight prefix tpc s0 k0"
    and run: "fleet_run x R C db sha A J records inflight P prefix tpc s0 k0 n s k ts" and small: "int n < exact_limit"
  shows "gap_free (conversation_log c (fleet_delivered J records tpc k))
    \<and> covers (conversation_log c (fleet_delivered J records tpc k)) (fleet_expected R db prefix c s)"
  using fleet_invariant [OF assms] by (simp add: delivery_inv_def)

theorem gap_free_interleaved_witness:
  "\<exists>n s k ts. concrete_fleet_run False n s k ts \<and> fleet_expected clock_redis_ops rs_db ''seq'' ''c1'' s = 2
    \<and> gap_free (conversation_log ''c1'' (fleet_delivered numbering_orjson ks_records ''transcripts'' k))"
proof -
  obtain s k ts where r: "serve_fleet overtaken = ((s, k), ts)" by (metis prod_cases3 surj_pair)
  have run: "concrete_fleet_run False (moves_in overtaken) s k ts"
    by (rule concrete_schedule [OF _ r]) (simp add: overtaken_def schedule_simps)
  have e: "fleet_expected clock_redis_ops rs_db ''seq'' ''c1'' s = 2"
    using r by (auto simp: overtaken_def schedule_simps)
  have "gap_free (conversation_log ''c1'' (fleet_delivered numbering_orjson ks_records ''transcripts'' k))"
    using gap_free_interleaved [OF concrete.deployment_axioms concrete_fleet_start run]
    by (simp add: overtaken_def exact_limit_def)
  with run e show ?thesis by blast
qed

text \<open>
  Acknowledged means delivered, under concurrency: in every interleaved run, a message that some handler has answered with a
  positive acknowledgement is in the topic.
\<close>

theorem acknowledged_interleaved:
  assumes dep: "deployment R C db sha up loaded A J records inflight P"
    and start: "fleet_start R db sha J records inflight prefix tpc s0 k0"
    and run: "fleet_run x R C db sha A J records inflight P prefix tpc s0 k0 n s k ts" and small: "int n < exact_limit"
    and task: "t \<in> set ts" "tk_phase t = Answered (Inr res)" and ack: "acknowledges (response res) c m"
  shows "m \<in> set (conversation_log c (fleet_delivered J records tpc k))"
  using fleet_invariant [OF dep start run small] task ack by fastforce

theorem acknowledged_interleaved_witness:
  "\<exists>n s k ts. concrete_fleet_run False n s k ts
    \<and> 1 \<in> set (conversation_log ''c1'' (fleet_delivered numbering_orjson ks_records ''transcripts'' k))"
proof -
  obtain s k ts where r: "serve_fleet overtaken = ((s, k), ts)" by (metis prod_cases3 surj_pair)
  have run: "concrete_fleet_run False (moves_in overtaken) s k ts"
    by (rule concrete_schedule [OF _ r]) (simp add: overtaken_def schedule_simps)
  have t: "2 < length ts" "tk_phase (ts ! 2) = Answered (Inr (ongoing_result ''now'' ''c1'' 1))"
    using r by (auto simp: overtaken_def schedule_simps)
  have "1 \<in> set (conversation_log ''c1'' (fleet_delivered numbering_orjson ks_records ''transcripts'' k))"
    by (rule acknowledged_interleaved [OF concrete.deployment_axioms concrete_fleet_start run _ nth_mem [OF t(1)] t(2)])
      (simp_all add: overtaken_def exact_limit_def ongoing_result_def acknowledges_ack)
  with run show ?thesis by blast
qed

text \<open>
  One handler at a time counts up: in a run in which no message is taken up while another one of its conversation is between its
  pre-check and its commit, every step leaves each counter as it is or raises it by one.
\<close>

theorem exclusive_handlers_count_up:
  assumes dep: "deployment R C db sha up loaded A J records inflight P"
    and start: "fleet_start R db sha J records inflight prefix tpc s0 k0"
    and run: "fleet_run True R C db sha A J records inflight P prefix tpc s0 k0 n s k ts" and small: "int n < exact_limit"
    and j: "j < length ts" "alone P ts j"
    and step: "handler_step P (fleet_sequence C (tk_instance (ts ! j))) (fleet_producer A J (tk_instance (ts ! j)))
      (tk_request (ts ! j)) (tk_phase (ts ! j)) (s, k) = (ph, s', k')"
  shows "fleet_expected R db prefix c s' \<in> {fleet_expected R db prefix c s, fleet_expected R db prefix c s + 1}"
proof -
  note f = deployment_fleet [OF dep, of prefix tpc] and inv = fleet_invariant [OF dep start run small]
  have "exclusive_ok (fleet_expected R db prefix) s ts"
    by (rule service_fleet.exclusive_inv [OF f run [unfolded fleet_run_def]]) (use start small in \<open>auto simp: fleet_start_def\<close>)
  then show ?thesis
    using service_fleet.exclusive_step [OF f step _ _ _ _ small j(1) _ j(2)] inv j(1) by (simp add: nth_mem)
qed

theorem exclusive_handlers_count_up_witness:
  "\<exists>n s k ts ph s' k'. concrete_fleet_run True n s k ts
    \<and> handler_step strict_pydantic (fleet_sequence server_client 0) (fleet_producer server_kafka numbering_orjson 0) (transcript_no 0)
        (tk_phase (ts ! 0)) (s, k) = (ph, s', k')
    \<and> fleet_expected clock_redis_ops rs_db ''seq'' ''c1'' s' \<in> {0, 1}"
proof -
  let ?es = "[Arrives 0 (transcript_no 0), Moves 0, Moves 0]"
  obtain s k ts where r: "serve_fleet ?es = ((s, k), ts)" by (metis prod_cases3 surj_pair)
  have run: "concrete_fleet_run True (moves_in ?es) s k ts"
    by (rule concrete_schedule [OF _ r]) (simp add: alone_def schedule_simps)
  have t: "0 < length ts" "tk_instance (ts ! 0) = 0" "tk_request (ts ! 0) = transcript_no 0" "alone strict_pydantic ts 0"
    "fleet_expected clock_redis_ops rs_db ''seq'' ''c1'' s = 0"
    using r by (auto simp: schedule_simps alone_def)
  obtain ph s' k' where h: "handler_step strict_pydantic (fleet_sequence server_client 0)
      (fleet_producer server_kafka numbering_orjson 0) (transcript_no 0) (tk_phase (ts ! 0)) (s, k) = (ph, s', k')"
    by (metis prod_cases3)
  have "fleet_expected clock_redis_ops rs_db ''seq'' ''c1'' s' \<in> {fleet_expected clock_redis_ops rs_db ''seq'' ''c1'' s,
      fleet_expected clock_redis_ops rs_db ''seq'' ''c1'' s + 1}"
    by (rule exclusive_handlers_count_up [OF concrete.deployment_axioms concrete_fleet_start run _ t(1,4)])
      (use h t in \<open>simp_all add: exact_limit_def\<close>)
  then have "fleet_expected clock_redis_ops rs_db ''seq'' ''c1'' s' \<in> {0, 1}" unfolding t(5) by simp
  with run h show ?thesis by blast
qed


end
