(* ===== verification/Ownership.thy ===== *)
theory Ownership
  imports Redis Protocols
begin

text \<open>
  The conversation ownership guard, \<open>redis/ownership_guard.py\<close>: \<open>RedisConversationOwnershipGuard\<close> over
  the client and the scripts of \<open>Redis\<close>. It implements the contract \<open>ownership_backend\<close>; the
  properties are the mutual exclusion of the connections that send for one conversation and the lease
  that \<open>claim_or_refresh\<close> keeps alive.
\<close>

record ownership_guard = redis_conn +
  guard_ttl_sec :: int
  guard_prefix :: string
  sha_claim :: "string option"
  sha_release :: "string option"

definition new_ownership_guard ::
  "string option \<Rightarrow> int \<Rightarrow> string option \<Rightarrow> string option \<Rightarrow> bool \<Rightarrow> int \<Rightarrow> string \<Rightarrow> bool \<Rightarrow> ownership_guard res" where
  "new_ownership_guard url max_conns username password check_hostname ttl prefix has_client =
     (if \<not> has_client \<and> url = None
      then Inl (ValueError ''redis_url is required when client is not provided'')
      else Inr \<lparr>redis_url = url, redis_username = username, redis_password = password,
        ssl_check_hostname = check_hostname, max_connections = max_conns, client_set = has_client,
        client_injected = has_client, guard_ttl_sec = ttl, guard_prefix = prefix,
        sha_claim = None, sha_release = None\<rparr>)"

definition guard_key :: "string \<Rightarrow> string \<Rightarrow> string" where
  "guard_key prefix conversation_id = prefix @ '':'' @ conversation_id"

type_synonym ('w, 'a) guard_io = "(ownership_guard \<times> 'w, 'a) io"

fun guard_ensure_scripts_loaded :: "'w redis_client \<Rightarrow> ('w, unit) guard_io" where
  "guard_ensure_scripts_loaded C (g0, w0) =
     (case get_client C g0 of
        (Inl e, g1) \<Rightarrow> (Inl e, (g1, w0))
      | (Inr _, g1) \<Rightarrow>
          (case ensure_script C LUA_CLAIM_OR_REFRESH (sha_claim g1) w0 of
             (Inl e, w1) \<Rightarrow> (Inl e, (g1, w1))
           | (Inr h1, w1) \<Rightarrow>
               (let g2 = g1\<lparr>sha_claim := Some h1\<rparr> in
                case ensure_script C LUA_RELEASE_IF_OWNER (sha_release g2) w1 of
                  (Inl e, w2) \<Rightarrow> (Inl e, (g2, w2))
                | (Inr h2, w2) \<Rightarrow> (Inr (), (g2\<lparr>sha_release := Some h2\<rparr>, w2)))))"

fun claim_or_refresh :: "'w redis_client \<Rightarrow> string \<Rightarrow> string \<Rightarrow> ('w, bool) guard_io" where
  "claim_or_refresh C conversation_id ownership_token gw =
     (case guard_ensure_scripts_loaded C gw of
        (Inl e, gw1) \<Rightarrow> (Inl e, gw1)
      | (Inr _, (g, w)) \<Rightarrow>
          (case sha_claim g of
             None \<Rightarrow> (Inl (AssertionError []), (g, w))
           | Some h \<Rightarrow>
               (case eval_reload C LUA_CLAIM_OR_REFRESH h [guard_key (guard_prefix g) conversation_id]
                   [ownership_token, str_of_int (guard_ttl_sec g)] w of
                  (r, h', w') \<Rightarrow>
                    (map_sum id (\<lambda>raw. reply_str raw = ''OWNED'') r, (g\<lparr>sha_claim := Some h'\<rparr>, w')))))"

fun release :: "'w redis_client \<Rightarrow> string \<Rightarrow> string \<Rightarrow> ('w, unit) guard_io" where
  "release C conversation_id ownership_token gw =
     (case guard_ensure_scripts_loaded C gw of
        (Inl e, gw1) \<Rightarrow> (Inl e, gw1)
      | (Inr _, (g, w)) \<Rightarrow>
          (case sha_release g of
             None \<Rightarrow> (Inl (AssertionError []), (g, w))
           | Some h \<Rightarrow>
               (case eval_reload C LUA_RELEASE_IF_OWNER h [guard_key (guard_prefix g) conversation_id]
                   [ownership_token] w of
                  (r, h', w') \<Rightarrow> (map_sum id (\<lambda>_. ()) r, (g\<lparr>sha_release := Some h'\<rparr>, w')))))"

declare claim_or_refresh.simps [simp del] release.simps [simp del]

fun guard_close_client :: "'w redis_client \<Rightarrow> ('w, unit) guard_io" where
  "guard_close_client C (g, w) =
     (if client_set g \<and> \<not> client_injected g
      then (case aclose C w of
              (Inl e, w') \<Rightarrow> (Inl e, (g, w'))
            | (Inr _, w') \<Rightarrow> (Inr (), (g\<lparr>client_set := False\<rparr>, w')))
      else (Inr (), (g\<lparr>client_set := False\<rparr>, w)))"

definition redis_guard :: "'w redis_client \<Rightarrow> (ownership_guard \<times> 'w) guard_ops" where
  "redis_guard C = \<lparr>g_claim_or_refresh = claim_or_refresh C, g_release = release C, g_close = guard_close_client C\<rparr>"

section \<open>What the scripts do to an owner\<close>

context redis_database
begin

lemma claim_run:
  assumes "0 < ttl"
  shows "run_script LUA_CLAIM_OR_REFRESH R [key] [tok, str_of_int ttl] d =
    (if r_get R key d \<in> {None, Some tok}
     then (Inr (RStr ''OWNED''), r_set_ex R key tok (nat (double_of_int ttl)) d) else (Inr (RStr ''BUSY''), d))"
  using assms by (simp add: lua_claim_or_refresh_def call_set_ex_pos after_call_def Let_def)

lemma claim_get:
  assumes "0 < ttl"
  shows "r_get R k (snd (run_script LUA_CLAIM_OR_REFRESH R [key] [tok, str_of_int ttl] d)) =
    (if k = key \<and> r_get R key d = None then Some tok else r_get R k d)"
  using assms by (auto simp: claim_run get_set simp del: run_script.simps)

lemma release_run:
  "run_script LUA_RELEASE_IF_OWNER R [key] [tok] d =
    (if r_get R key d = Some tok then (Inr (RInt 1), r_del R key d) else (Inr (RInt 0), d))"
  by (simp add: lua_release_if_owner_def)

lemma release_get:
  "r_get R k (snd (run_script LUA_RELEASE_IF_OWNER R [key] [tok] d)) =
    (if k = key \<and> r_get R key d = Some tok then None else r_get R k d)"
  by (auto simp: release_run get_del simp del: run_script.simps)

end

section \<open>The contract\<close>

definition guard_config :: "ownership_guard \<Rightarrow> int \<times> string" where
  "guard_config g = (guard_ttl_sec g, guard_prefix g)"

definition guard_shas_ok :: "(lua_script \<Rightarrow> string) \<Rightarrow> ownership_guard \<Rightarrow> bool" where
  "guard_shas_ok sha g \<longleftrightarrow> sha_claim g \<in> {None, Some (sha LUA_CLAIM_OR_REFRESH)}
     \<and> sha_release g \<in> {None, Some (sha LUA_RELEASE_IF_OWNER)}"

definition guard_ok :: "(lua_script \<Rightarrow> string) \<Rightarrow> ownership_guard \<times> 'w \<Rightarrow> bool" where
  "guard_ok sha gw \<longleftrightarrow> 0 < guard_ttl_sec (fst gw) \<and> guard_shas_ok sha (fst gw)"

definition guard_owner :: "'d redis_ops \<Rightarrow> ('w \<Rightarrow> 'd) \<Rightarrow> string \<Rightarrow> ownership_guard \<times> 'w \<Rightarrow> string option" where
  "guard_owner R db cid gw = r_get R (guard_key (guard_prefix (fst gw)) cid) (db (snd gw))"

lemma guard_key_inj [simp]: "guard_key p c = guard_key p c' \<longleftrightarrow> c = c'"
  by (simp add: guard_key_def)

lemma guard_client_frame:
  "guard_config (snd (get_client C g)) = guard_config g"
  "sha_claim (snd (get_client C g)) = sha_claim g"
  "sha_release (snd (get_client C g)) = sha_release g"
  by (simp_all add: get_client_def guard_config_def split: option.splits sum.splits)

context redis_backend
begin

lemma guard_ensure_frame:
  assumes run: "guard_ensure_scripts_loaded C (g, w) = (r, g', w')" and shas: "guard_shas_ok sha g"
  shows "db w' = db w \<and> guard_config g' = guard_config g \<and> guard_shas_ok sha g' \<and>
    (is_error r \<or> (sha_claim g' = Some (sha LUA_CLAIM_OR_REFRESH) \<and> sha_release g' = Some (sha LUA_RELEASE_IF_OWNER)))"
proof -
  obtain rc g1 where gc: "get_client C g = (rc, g1)" by fastforce
  then have g1: "guard_config g1 = guard_config g" "sha_claim g1 = sha_claim g" "sha_release g1 = sha_release g"
    using guard_client_frame [of C g] by simp_all
  obtain r1 w1 where e1: "ensure_script C LUA_CLAIM_OR_REFRESH (sha_claim g) w = (r1, w1)" by fastforce
  obtain r2 w2 where e2: "ensure_script C LUA_RELEASE_IF_OWNER (sha_release g) w1 = (r2, w2)" by fastforce
  have known: "sha_claim g \<in> {None, Some (sha LUA_CLAIM_OR_REFRESH)}" "sha_release g \<in> {None, Some (sha LUA_RELEASE_IF_OWNER)}"
    using shas by (simp_all add: guard_shas_ok_def)
  have d1: "db w1 = db w \<and> (is_error r1 \<or> r1 = Inr (sha LUA_CLAIM_OR_REFRESH))"
    by (rule ensure_script_safe [OF e1]) (use known in auto)
  have d2: "db w2 = db w1 \<and> (is_error r2 \<or> r2 = Inr (sha LUA_RELEASE_IF_OWNER))"
    by (rule ensure_script_safe [OF e2]) (use known in auto)
  show ?thesis
  proof (cases rc)
    case (Inl x)
    then show ?thesis using run gc g1 known by (auto simp: guard_shas_ok_def)
  next
    case rc: (Inr x)
    show ?thesis
    proof (cases r1)
      case (Inl y)
      then show ?thesis using run gc rc e1 d1 g1 known by (auto simp: guard_shas_ok_def)
    next
      case r1: (Inr h1)
      show ?thesis
        by (cases r2) (use run gc rc e1 r1 e2 d1 d2 g1 known in
          \<open>auto simp: guard_shas_ok_def guard_config_def Let_def\<close>)
    qed
  qed
qed

lemma claim_cases [consumes 2, case_names failed ran]:
  assumes "guard_ok sha (g, w)" and "claim_or_refresh C cid tok (g, w) = (r, g', w')"
  obtains (failed) e where "r = Inl e" "db w' = db w" "guard_config g' = guard_config g" "guard_shas_ok sha g'"
  | (ran) w1 h r0 where "db w1 = db w" "guard_config g' = guard_config g" "guard_shas_ok sha g'"
      "eval_reload C LUA_CLAIM_OR_REFRESH (sha LUA_CLAIM_OR_REFRESH) [guard_key (guard_prefix g) cid]
         [tok, str_of_int (guard_ttl_sec g)] w1 = (r0, h, w')"
      "r = map_sum id (\<lambda>raw. reply_str raw = ''OWNED'') r0"
proof -
  obtain r1 g1 w1 where e: "guard_ensure_scripts_loaded C (g, w) = (r1, g1, w1)" by (metis prod_cases3)
  note f = guard_ensure_frame [OF e]
  show thesis
  proof (cases r1)
    case (Inl x)
    then show thesis using assms e f by (intro failed) (auto simp: claim_or_refresh.simps guard_ok_def)
  next
    case (Inr u)
    then have g1: "db w1 = db w" "guard_config g1 = guard_config g" "guard_shas_ok sha g1"
      "sha_claim g1 = Some (sha LUA_CLAIM_OR_REFRESH)"
      using f assms(1) by (auto simp: guard_ok_def)
    obtain r0 h w2 where ev: "eval_reload C LUA_CLAIM_OR_REFRESH (sha LUA_CLAIM_OR_REFRESH)
        [guard_key (guard_prefix g) cid] [tok, str_of_int (guard_ttl_sec g)] w1 = (r0, h, w2)" by (metis prod_cases3)
    have "h = sha LUA_CLAIM_OR_REFRESH"
      by (rule eval_reload_cases [where Q = "\<lambda>_. True", OF ev]) auto
    then show thesis
      using assms e Inr g1 ev by (intro ran [of w1 r0 h]) (auto simp: claim_or_refresh.simps guard_config_def guard_shas_ok_def)
  qed
qed

lemma release_cases [consumes 2, case_names failed ran]:
  assumes "guard_ok sha (g, w)" and "release C cid tok (g, w) = (r, g', w')"
  obtains (failed) e where "r = Inl e" "db w' = db w" "guard_config g' = guard_config g" "guard_shas_ok sha g'"
  | (ran) w1 h r0 where "db w1 = db w" "guard_config g' = guard_config g" "guard_shas_ok sha g'"
      "eval_reload C LUA_RELEASE_IF_OWNER (sha LUA_RELEASE_IF_OWNER) [guard_key (guard_prefix g) cid]
         [tok] w1 = (r0, h, w')"
      "r = map_sum id (\<lambda>_. ()) r0"
proof -
  obtain r1 g1 w1 where e: "guard_ensure_scripts_loaded C (g, w) = (r1, g1, w1)" by (metis prod_cases3)
  note f = guard_ensure_frame [OF e]
  show thesis
  proof (cases r1)
    case (Inl x)
    then show thesis using assms e f by (intro failed) (auto simp: release.simps guard_ok_def)
  next
    case (Inr u)
    then have g1: "db w1 = db w" "guard_config g1 = guard_config g" "guard_shas_ok sha g1"
      "sha_release g1 = Some (sha LUA_RELEASE_IF_OWNER)"
      using f assms(1) by (auto simp: guard_ok_def)
    obtain r0 h w2 where ev: "eval_reload C LUA_RELEASE_IF_OWNER (sha LUA_RELEASE_IF_OWNER)
        [guard_key (guard_prefix g) cid] [tok] w1 = (r0, h, w2)" by (metis prod_cases3)
    have "h = sha LUA_RELEASE_IF_OWNER"
      by (rule eval_reload_cases [where Q = "\<lambda>_. True", OF ev]) auto
    then show thesis
      using assms e Inr g1 ev by (intro ran [of w1 r0 h]) (auto simp: release.simps guard_config_def guard_shas_ok_def)
  qed
qed

lemma claim_effect:
  assumes ok: "guard_ok sha (g, w)" and run: "claim_or_refresh C cid tok (g, w) = (r, g', w')"
  defines "key \<equiv> guard_key (guard_prefix g) cid"
  shows "guard_ok sha (g', w')" and "guard_config g' = guard_config g"
    and "\<And>k. k \<noteq> key \<Longrightarrow> r_get R k (db w') = r_get R k (db w)"
    and "r_get R key (db w) \<notin> {None, Some tok} \<Longrightarrow> r_get R key (db w') = r_get R key (db w)"
    and "r_get R key (db w') \<in> {r_get R key (db w), Some tok}"
    and "r = Inr True \<Longrightarrow> r_get R key (db w) \<in> {None, Some tok} \<and> r_get R key (db w') = Some tok"
    and "r = Inr False \<Longrightarrow> r_get R key (db w) \<notin> {None, Some tok}"
proof -
  let ?own = "r_get R key (db w)" and ?run = "run_script LUA_CLAIM_OR_REFRESH R [key] [tok, str_of_int (guard_ttl_sec g)]"
  let ?Q = "\<lambda>d. (\<forall>k. k \<noteq> key \<longrightarrow> r_get R k d = r_get R k (db w))
    \<and> (?own \<notin> {None, Some tok} \<longrightarrow> r_get R key d = ?own) \<and> r_get R key d \<in> {?own, Some tok}"
  have ttl: "0 < guard_ttl_sec g" using ok by (simp add: guard_ok_def)
  have step: "?Q (snd (?run d))" if "?Q d" for d
    using that by (auto simp: claim_get [OF ttl] simp del: run_script.simps)
  have goal: "guard_ok sha (g', w') \<and> guard_config g' = guard_config g \<and> ?Q (db w')
    \<and> (r = Inr True \<longrightarrow> ?own \<in> {None, Some tok} \<and> r_get R key (db w') = Some tok)
    \<and> (r = Inr False \<longrightarrow> ?own \<notin> {None, Some tok})"
    using ok run
  proof (cases rule: claim_cases)
    case (failed e)
    then show ?thesis using ok by (auto simp: guard_ok_def guard_config_def)
  next
    case (ran w1 h r0)
    have start: "?Q (db w1)" by (simp add: ran(1))
    have ev: "eval_reload C LUA_CLAIM_OR_REFRESH (sha LUA_CLAIM_OR_REFRESH) [key]
        [tok, str_of_int (guard_ttl_sec g)] w1 = (r0, h, w')"
      using ran(4) by (simp add: key_def)
    have Q: "?Q (db w')" by (rule eval_reload_invariant [where Q = ?Q, OF ev start step])
    have reply: "(r = Inr True \<longrightarrow> ?own \<in> {None, Some tok} \<and> r_get R key (db w') = Some tok)
        \<and> (r = Inr False \<longrightarrow> ?own \<notin> {None, Some tok})"
    proof (cases r0)
      case (Inl e)
      then show ?thesis using ran(5) by simp
    next
      case (Inr x)
      obtain d where d: "?Q d" "?run d = (Inr x, db w')"
        by (rule eval_reload_reply [where Q = ?Q, OF ev [unfolded Inr] start step])
      then have "Inr x = fst (?run d)" "db w' = snd (?run d)" by simp_all
      then show ?thesis
        using d(1) ran(5) Inr by (auto simp: claim_run [OF ttl] get_set split: if_splits simp del: run_script.simps)
    qed
    then show ?thesis using Q ran(2,3) ok by (auto simp: guard_ok_def guard_config_def)
  qed
  show "guard_ok sha (g', w')" and "guard_config g' = guard_config g"
    and "\<And>k. k \<noteq> key \<Longrightarrow> r_get R k (db w') = r_get R k (db w)"
    and "?own \<notin> {None, Some tok} \<Longrightarrow> r_get R key (db w') = ?own"
    and "r_get R key (db w') \<in> {?own, Some tok}"
    and "r = Inr True \<Longrightarrow> ?own \<in> {None, Some tok} \<and> r_get R key (db w') = Some tok"
    and "r = Inr False \<Longrightarrow> ?own \<notin> {None, Some tok}"
    using goal by blast+
qed

lemma release_effect:
  assumes ok: "guard_ok sha (g, w)" and run: "release C cid tok (g, w) = (r, g', w')"
  defines "key \<equiv> guard_key (guard_prefix g) cid"
  shows "guard_ok sha (g', w')" and "guard_config g' = guard_config g"
    and "\<And>k. k \<noteq> key \<Longrightarrow> r_get R k (db w') = r_get R k (db w)"
    and "r_get R key (db w) \<noteq> Some tok \<Longrightarrow> r_get R key (db w') = r_get R key (db w)"
    and "r = Inr () \<Longrightarrow> r_get R key (db w') \<noteq> Some tok"
proof -
  let ?own = "r_get R key (db w)" and ?run = "run_script LUA_RELEASE_IF_OWNER R [key] [tok]"
  let ?Q = "\<lambda>d. (\<forall>k. k \<noteq> key \<longrightarrow> r_get R k d = r_get R k (db w)) \<and> (?own \<noteq> Some tok \<longrightarrow> r_get R key d = ?own)"
  have step: "?Q (snd (?run d))" if "?Q d" for d
    using that by (auto simp: release_get simp del: run_script.simps)
  have goal: "guard_ok sha (g', w') \<and> guard_config g' = guard_config g \<and> ?Q (db w')
    \<and> (r = Inr () \<longrightarrow> r_get R key (db w') \<noteq> Some tok)"
    using ok run
  proof (cases rule: release_cases)
    case (failed e)
    then show ?thesis using ok by (auto simp: guard_ok_def guard_config_def)
  next
    case (ran w1 h r0)
    have start: "?Q (db w1)" by (simp add: ran(1))
    have ev: "eval_reload C LUA_RELEASE_IF_OWNER (sha LUA_RELEASE_IF_OWNER) [key] [tok] w1 = (r0, h, w')"
      using ran(4) by (simp add: key_def)
    have Q: "?Q (db w')" by (rule eval_reload_invariant [where Q = ?Q, OF ev start step])
    have "r_get R key (db w') \<noteq> Some tok" if u: "r = Inr ()"
    proof -
      obtain x where x: "r0 = Inr x" using u ran(5) by (cases r0) auto
      obtain d where d: "?run d = (Inr x, db w')"
        by (rule eval_reload_reply [where Q = ?Q, OF ev [unfolded x] start step])
      have "r_get R key (snd (?run d)) \<noteq> Some tok"
        by (simp add: release_get del: run_script.simps)
      then show ?thesis by (simp add: d del: run_script.simps)
    qed
    then show ?thesis using Q ran(2,3) ok by (auto simp: guard_ok_def guard_config_def)
  qed
  show "guard_ok sha (g', w')" and "guard_config g' = guard_config g"
    and "\<And>k. k \<noteq> key \<Longrightarrow> r_get R k (db w') = r_get R k (db w)"
    and "?own \<noteq> Some tok \<Longrightarrow> r_get R key (db w') = ?own"
    and "r = Inr () \<Longrightarrow> r_get R key (db w') \<noteq> Some tok"
    using goal by blast+
qed

text \<open>When Redis is up, a claim is decided by the owner.\<close>

lemma claim_up:
  assumes "guard_ok sha (g, w)" "client_set g" "up w"
  shows "\<exists>g' w'. claim_or_refresh C cid tok (g, w) = (Inr (guard_owner R db cid (g, w) \<in> {None, Some tok}), g', w')"
proof -
  have e: "\<exists>w'. ensure_script C sc h v = (Inr (sha sc), w') \<and> db w' = db v \<and> up w'"
    if "h \<in> {None, Some (sha sc)}" "up v" for sc h v
    using that load_up [of v sc] load_db [of sc v] by (auto simp: ensure_script_def)
  have known: "sha_claim g \<in> {None, Some (sha LUA_CLAIM_OR_REFRESH)}" "sha_release g \<in> {None, Some (sha LUA_RELEASE_IF_OWNER)}"
    using assms by (simp_all add: guard_ok_def guard_shas_ok_def)
  obtain w1 where w1: "ensure_script C LUA_CLAIM_OR_REFRESH (sha_claim g) w = (Inr (sha LUA_CLAIM_OR_REFRESH), w1)"
    "db w1 = db w" "up w1" using e [OF known(1) assms(3)] by blast
  obtain w2 where w2: "ensure_script C LUA_RELEASE_IF_OWNER (sha_release g) w1 = (Inr (sha LUA_RELEASE_IF_OWNER), w2)"
    "db w2 = db w1" "up w2" using e [OF known(2) w1(3)] by blast
  have ttl: "0 < guard_ttl_sec g" using assms by (simp add: guard_ok_def)
  obtain w3 where w3: "eval_reload C LUA_CLAIM_OR_REFRESH (sha LUA_CLAIM_OR_REFRESH) [guard_key (guard_prefix g) cid]
      [tok, str_of_int (guard_ttl_sec g)] w2 = (fst (run_script LUA_CLAIM_OR_REFRESH R [guard_key (guard_prefix g) cid]
      [tok, str_of_int (guard_ttl_sec g)] (db w)), sha LUA_CLAIM_OR_REFRESH, w3)"
    using eval_reload_up [OF w2(3), of LUA_CLAIM_OR_REFRESH "[guard_key (guard_prefix g) cid]"
        "[tok, str_of_int (guard_ttl_sec g)]"] w1 w2 by auto
  show ?thesis
    using assms w1 w2 w3
    by (simp add: claim_or_refresh.simps get_client_def Let_def claim_run [OF ttl] guard_owner_def del: run_script.simps)
qed

text \<open>The expiries: a claim leaves those of the other conversations, and renews its own or not.\<close>

lemma claim_lease:
  assumes ok: "guard_ok sha (g, w)" and run: "claim_or_refresh C cid tok (g, w) = (r, g', w')"
    and small: "guard_ttl_sec g < exact_limit"
  defines "key \<equiv> guard_key (guard_prefix g) cid"
  shows "k \<noteq> key \<or> r_get R key (db w) \<notin> {None, Some tok} \<Longrightarrow> r_ttl R k (db w') = r_ttl R k (db w)"
    and "r_ttl R key (db w') \<in> {r_ttl R key (db w), Some (nat (guard_ttl_sec g))}"
    and "r = Inr True \<Longrightarrow> r_ttl R key (db w') = Some (nat (guard_ttl_sec g))"
proof -
  let ?run = "run_script LUA_CLAIM_OR_REFRESH R [key] [tok, str_of_int (guard_ttl_sec g)]"
  let ?own = "r_get R key (db w)" and ?T = "Some (nat (guard_ttl_sec g))"
  let ?Q = "\<lambda>d. (\<forall>k. k \<noteq> key \<or> ?own \<notin> {None, Some tok} \<longrightarrow> r_ttl R k d = r_ttl R k (db w))
    \<and> (?own \<notin> {None, Some tok} \<longrightarrow> r_get R key d = ?own) \<and> r_ttl R key d \<in> {r_ttl R key (db w), ?T}"
  have ttl: "0 < guard_ttl_sec g" using ok by (simp add: guard_ok_def)
  have exact: "double_of_int (guard_ttl_sec g) = guard_ttl_sec g"
    using ttl small by (simp add: exact_limit_def double_of_int_small)
  have step: "?Q (snd (?run d))" if "?Q d" for d
    using that ttl by (auto simp: claim_run [OF ttl] exact get_set ttl_set simp del: run_script.simps)
  have goal: "?Q (db w') \<and> (r = Inr True \<longrightarrow> r_ttl R key (db w') = ?T)"
    using ok run
  proof (cases rule: claim_cases)
    case (failed e)
    then show ?thesis by simp
  next
    case (ran w1 h r0)
    have start: "?Q (db w1)" by (simp add: ran(1))
    have ev: "eval_reload C LUA_CLAIM_OR_REFRESH (sha LUA_CLAIM_OR_REFRESH) [key]
        [tok, str_of_int (guard_ttl_sec g)] w1 = (r0, h, w')"
      using ran(4) by (simp add: key_def)
    have Q: "?Q (db w')" by (rule eval_reload_invariant [where Q = ?Q, OF ev start step])
    have "r_ttl R key (db w') = ?T" if u: "r = Inr True"
    proof -
      obtain x where x: "r0 = Inr x" "reply_str x = ''OWNED''" using u ran(5) by (cases r0) auto
      obtain d where d: "?run d = (Inr x, db w')"
        by (rule eval_reload_reply [where Q = ?Q, OF ev [unfolded x(1)] start step])
      then have "Inr x = fst (?run d)" "db w' = snd (?run d)" by simp_all
      then show ?thesis
        using ttl x(2) by (auto simp: claim_run [OF ttl] exact ttl_set split: if_splits simp del: run_script.simps)
    qed
    then show ?thesis using Q by blast
  qed
  show "k \<noteq> key \<or> ?own \<notin> {None, Some tok} \<Longrightarrow> r_ttl R k (db w') = r_ttl R k (db w)"
    and "r_ttl R key (db w') \<in> {r_ttl R key (db w), ?T}"
    and "r = Inr True \<Longrightarrow> r_ttl R key (db w') = ?T"
    using goal by blast+
qed

lemma release_lease:
  assumes ok: "guard_ok sha (g, w)" and run: "release C cid tok (g, w) = (r, g', w')"
  defines "key \<equiv> guard_key (guard_prefix g) cid"
  shows "k \<noteq> key \<or> r_get R key (db w) \<noteq> Some tok \<Longrightarrow> r_ttl R k (db w') = r_ttl R k (db w)"
  using ok run
proof (cases rule: release_cases)
  case (failed e)
  then show ?thesis by simp
next
  case (ran w1 h r0)
  assume k: "k \<noteq> key \<or> r_get R key (db w) \<noteq> Some tok"
  let ?run = "run_script LUA_RELEASE_IF_OWNER R [key] [tok]"
  let ?Q = "\<lambda>d. r_ttl R k d = r_ttl R k (db w) \<and> (r_get R key (db w) \<noteq> Some tok \<longrightarrow> r_get R key d = r_get R key (db w))"
  have start: "?Q (db w1)" by (simp add: ran(1))
  have step: "?Q (snd (?run d))" if "?Q d" for d
    using that k by (auto simp: release_run get_del ttl_del simp del: run_script.simps)
  have "eval_reload C LUA_RELEASE_IF_OWNER (sha LUA_RELEASE_IF_OWNER) [key] [tok] w1 = (r0, h, w')"
    using ran(4) by (simp add: key_def)
  then have "?Q (db w')" by (rule eval_reload_invariant [where Q = ?Q, OF _ start step])
  then show ?thesis by blast
qed

lemma guard_contract: "ownership_backend (redis_guard C) (guard_ok sha) (guard_owner R db)"
proof
  fix s s' :: "ownership_guard \<times> 'w" and c cid tok
  assume ok: "guard_ok sha s"
  obtain g w where s: "s = (g, w)" by fastforce
  obtain g' w' where s': "s' = (g', w')" by fastforce
  note ok = ok [unfolded s]
  note defs = redis_guard_def guard_owner_def guard_config_def s s'
  show "g_claim_or_refresh (redis_guard C) cid tok s = (r, s') \<Longrightarrow>
      guard_ok sha s' \<and> (c \<noteq> cid \<longrightarrow> guard_owner R db c s' = guard_owner R db c s)" for r
    using claim_effect(1-3) [OF ok, of cid tok r g' w'] by (simp add: defs)
  show "g_claim_or_refresh (redis_guard C) cid tok s = (Inr True, s') \<Longrightarrow>
      guard_owner R db cid s \<in> {None, Some tok} \<and> guard_owner R db cid s' = Some tok"
    using claim_effect(2,6) [OF ok, of cid tok "Inr True" g' w'] by (simp add: defs)
  show "g_claim_or_refresh (redis_guard C) cid tok s = (Inr False, s') \<Longrightarrow>
      guard_owner R db cid s \<notin> {None, Some tok} \<and> guard_owner R db cid s' = guard_owner R db cid s"
    using claim_effect(2,4,7) [OF ok, of cid tok "Inr False" g' w'] by (simp add: defs)
  show "g_claim_or_refresh (redis_guard C) cid tok s = (r, s') \<Longrightarrow> guard_owner R db cid s \<notin> {None, Some tok} \<Longrightarrow>
      guard_owner R db cid s' = guard_owner R db cid s" for r
    using claim_effect(2,4) [OF ok, of cid tok r g' w'] by (simp add: defs)
  show "g_claim_or_refresh (redis_guard C) cid tok s = (r, s') \<Longrightarrow>
      guard_owner R db cid s' \<in> {guard_owner R db cid s, Some tok}" for r
    using claim_effect(2,5) [OF ok, of cid tok r g' w'] by (simp add: defs)
  show "g_release (redis_guard C) cid tok s = (ru, s') \<Longrightarrow>
      guard_ok sha s' \<and> (c \<noteq> cid \<longrightarrow> guard_owner R db c s' = guard_owner R db c s)" for ru
    using release_effect(1-3) [OF ok, of cid tok ru g' w'] by (simp add: defs)
  show "g_release (redis_guard C) cid tok s = (ru, s') \<Longrightarrow> guard_owner R db cid s \<noteq> Some tok \<Longrightarrow>
      guard_owner R db cid s' = guard_owner R db cid s" for ru
    using release_effect(2,4) [OF ok, of cid tok ru g' w'] by (simp add: defs)
  show "g_release (redis_guard C) cid tok s = (Inr u, s') \<Longrightarrow> guard_owner R db cid s' \<noteq> Some tok" for u
    using release_effect(2,5) [OF ok, of cid tok "Inr u" g' w'] by (simp add: defs)
qed

end

sublocale redis_backend \<subseteq> own: ownership_backend "redis_guard C" "guard_ok sha" "guard_owner R db"
  by (rule guard_contract)

interpretation server_guard: ownership_backend "redis_guard server_client" "guard_ok script_sha"
  "guard_owner clock_redis_ops rs_db"
  by (rule server.guard_contract)

section \<open>Several service instances\<close>

text \<open>
  Any number of guard objects (one per service instance) share one Redis. \<open>leases\<close> records what
  the connections believe: the time at which a claim of a token last returned \<open>True\<close>, until it
  returns \<open>False\<close> or the token is released. \<open>Tick n\<close> lets \<open>n\<close> seconds pass.
\<close>

datatype fleet_event = Claim nat string string | Release nat string string | Tick nat

record 'w fleet =
  guards :: "nat \<Rightarrow> ownership_guard"
  redis_world :: 'w
  fleet_now :: nat
  leases :: "string \<times> string \<Rightarrow> nat option"

fun fleet_step :: "'w redis_client \<Rightarrow> (nat \<Rightarrow> 'w \<Rightarrow> 'w) \<Rightarrow> fleet_event \<Rightarrow> 'w fleet \<Rightarrow> 'w fleet" where
  "fleet_step C tick (Claim p cid tok) f =
     (case claim_or_refresh C cid tok (guards f p, redis_world f) of
        (r, g', w') \<Rightarrow> f\<lparr>guards := (guards f)(p := g'), redis_world := w',
          leases := (case r of
              Inl _ \<Rightarrow> leases f
            | Inr owned \<Rightarrow> (leases f)((cid, tok) := (if owned then Some (fleet_now f) else None)))\<rparr>)"
| "fleet_step C tick (Release p cid tok) f =
     (case release C cid tok (guards f p, redis_world f) of
        (r, g', w') \<Rightarrow> f\<lparr>guards := (guards f)(p := g'), redis_world := w',
          leases := (leases f)((cid, tok) := None)\<rparr>)"
| "fleet_step C tick (Tick n) f = f\<lparr>redis_world := tick n (redis_world f), fleet_now := fleet_now f + n\<rparr>"

definition fleet_run :: "'w redis_client \<Rightarrow> (nat \<Rightarrow> 'w \<Rightarrow> 'w) \<Rightarrow> fleet_event list \<Rightarrow> 'w fleet \<Rightarrow> 'w fleet" where
  "fleet_run C tick es f = fold (fleet_step C tick) es f"

text \<open>A lease is live for the time to live that its claim asked for.\<close>

definition live_lease :: "nat \<Rightarrow> 'w fleet \<Rightarrow> string \<Rightarrow> string \<Rightarrow> bool" where
  "live_lease ttl f cid tok = (case leases f (cid, tok) of None \<Rightarrow> False | Some t \<Rightarrow> fleet_now f < t + ttl)"

text \<open>The invariant: the owner of a conversation with a live lease is its token, for long enough.\<close>

definition leases_ok ::
  "'d redis_ops \<Rightarrow> ('w \<Rightarrow> 'd) \<Rightarrow> (lua_script \<Rightarrow> string) \<Rightarrow> nat \<Rightarrow> string \<Rightarrow> 'w fleet \<Rightarrow> bool" where
  "leases_ok R db sha ttl prefix f \<longleftrightarrow>
     (\<forall>p. guard_config (guards f p) = (int ttl, prefix) \<and> guard_shas_ok sha (guards f p)) \<and>
     (\<forall>cid tok t. leases f (cid, tok) = Some t \<longrightarrow> fleet_now f < t + ttl \<longrightarrow>
        t \<le> fleet_now f \<and> r_get R (guard_key prefix cid) (db (redis_world f)) = Some tok \<and>
        (\<exists>left. r_ttl R (guard_key prefix cid) (db (redis_world f)) = Some left \<and> t + ttl \<le> fleet_now f + left))"

context redis_backend
begin

lemma leases_ok_claim:
  assumes inv: "leases_ok R db sha ttl prefix f" and ttl: "0 < ttl" "int ttl < exact_limit"
  shows "leases_ok R db sha ttl prefix (fleet_step C tick (Claim p cid tok) f)"
proof -
  obtain r g' w' where run: "claim_or_refresh C cid tok (guards f p, redis_world f) = (r, g', w')" by (metis prod_cases3)
  have cfg: "guard_ttl_sec (guards f p) = int ttl" "guard_prefix (guards f p) = prefix"
    using inv by (auto simp: leases_ok_def guard_config_def)
  have ok: "guard_ok sha (guards f p, redis_world f)"
    using inv ttl cfg by (auto simp: leases_ok_def guard_ok_def)
  let ?key = "guard_key prefix" and ?d = "db (redis_world f)"
  note eff = claim_effect [OF ok run, unfolded cfg] and lease = claim_lease [OF ok run, unfolded cfg, OF ttl(2)]
  have live: "t \<le> fleet_now f \<and> r_get R (?key c) (db w') = Some k \<and>
      (\<exists>left. r_ttl R (?key c) (db w') = Some left \<and> t + ttl \<le> fleet_now f + left)"
    if old: "leases f (c, k) = Some t" "fleet_now f < t + ttl" for c k t
  proof -
    from inv old obtain left where i: "t \<le> fleet_now f" "r_get R (?key c) ?d = Some k" "r_ttl R (?key c) ?d = Some left"
      "t + ttl \<le> fleet_now f + left" unfolding leases_ok_def by blast
    show ?thesis
    proof (cases "c = cid \<and> k = tok")
      case True
      have "r_get R (?key c) (db w') = Some k" using eff(5) i True by auto
      moreover have "r_ttl R (?key c) (db w') \<in> {Some left, Some ttl}" using lease(2) i True by auto
      ultimately show ?thesis using i by auto
    next
      case False
      then have "r_get R (?key c) (db w') = r_get R (?key c) ?d \<and> r_ttl R (?key c) (db w') = r_ttl R (?key c) ?d"
        using eff(3) eff(4) lease(1) i by (cases "c = cid") auto
      then show ?thesis using i by auto
    qed
  qed
  have new: "r_get R (?key cid) (db w') = Some tok \<and> r_ttl R (?key cid) (db w') = Some ttl" if "r = Inr True"
    using eff(6) lease(3) that by simp
  have "guard_config g' = (int ttl, prefix) \<and> guard_shas_ok sha g'"
    using eff(1,2) by (auto simp: guard_ok_def guard_config_def cfg)
  then show ?thesis
    using inv live new by (auto simp: leases_ok_def run split: sum.splits if_splits)
qed

lemma leases_ok_release:
  assumes inv: "leases_ok R db sha ttl prefix f" and ttl: "0 < ttl"
  shows "leases_ok R db sha ttl prefix (fleet_step C tick (Release p cid tok) f)"
proof -
  obtain r g' w' where run: "release C cid tok (guards f p, redis_world f) = (r, g', w')" by (metis prod_cases3)
  have cfg: "guard_ttl_sec (guards f p) = int ttl" "guard_prefix (guards f p) = prefix"
    using inv by (auto simp: leases_ok_def guard_config_def)
  have ok: "guard_ok sha (guards f p, redis_world f)"
    using inv ttl cfg by (auto simp: leases_ok_def guard_ok_def)
  let ?key = "guard_key prefix" and ?d = "db (redis_world f)"
  note eff = release_effect [OF ok run, unfolded cfg] and lease = release_lease [OF ok run, unfolded cfg]
  have live: "t \<le> fleet_now f \<and> r_get R (?key c) (db w') = Some k \<and>
      (\<exists>left. r_ttl R (?key c) (db w') = Some left \<and> t + ttl \<le> fleet_now f + left)"
    if old: "leases f (c, k) = Some t" "fleet_now f < t + ttl" "(c, k) \<noteq> (cid, tok)" for c k t
  proof -
    from inv old obtain left where i: "t \<le> fleet_now f" "r_get R (?key c) ?d = Some k" "r_ttl R (?key c) ?d = Some left"
      "t + ttl \<le> fleet_now f + left" unfolding leases_ok_def by blast
    have "r_get R (?key c) (db w') = r_get R (?key c) ?d \<and> r_ttl R (?key c) (db w') = r_ttl R (?key c) ?d"
      using eff(3) eff(4) lease i old(3) by (cases "c = cid") auto
    then show ?thesis using i by auto
  qed
  have "guard_config g' = (int ttl, prefix) \<and> guard_shas_ok sha g'"
    using eff(1,2) by (auto simp: guard_ok_def guard_config_def cfg)
  then show ?thesis
    using inv live by (auto simp: leases_ok_def run split: if_splits)
qed

lemma leases_ok_tick:
  assumes inv: "leases_ok R db sha ttl prefix f" and tick: "\<And>n w. db (tick n w) = r_elapse R n (db w)"
  shows "leases_ok R db sha ttl prefix (fleet_step C tick (Tick n) f)"
  unfolding leases_ok_def
proof (intro conjI allI impI)
  fix p
  show "guard_config (guards (fleet_step C tick (Tick n) f) p) = (int ttl, prefix)"
    and "guard_shas_ok sha (guards (fleet_step C tick (Tick n) f) p)"
    using inv by (auto simp: leases_ok_def)
next
  fix cid tok t
  assume l: "leases (fleet_step C tick (Tick n) f) (cid, tok) = Some t" "fleet_now (fleet_step C tick (Tick n) f) < t + ttl"
  let ?k = "guard_key prefix cid"
  from inv l obtain left where i: "t \<le> fleet_now f" "r_get R ?k (db (redis_world f)) = Some tok"
    "r_ttl R ?k (db (redis_world f)) = Some left" "t + ttl \<le> fleet_now f + left"
    unfolding leases_ok_def by fastforce
  have "n < left" using i l by simp
  then show "t \<le> fleet_now (fleet_step C tick (Tick n) f)"
    and "r_get R ?k (db (redis_world (fleet_step C tick (Tick n) f))) = Some tok"
    and "\<exists>left. r_ttl R ?k (db (redis_world (fleet_step C tick (Tick n) f))) = Some left
      \<and> t + ttl \<le> fleet_now (fleet_step C tick (Tick n) f) + left"
    using i by (simp_all add: tick get_elapse ttl_elapse)
qed

lemma leases_ok_run:
  assumes "leases_ok R db sha ttl prefix f" and "0 < ttl" "int ttl < exact_limit"
    and "\<And>n w. db (tick n w) = r_elapse R n (db w)"
  shows "leases_ok R db sha ttl prefix (fleet_run C tick es f)"
  using assms
proof (induction es arbitrary: f)
  case Nil
  then show ?case by (simp add: fleet_run_def)
next
  case (Cons e es)
  then have "leases_ok R db sha ttl prefix (fleet_step C tick e f)"
    using leases_ok_claim leases_ok_release leases_ok_tick by (cases e) metis+
  then show ?case using Cons by (simp add: fleet_run_def)
qed

end

section \<open>Properties\<close>

definition sample_guard :: ownership_guard where
  "sample_guard = \<lparr>redis_url = Some ''redis://localhost:6379/0'', redis_username = None, redis_password = None,
     ssl_check_hostname = False, max_connections = 100, client_set = True, client_injected = True,
     guard_ttl_sec = 60, guard_prefix = ''own'', sha_claim = None, sha_release = None\<rparr>"

definition sample_fleet :: "fault list \<Rightarrow> redis_server fleet" where
  "sample_fleet fs = \<lparr>guards = (\<lambda>p. sample_guard), redis_world = empty_redis fs, fleet_now = 0, leases = (\<lambda>_. None)\<rparr>"

definition server_tick :: "nat \<Rightarrow> redis_server \<Rightarrow> redis_server" where
  "server_tick n w = w\<lparr>rs_db := r_elapse clock_redis_ops n (rs_db w)\<rparr>"

lemma sample_guard_ok: "guard_ok script_sha (sample_guard, w)"
  by (simp add: guard_ok_def guard_shas_ok_def sample_guard_def)

text \<open>
  C9. At most one connection sends for a conversation: in any run of claims, refreshes and releases by
  any number of service instances, with time passing between them and Redis failing in any way,
  two tokens never hold live leases of one conversation.
\<close>

theorem one_live_lease:
  assumes redis: "redis_backend R C db sha up loaded" and tick: "\<And>n w. db (tick n w) = r_elapse R n (db w)"
    and ttl: "0 < ttl" "int ttl < exact_limit"
    and start: "\<And>p. guard_config (guards f p) = (int ttl, prefix) \<and> guard_shas_ok sha (guards f p)" "leases f = (\<lambda>_. None)"
    and live: "live_lease ttl (fleet_run C tick es f) cid tok1" "live_lease ttl (fleet_run C tick es f) cid tok2"
  shows "tok1 = tok2"
proof -
  have "leases_ok R db sha ttl prefix f" using start by (simp add: leases_ok_def)
  then have "leases_ok R db sha ttl prefix (fleet_run C tick es f)"
    by (rule redis_backend.leases_ok_run [OF redis _ ttl tick])
  then show ?thesis using live unfolding leases_ok_def live_lease_def
    by (auto split: option.splits) (metis option.inject)
qed

text \<open>In the witness a second instance is granted the conversation once the lease has run out.\<close>

lemma sample_lease:
  "live_lease 60 (fleet_run server_client server_tick
     [Claim 0 ''c1'' ''a'', Claim 1 ''c1'' ''b'', Tick 60, Claim 1 ''c1'' ''b''] (sample_fleet [])) ''c1'' ''b''"
  by (simp add: live_lease_def fleet_run_def sample_fleet_def server_tick_def sample_guard_def server_simps
      claim_or_refresh.simps get_client_def ensure_script_def eval_reload_def guard_key_def
      lua_claim_or_refresh_def Let_def double_of_int_small)

theorem one_live_lease_witness:
  "\<not> live_lease 60 (fleet_run server_client server_tick
     [Claim 0 ''c1'' ''a'', Claim 1 ''c1'' ''b'', Tick 60, Claim 1 ''c1'' ''b''] (sample_fleet [])) ''c1'' ''a''"
proof
  let ?f = "fleet_run server_client server_tick
     [Claim 0 ''c1'' ''a'', Claim 1 ''c1'' ''b'', Tick 60, Claim 1 ''c1'' ''b''] (sample_fleet [])"
  assume a: "live_lease 60 ?f ''c1'' ''a''"
  have "''a'' = ''b''"
    by (rule one_live_lease [OF server.redis_backend_axioms, where tick = server_tick and prefix = "''own''" and ttl = 60,
          OF _ _ _ _ _ a sample_lease])
      (simp_all add: server_tick_def sample_fleet_def sample_guard_def guard_config_def guard_shas_ok_def exact_limit_def)
  then show False by simp
qed

text \<open>
  A connection never releases another's ownership, and a release that returns has given up its own:
  a disconnecting client cannot free the conversation under the client that took it over.
\<close>

theorem release_only_own:
  assumes "redis_backend R C db sha up loaded" and "guard_ok sha (g, w)"
    and "release C cid tok (g, w) = (r, g', w')"
  shows "(guard_owner R db cid (g, w) \<noteq> Some tok \<longrightarrow> guard_owner R db cid (g', w') = guard_owner R db cid (g, w))
    \<and> (r = Inr () \<longrightarrow> guard_owner R db cid (g', w') \<noteq> Some tok)
    \<and> (\<forall>c. c \<noteq> cid \<longrightarrow> guard_owner R db c (g', w') = guard_owner R db c (g, w))"
proof -
  have c: "ownership_backend (redis_guard C) (guard_ok sha) (guard_owner R db)"
    using assms(1) by (rule redis_backend.guard_contract)
  have run: "g_release (redis_guard C) cid tok (g, w) = (r, g', w')"
    using assms(3) by (simp add: redis_guard_def)
  show ?thesis
    using ownership_backend.release_other [OF c assms(2) run] ownership_backend.release_frame [OF c assms(2) run]
      ownership_backend.release_freed [OF c assms(2)] run by auto
qed

text \<open>A Redis in which token \<open>a\<close> owns conversation \<open>c1\<close>.\<close>

definition redis_owned :: redis_server where
  "redis_owned = (empty_redis [])\<lparr>rs_db := \<lparr>cr_clock = 0, cr_store = [guard_key ''own'' ''c1'' \<mapsto> (''a'', 60)]\<rparr>\<rparr>"

lemma redis_owned_simps [simp]:
  "rs_faults redis_owned = []" "guard_owner clock_redis_ops rs_db ''c1'' (sample_guard, redis_owned) = Some ''a''"
  "client_set sample_guard"
  by (simp_all add: redis_owned_def guard_owner_def sample_guard_def server_simps)

theorem release_only_own_witness:
  "guard_owner clock_redis_ops rs_db ''c1'' (snd (release server_client ''c1'' ''b'' (sample_guard, redis_owned))) = Some ''a''"
proof -
  obtain r g' w' where run: "release server_client ''c1'' ''b'' (sample_guard, redis_owned) = (r, g', w')" by (metis prod_cases3)
  show ?thesis
    using release_only_own [OF server.redis_backend_axioms sample_guard_ok run] by (simp add: run)
qed

text \<open>
  While Redis answers, \<open>claim_or_refresh\<close> returns \<open>True\<close> exactly when the conversation is free or
  already owned by the token. Then the token owns it, for the whole time to live.
\<close>

theorem claim_granted_iff:
  assumes redis: "redis_backend R C db sha up loaded" and state: "guard_ok sha (g, w)" "client_set g" "up w"
    and small: "guard_ttl_sec g < exact_limit"
  shows "\<exists>g' w'. claim_or_refresh C cid tok (g, w) =
      (Inr (guard_owner R db cid (g, w) \<in> {None, Some tok}), g', w')
    \<and> (guard_owner R db cid (g, w) \<in> {None, Some tok} \<longrightarrow>
        guard_owner R db cid (g', w') = Some tok
        \<and> r_ttl R (guard_key (guard_prefix g) cid) (db w') = Some (nat (guard_ttl_sec g)))"
proof -
  let ?own = "guard_owner R db cid (g, w)"
  obtain g' w' where run: "claim_or_refresh C cid tok (g, w) = (Inr (?own \<in> {None, Some tok}), g', w')"
    using redis_backend.claim_up [OF redis state] by blast
  have "guard_owner R db cid (g', w') = Some tok
        \<and> r_ttl R (guard_key (guard_prefix g) cid) (db w') = Some (nat (guard_ttl_sec g))" if "?own \<in> {None, Some tok}"
  proof -
    have t: "claim_or_refresh C cid tok (g, w) = (Inr True, g', w')" using run that by simp
    show ?thesis
      using redis_backend.claim_effect(2,6) [OF redis state(1) t] redis_backend.claim_lease(3) [OF redis state(1) t small]
      by (simp add: guard_owner_def guard_config_def)
  qed
  with run show ?thesis by blast
qed

theorem claim_granted_iff_witness:
  "(\<exists>g' w'. claim_or_refresh server_client ''c1'' ''b'' (sample_guard, redis_owned) = (Inr False, g', w'))
   \<and> (\<exists>g' w'. claim_or_refresh server_client ''c1'' ''a'' (sample_guard, redis_owned) = (Inr True, g', w')
        \<and> guard_owner clock_redis_ops rs_db ''c1'' (g', w') = Some ''a'')"
  using claim_granted_iff [OF server.redis_backend_axioms sample_guard_ok, of redis_owned "''c1''" "''a''"]
    claim_granted_iff [OF server.redis_backend_axioms sample_guard_ok, of redis_owned "''c1''" "''b''"]
  by (simp add: exact_limit_def) (auto simp: sample_guard_def)

end
