(* ===== verification/Shared_Redis.thy ===== *)
theory Shared_Redis
  imports Fleet Ownership "HOL-Library.Sublist"
begin

text \<open>
  One Redis for both stores of the service: the counters of \<open>redis/sequence_state_machine.py\<close> and the owners of
  \<open>redis/ownership_guard.py\<close>, as \<open>redis/runtime.py\<close> wires them. Each kind of key starts with a prefix of its own from the
  settings. When the prefixes are separate, the operations of each class leave the keys of the other alone; the
  guards of all instances together implement the contract of the guard.
\<close>

section \<open>Keys\<close>

definition separate_prefixes :: "string \<Rightarrow> string \<Rightarrow> bool" where
  "separate_prefixes p q \<longleftrightarrow> \<not> prefix (p @ '':'') (q @ '':'') \<and> \<not> prefix (q @ '':'') (p @ '':'')"

lemma separate_keys: "separate_prefixes p q \<Longrightarrow> sm_key p c \<noteq> guard_key q c'"
proof
  assume sep: "separate_prefixes p q" and eq: "sm_key p c = guard_key q c'"
  have "sm_key p c = (p @ '':'') @ c" "guard_key q c' = (q @ '':'') @ c'" by (simp_all add: sm_key_def guard_key_def)
  then have "prefix (p @ '':'') (sm_key p c)" "prefix (q @ '':'') (sm_key p c)"
    unfolding eq by (metis eq prefixI, metis prefixI)
  then show False using sep prefix_same_cases unfolding separate_prefixes_def by blast
qed

text \<open>Prefixes that only differ are not enough: a conversation id may contain the separator.\<close>

lemma different_prefixes_collide: "sm_key p (q @ '':'' @ c) = guard_key (p @ '':'' @ q) c"
  by (simp add: sm_key_def guard_key_def)

section \<open>Each class and the keys of the other\<close>

context redis_backend
begin

lemma prepare_other_key:
  assumes ok: "sm_ok R db sha (s, w)" and run: "prepare C cid n (s, w) = (r, s', w')" and k: "k \<noteq> sm_key (key_prefix s) cid"
  shows "r_get R k (db w') = r_get R k (db w)"
  using ok run
proof (cases rule: prepare_cases)
  case (failed e)
  then show ?thesis by simp
next
  case (ran w1 h r0)
  have "0 < active_ttl s" using ok by (simp add: sm_ok_def)
  then show ?thesis
    using eval_reload_invariant [where Q = "\<lambda>d. r_get R k d = r_get R k (db w)", OF ran(4)] ran(1) k
    by (simp add: prepare_get del: run_script.simps)
qed

lemma commit_other_key:
  assumes ok: "sm_ok R db sha (s, w)" and run: "commit C cid n (s, w) = (r, s', w')" and k: "k \<noteq> sm_key (key_prefix s) cid"
  shows "r_get R k (db w') = r_get R k (db w)"
  using ok run
proof (cases rule: commit_cases)
  case (failed e)
  then show ?thesis by simp
next
  case (ran w1 h r0)
  have "0 < active_ttl s" using ok by (simp add: sm_ok_def)
  then show ?thesis
    using eval_reload_invariant [where Q = "\<lambda>d. r_get R k d = r_get R k (db w)", OF ran(4)] ran(1) k
    by (simp add: commit_get del: run_script.simps)
qed

lemma cleanup_other_key:
  assumes ok: "sm_ok R db sha (s, w)" and run: "cleanup C cid (s, w) = (r, s', w')"
  shows "r_get R k (db w') = r_get R k (db w)"
  using ok run
proof (cases rule: cleanup_cases)
  case (failed e)
  then show ?thesis by simp
next
  case (ran w1 h r0)
  have "0 < final_ttl s" using ok by (simp add: sm_ok_def)
  then show ?thesis
    using eval_reload_invariant [where Q = "\<lambda>d. r_get R k d = r_get R k (db w)", OF ran(4)] ran(1)
    by (simp add: cleanup_get del: run_script.simps)
qed

end

section \<open>The guards of all instances\<close>

definition fleet_guard :: "'w redis_client \<Rightarrow> nat \<Rightarrow> ((nat \<Rightarrow> ownership_guard) \<times> 'w) guard_ops" where
  "fleet_guard C i = \<lparr>g_claim_or_refresh = (\<lambda>cid tok. at_instance i (claim_or_refresh C cid tok)),
     g_release = (\<lambda>cid tok. at_instance i (release C cid tok)), g_close = at_instance i (guard_close_client C)\<rparr>"

definition fleet_guards_ok :: "(lua_script \<Rightarrow> string) \<Rightarrow> string \<Rightarrow> (nat \<Rightarrow> ownership_guard) \<times> 'w \<Rightarrow> bool" where
  "fleet_guards_ok sha p g \<longleftrightarrow> (\<forall>i. guard_prefix (fst g i) = p \<and> guard_ok sha (fst g i, snd g))"

definition fleet_owner ::
  "'d redis_ops \<Rightarrow> ('w \<Rightarrow> 'd) \<Rightarrow> string \<Rightarrow> string \<Rightarrow> (nat \<Rightarrow> ownership_guard) \<times> 'w \<Rightarrow> string option" where
  "fleet_owner R db p c g = r_get R (guard_key p c) (db (snd g))"

lemma fleet_guards_world: "fleet_guards_ok sha p (gs, w) \<Longrightarrow> fleet_guards_ok sha p (gs, w')"
  by (simp add: fleet_guards_ok_def guard_ok_def)

context redis_backend
begin

lemma fleet_claim_cases:
  assumes ok: "fleet_guards_ok sha p (gs, w)" and run: "g_claim_or_refresh (fleet_guard C i) cid tok (gs, w) = (r, g')"
  obtains g w' where "g' = (gs(i := g), w')" "claim_or_refresh C cid tok (gs i, w) = (r, g, w')" "fleet_guards_ok sha p g'"
proof -
  obtain r0 g w' where c: "claim_or_refresh C cid tok (gs i, w) = (r0, g, w')" by (metis prod_cases3)
  have i: "guard_ok sha (gs i, w)" "guard_prefix (gs i) = p" using ok by (simp_all add: fleet_guards_ok_def)
  have "guard_ok sha (g, w')" "guard_prefix g = p"
    using claim_effect(1,2) [OF i(1) c] i(2) by (simp_all add: guard_config_def)
  then show thesis
    using that [of g w'] run c fleet_guards_world [OF ok, of w']
    by (auto simp: fleet_guard_def at_instance_def fleet_guards_ok_def)
qed

lemma fleet_release_cases:
  assumes ok: "fleet_guards_ok sha p (gs, w)" and run: "g_release (fleet_guard C i) cid tok (gs, w) = (r, g')"
  obtains g w' where "g' = (gs(i := g), w')" "release C cid tok (gs i, w) = (r, g, w')" "fleet_guards_ok sha p g'"
proof -
  obtain r0 g w' where c: "release C cid tok (gs i, w) = (r0, g, w')" by (metis prod_cases3)
  have i: "guard_ok sha (gs i, w)" "guard_prefix (gs i) = p" using ok by (simp_all add: fleet_guards_ok_def)
  have "guard_ok sha (g, w')" "guard_prefix g = p"
    using release_effect(1,2) [OF i(1) c] i(2) by (simp_all add: guard_config_def)
  then show thesis
    using that [of g w'] run c fleet_guards_world [OF ok, of w']
    by (auto simp: fleet_guard_def at_instance_def fleet_guards_ok_def)
qed

lemma fleet_guard_contract: "ownership_backend (fleet_guard C i) (fleet_guards_ok sha p) (fleet_owner R db p)"
proof
  fix g g' :: "(nat \<Rightarrow> ownership_guard) \<times> 'w" and c cid tok
  assume ok: "fleet_guards_ok sha p g"
  obtain gs w where g: "g = (gs, w)" by fastforce
  note ok = ok [unfolded g]
  have one: "guard_ok sha (gs i, w)" "guard_prefix (gs i) = p" using ok by (simp_all add: fleet_guards_ok_def)
  note claim = claim_effect [OF one(1), unfolded one(2)] and rel = release_effect [OF one(1), unfolded one(2)]
  note cases = fleet_claim_cases [OF ok] fleet_release_cases [OF ok]
  show "g_claim_or_refresh (fleet_guard C i) cid tok g = (r, g') \<Longrightarrow>
      fleet_guards_ok sha p g' \<and> (c \<noteq> cid \<longrightarrow> fleet_owner R db p c g' = fleet_owner R db p c g)" for r
    unfolding g fleet_owner_def by (elim cases(1)) (use claim(3) in auto)
  show "g_claim_or_refresh (fleet_guard C i) cid tok g = (Inr True, g') \<Longrightarrow>
      fleet_owner R db p cid g \<in> {None, Some tok} \<and> fleet_owner R db p cid g' = Some tok"
    unfolding g fleet_owner_def by (elim cases(1)) (use claim(6) in auto)
  show "g_claim_or_refresh (fleet_guard C i) cid tok g = (Inr False, g') \<Longrightarrow>
      fleet_owner R db p cid g \<notin> {None, Some tok} \<and> fleet_owner R db p cid g' = fleet_owner R db p cid g"
    unfolding g fleet_owner_def by (elim cases(1)) (use claim(4,7) in auto)
  show "g_claim_or_refresh (fleet_guard C i) cid tok g = (r, g') \<Longrightarrow> fleet_owner R db p cid g \<notin> {None, Some tok} \<Longrightarrow>
      fleet_owner R db p cid g' = fleet_owner R db p cid g" for r
    unfolding g fleet_owner_def by (elim cases(1)) (use claim(4) in auto)
  show "g_claim_or_refresh (fleet_guard C i) cid tok g = (r, g') \<Longrightarrow>
      fleet_owner R db p cid g' \<in> {fleet_owner R db p cid g, Some tok}" for r
    unfolding g fleet_owner_def by (elim cases(1)) (use claim(5) in auto)
  show "g_release (fleet_guard C i) cid tok g = (ru, g') \<Longrightarrow>
      fleet_guards_ok sha p g' \<and> (c \<noteq> cid \<longrightarrow> fleet_owner R db p c g' = fleet_owner R db p c g)" for ru
    unfolding g fleet_owner_def by (elim cases(2)) (use rel(3) in auto)
  show "g_release (fleet_guard C i) cid tok g = (ru, g') \<Longrightarrow> fleet_owner R db p cid g \<noteq> Some tok \<Longrightarrow>
      fleet_owner R db p cid g' = fleet_owner R db p cid g" for ru
    unfolding g fleet_owner_def by (elim cases(2)) (use rel(4) in auto)
  show "g_release (fleet_guard C i) cid tok g = (Inr u, g') \<Longrightarrow> fleet_owner R db p cid g' \<noteq> Some tok" for u
    unfolding g fleet_owner_def by (elim cases(2)) (use rel(5) in auto)
qed

end

sublocale redis_backend \<subseteq> owners: ownership_backend "fleet_guard C i" "fleet_guards_ok sha p" "fleet_owner R db p" for i p
  by (rule fleet_guard_contract)

section \<open>Each store under the operations of the other, and under time\<close>

context redis_backend
begin

lemma handler_step_owner:
  assumes ok: "fleet_ok R db sha p (sms, w)" and sep: "separate_prefixes p q"
    and step: "handler_step P (fleet_sequence C i) K rq ph ((sms, w), k) = (ph', (sms', w'), k')"
  shows "r_get R (guard_key q c) (db w') = r_get R (guard_key q c) (db w)"
proof -
  have one: "sm_ok R db sha (sms i, w)" "key_prefix (sms i) = p" using ok by (simp_all add: fleet_ok_def)
  have key: "guard_key q c \<noteq> sm_key (key_prefix (sms i)) cid" for cid using separate_keys [OF sep] one(2) by metis
  note defs = fleet_sequence_def at_instance_def Let_def
  show ?thesis
  proof (cases ph)
    case Arrived
    then show ?thesis
      using step prepare_other_key [OF one(1) _ key] by (auto simp: begin_step_def defs split: sum.splits prod.splits if_splits)
  next
    case (Accepted m)
    then show ?thesis using step by (auto simp: Let_def split: sum.splits prod.splits)
  next
    case (Published m)
    then show ?thesis
      using step commit_other_key [OF one(1) _ key] by (auto simp: defs split: sum.splits prod.splits if_splits)
  next
    case (Committed m)
    then show ?thesis using step cleanup_other_key [OF one(1)] by (auto simp: defs split: prod.splits)
  next
    case (Answered r)
    then show ?thesis using step by simp
  qed
qed

lemma counters_kept:
  assumes "fleet_ok R db sha p (sms, w)" and "\<And>c. r_get R (sm_key p c) (db w') = r_get R (sm_key p c) (db w)"
  shows "fleet_ok R db sha p (sms, w') \<and> fleet_expected R db p c (sms, w') = fleet_expected R db p c (sms, w)"
proof -
  have "counter_ok R (sm_key p c) (db w') = counter_ok R (sm_key p c) (db w)"
    "counter R (sm_key p c) (db w') = counter R (sm_key p c) (db w)" for c
    using assms(2) [of c] by (simp_all add: counter_ok_def counter_def)
  moreover have "counter_ok R (sm_key p c) (db w)" for c using assms(1) by (auto simp: fleet_ok_def sm_ok_def)
  ultimately show ?thesis using assms(1) by (simp add: fleet_ok_def sm_ok_def fleet_expected_def)
qed

lemma guard_ops_counters:
  assumes ok: "fleet_ok R db sha p (sms, w)" and guards: "fleet_guards_ok sha q (gs, w)" and sep: "separate_prefixes p q"
    and op: "g_claim_or_refresh (fleet_guard C i) cid tok (gs, w) = (r, gs', w')
      \<or> g_release (fleet_guard C i) cid tok (gs, w) = (ru, gs', w')"
  shows "fleet_ok R db sha p (sms, w') \<and> fleet_expected R db p c (sms, w') = fleet_expected R db p c (sms, w)"
proof (rule counters_kept [OF ok])
  fix c
  have one: "guard_ok sha (gs i, w)" "guard_prefix (gs i) = q" using guards by (simp_all add: fleet_guards_ok_def)
  have key: "sm_key p c \<noteq> guard_key (guard_prefix (gs i)) cid" using separate_keys [OF sep] one(2) by metis
  show "r_get R (sm_key p c) (db w') = r_get R (sm_key p c) (db w)"
    using op
  proof
    assume "g_claim_or_refresh (fleet_guard C i) cid tok (gs, w) = (r, gs', w')"
    then show ?thesis using fleet_claim_cases [OF guards] claim_effect(3) [OF one(1) _ key] by (metis prod.inject)
  next
    assume "g_release (fleet_guard C i) cid tok (gs, w) = (ru, gs', w')"
    then show ?thesis using fleet_release_cases [OF guards] release_effect(3) [OF one(1) _ key] by (metis prod.inject)
  qed
qed

lemma elapse_get: "r_get R k (r_elapse R n d) \<in> {r_get R k d, None}"
  by (simp add: get_elapse split: option.splits)

lemma elapse_counters:
  assumes ok: "fleet_ok R db sha p (sms, w)" and time: "db w' = r_elapse R n (db w)"
  shows "fleet_ok R db sha p (sms, w')"
    and "fleet_expected R db p c (sms, w') \<in> {fleet_expected R db p c (sms, w), 0}"
proof -
  have one: "counter_ok R (sm_key p c) (db w)" for c using ok by (auto simp: fleet_ok_def sm_ok_def)
  have "counter_ok R (sm_key p c) (db w') \<and> counter R (sm_key p c) (db w') \<in> {counter R (sm_key p c) (db w), 0}" for c
    using one [of c] elapse_get [of "sm_key p c" n "db w"] unfolding time counter_ok_def counter_def by auto
  then show "fleet_ok R db sha p (sms, w')"
    and "fleet_expected R db p c (sms, w') \<in> {fleet_expected R db p c (sms, w), 0}"
    using ok by (simp_all add: fleet_ok_def sm_ok_def fleet_expected_def)
qed

end

end
