(* ===== verification/Registry.thy ===== *)
theory Registry
  imports Errors
begin

text \<open>
  The connection registry, \<open>transport/registry.py\<close>. A WebSocket object is a natural number, its
  identity. The dictionary is an association list in insertion order, from conversations to list
  objects: \<open>add\<close> appends to the list object in place, \<open>remove\<close> stores a new one, and \<open>close_all\<close> goes
  through the objects it has seen first. The invariant says that the counter the handshake compares with
  the connection limit is the number of registered sockets.
\<close>

record registry =
  connections :: "(string \<times> nat) list"
  list_objs :: "nat \<Rightarrow> nat list"
  next_obj :: nat
  active_count :: int

definition empty_registry :: registry where
  "empty_registry = \<lparr>connections = [], list_objs = (\<lambda>_. []), next_obj = 0, active_count = 0\<rparr>"

text \<open>\<open>d[k] = v\<close> and \<open>d.pop(k, None)\<close>.\<close>

fun conn_set :: "(string \<times> 'v) list \<Rightarrow> string \<Rightarrow> 'v \<Rightarrow> (string \<times> 'v) list" where
  "conn_set [] k v = [(k, v)]"
| "conn_set ((k', v') # d) k v = (if k' = k then (k, v) # d else (k', v') # conn_set d k v)"

definition conn_pop :: "(string \<times> 'v) list \<Rightarrow> string \<Rightarrow> (string \<times> 'v) list" where
  "conn_pop d k = filter (\<lambda>kv. fst kv \<noteq> k) d"

text \<open>A new list object, stored under the conversation.\<close>

definition store_list :: "string \<Rightarrow> nat list \<Rightarrow> registry \<Rightarrow> registry" where
  "store_list cid ss r = r\<lparr>connections := conn_set (connections r) cid (next_obj r),
     list_objs := (list_objs r)(next_obj r := ss), next_obj := next_obj r + 1\<rparr>"

definition sockets :: "registry \<Rightarrow> string \<Rightarrow> nat list" where
  "sockets r cid = (case map_of (connections r) cid of None \<Rightarrow> [] | Some ref \<Rightarrow> list_objs r ref)"

definition registry_add :: "string \<Rightarrow> nat \<Rightarrow> registry \<Rightarrow> registry" where
  "registry_add conversation_id ws r =
     (let r1 = (case map_of (connections r) conversation_id of
          None \<Rightarrow> store_list conversation_id [ws] r
        | Some ref \<Rightarrow> r\<lparr>list_objs := (list_objs r)(ref := list_objs r ref @ [ws])\<rparr>)
      in r1\<lparr>active_count := active_count r1 + 1\<rparr>)"

definition registry_remove :: "string \<Rightarrow> nat option \<Rightarrow> registry \<Rightarrow> registry" where
  "registry_remove conversation_id ws r =
     (case ws of
        None \<Rightarrow>
          r\<lparr>connections := conn_pop (connections r) conversation_id,
            active_count := active_count r - int (length (sockets r conversation_id))\<rparr>
      | Some w \<Rightarrow>
          (let ss = sockets r conversation_id;
               remaining = filter (\<lambda>x. x \<noteq> w) ss;
               removed = length ss - length remaining;
               r1 = r\<lparr>active_count := active_count r - int removed\<rparr>
           in if ss = [] then r
              else if remaining \<noteq> [] then store_list conversation_id remaining r1
              else r1\<lparr>connections := conn_pop (connections r1) conversation_id\<rparr>))"

text \<open>
  \<open>close_all\<close>. Closing a socket awaits, and other tasks run meanwhile: \<open>await_close\<close> changes the world and
  the registry, and its exceptions are suppressed. The dictionary's items are copied before the first
  close, the sockets of a conversation when its turn has come.
\<close>

record 'u socket_ops =
  is_connected :: "nat \<Rightarrow> 'u \<Rightarrow> bool"
  await_close :: "nat \<Rightarrow> int \<Rightarrow> string \<Rightarrow> 'u \<times> registry \<Rightarrow> 'u \<times> registry"

fun close_sockets :: "'u socket_ops \<Rightarrow> int \<Rightarrow> string \<Rightarrow> nat list \<Rightarrow> 'u \<times> registry \<Rightarrow> 'u \<times> registry" where
  "close_sockets W code reason [] ur = ur"
| "close_sockets W code reason (ws # rest) ur =
     close_sockets W code reason rest (if is_connected W ws (fst ur) then await_close W ws code reason ur else ur)"

fun close_items :: "'u socket_ops \<Rightarrow> int \<Rightarrow> string \<Rightarrow> (string \<times> nat) list \<Rightarrow> 'u \<times> registry \<Rightarrow> 'u \<times> registry" where
  "close_items W code reason [] ur = ur"
| "close_items W code reason ((cid, ref) # items) ur =
     (case close_sockets W code reason (list_objs (snd ur) ref) ur of
        (u, r) \<Rightarrow> close_items W code reason items (u, r\<lparr>connections := conn_pop (connections r) cid\<rparr>))"

definition registry_close_all :: "'u socket_ops \<Rightarrow> int \<Rightarrow> string \<Rightarrow> 'u \<times> registry \<Rightarrow> 'u \<times> registry" where
  "registry_close_all W code reason ur =
     (case close_items W code reason (connections (snd ur)) ur of (u, r) \<Rightarrow> (u, r\<lparr>active_count := 0\<rparr>))"

section \<open>Invariant\<close>

definition total_sockets :: "(string \<times> nat list) list \<Rightarrow> int" where
  "total_sockets d = int (sum_list (map (length \<circ> snd) d))"

text \<open>The dictionary with the contents of its lists.\<close>

fun contents :: "(nat \<Rightarrow> nat list) \<Rightarrow> (string \<times> nat) list \<Rightarrow> (string \<times> nat list) list" where
  "contents h [] = []"
| "contents h ((k, ref) # d) = (k, h ref) # contents h d"

definition registered :: "registry \<Rightarrow> (string \<times> nat list) list" where
  "registered r = contents (list_objs r) (connections r)"

text \<open>The objects of the dictionary are distinct and exist, its lists are not empty, the count is right.\<close>

definition registry_ok :: "registry \<Rightarrow> bool" where
  "registry_ok r \<longleftrightarrow> distinct (map fst (connections r)) \<and> distinct (map snd (connections r))
     \<and> (\<forall>ref \<in> set (map snd (connections r)). ref < next_obj r)
     \<and> (\<forall>(k, ws) \<in> set (registered r). ws \<noteq> []) \<and> active_count r = total_sockets (registered r)"

lemma map_of_conn_set [simp]: "map_of (conn_set d k v) = (map_of d)(k \<mapsto> v)"
  by (induction d k v rule: conn_set.induct) (auto simp: fun_eq_iff)

lemma conn_set_keys: "set (map fst (conn_set d k v)) = insert k (set (map fst d))"
  by (induction d k v rule: conn_set.induct) auto

lemma conn_set_distinct: "distinct (map fst d) \<Longrightarrow> distinct (map fst (conn_set d k v))"
proof (induction d k v rule: conn_set.induct)
  case (2 k' v' d k v)
  then show ?case using conn_set_keys [of d k v] by auto
qed simp

lemma conn_set_values: "set (map snd (conn_set d k v)) \<subseteq> insert v (set (map snd d))"
  by (induction d k v rule: conn_set.induct) auto

lemma conn_set_distinct_values: "distinct (map snd d) \<Longrightarrow> v \<notin> set (map snd d) \<Longrightarrow> distinct (map snd (conn_set d k v))"
proof (induction d k v rule: conn_set.induct)
  case (2 k' v' d k v)
  then show ?case using conn_set_values [of d k v] by auto
qed simp

lemma conn_set_nonempty:
  "\<forall>(k, ws) \<in> set d. ws \<noteq> [] \<Longrightarrow> v \<noteq> [] \<Longrightarrow> \<forall>(k, ws) \<in> set (conn_set d k v). ws \<noteq> []"
  by (induction d k v rule: conn_set.induct) auto

lemma conn_set_total:
  "distinct (map fst d) \<Longrightarrow> total_sockets (conn_set d k v) =
     total_sockets d + int (length v) - int (length (case map_of d k of None \<Rightarrow> [] | Some ws \<Rightarrow> ws))"
  by (induction d k v rule: conn_set.induct) (auto simp: total_sockets_def map_of_eq_None_iff split: option.splits)

lemma conn_pop_absent: "k \<notin> set (map fst d) \<Longrightarrow> conn_pop d k = d"
  by (auto simp: conn_pop_def filter_id_conv)

lemma conn_pop_total:
  "distinct (map fst d) \<Longrightarrow> total_sockets (conn_pop d k) =
     total_sockets d - int (length (case map_of d k of None \<Rightarrow> [] | Some ws \<Rightarrow> ws))"
proof (induction d)
  case (Cons kv d)
  obtain k' v where kv: "kv = (k', v)" by fastforce
  show ?case
  proof (cases "k' = k")
    case True
    then have "conn_pop d k = d" using Cons.prems kv by (intro conn_pop_absent) simp
    then show ?thesis using True kv by (simp add: conn_pop_def total_sockets_def)
  next
    case False
    then show ?thesis using Cons kv by (simp add: conn_pop_def total_sockets_def)
  qed
qed (simp add: conn_pop_def)

lemma map_of_conn_pop: "map_of (conn_pop d k) = (map_of d)(k := None)"
  by (induction d) (auto simp: conn_pop_def fun_eq_iff)

lemma conn_pop_distinct:
  "distinct (map fst d) \<Longrightarrow> distinct (map fst (conn_pop d k))"
  "distinct (map snd d) \<Longrightarrow> distinct (map snd (conn_pop d k))"
  by (induction d) (auto simp: conn_pop_def)

text \<open>A change of the lists, seen through the contents.\<close>

lemma contents_keys [simp]: "map fst (contents h d) = map fst d"
  by (induction h d rule: contents.induct) auto

lemma contents_fresh: "n \<notin> set (map snd d) \<Longrightarrow> contents (h(n := v)) d = contents h d"
  by (induction h d rule: contents.induct) auto

lemma contents_conn_set: "n \<notin> set (map snd d) \<Longrightarrow> contents (h(n := v)) (conn_set d k n) = conn_set (contents h d) k v"
proof (induction d k n rule: conn_set.induct)
  case (2 k' v' d k n)
  then show ?case using contents_fresh [of n d h v]
    by (auto simp: fun_upd_same fun_upd_other simp del: fun_upd_apply)
qed (simp add: fun_upd_same)

lemma contents_conn_pop: "contents h (conn_pop d k) = conn_pop (contents h d) k"
  by (induction h d rule: contents.induct) (auto simp: conn_pop_def)

lemma contents_update:
  "distinct (map snd d) \<Longrightarrow> map_of d k = Some ref \<Longrightarrow> contents (h(ref := v)) d = conn_set (contents h d) k v"
proof (induction d)
  case (Cons kv d)
  obtain k' ref' where kv: "kv = (k', ref')" by fastforce
  show ?case
  proof (cases "k' = k")
    case True
    then have "ref' = ref" "ref \<notin> set (map snd d)" using Cons.prems kv by auto
    moreover from this(2) have "contents (h(ref := v)) d = contents h d" by (rule contents_fresh)
    ultimately show ?thesis using True kv by (simp add: fun_upd_same del: fun_upd_apply)
  next
    case False
    then have "map_of d k = Some ref" using Cons.prems kv by simp
    moreover from this have "ref \<noteq> ref'" using Cons.prems(1) kv by (force dest: map_of_SomeD)
    ultimately show ?thesis using Cons False kv by (simp add: fun_upd_other del: fun_upd_apply)
  qed
qed simp

lemma map_of_contents: "map_of (contents h d) k = map_option h (map_of d k)"
  by (induction h d rule: contents.induct) auto

lemma sockets_registered: "sockets r cid = (case map_of (registered r) cid of None \<Rightarrow> [] | Some ws \<Rightarrow> ws)"
  by (simp add: sockets_def registered_def map_of_contents split: option.splits)

lemma registry_ok_facts:
  assumes "registry_ok r"
  shows "distinct (map fst (registered r))" "next_obj r \<notin> set (map snd (connections r))" "distinct (map snd (connections r))"
  using assms by (auto simp: registry_ok_def registered_def)

lemma registered_store: "registry_ok r \<Longrightarrow> registered (store_list cid ss r) = conn_set (registered r) cid ss"
  using contents_conn_set [OF registry_ok_facts(2)] by (simp add: registered_def store_list_def)

lemma registered_add: "registry_ok r \<Longrightarrow> registered (registry_add cid ws r) = conn_set (registered r) cid (sockets r cid @ [ws])"
proof (cases "map_of (connections r) cid")
  case None
  assume ok: "registry_ok r"
  then show ?thesis using None registered_store [OF ok, of cid "[ws]"]
    by (simp add: registry_add_def sockets_def registered_def Let_def)
next
  case (Some ref)
  assume ok: "registry_ok r"
  then show ?thesis using Some contents_update [OF registry_ok_facts(3) [OF ok] Some]
    by (simp add: registry_add_def sockets_def registered_def Let_def)
qed

lemma registered_remove:
  assumes ok: "registry_ok r"
  shows "registered (registry_remove cid ws r) =
    (let remaining = (case ws of None \<Rightarrow> [] | Some w \<Rightarrow> filter (\<lambda>x. x \<noteq> w) (sockets r cid))
     in if remaining = [] then conn_pop (registered r) cid else conn_set (registered r) cid remaining)"
proof (cases "ws \<noteq> None \<and> sockets r cid = []")
  case True
  then obtain w where w: "ws = Some w" by auto
  have "map_of (registered r) cid \<noteq> Some []"
    using ok by (auto simp: registry_ok_def dest: map_of_SomeD)
  then have "cid \<notin> set (map fst (registered r))"
    using True unfolding sockets_registered by (auto simp: map_of_eq_None_iff [symmetric] split: option.splits)
  then have "conn_pop (registered r) cid = registered r" by (rule conn_pop_absent)
  then show ?thesis using True by (simp add: w registry_remove_def)
next
  case False
  have m: "registry_ok (r\<lparr>active_count := n\<rparr>) \<or> True" for n by simp
  have st: "registered (store_list cid ss (r\<lparr>active_count := n\<rparr>)) = conn_set (registered r) cid ss" for ss n
    using registered_store [OF ok, of cid ss] by (simp add: registered_def store_list_def)
  show ?thesis using False st
    by (auto simp: registry_remove_def Let_def registered_def contents_conn_pop split: option.splits)
qed

lemma sockets_store [simp]: "sockets (store_list cid ss r) cid = ss"
  by (simp add: sockets_def store_list_def)

lemma sockets_removed: "w \<notin> set (sockets (registry_remove cid (Some w) r) cid)"
  by (auto simp: registry_remove_def Let_def) (auto simp: sockets_def map_of_conn_pop)

lemma count_add: "active_count (registry_add cid ws r) = active_count r + 1"
  by (simp add: registry_add_def store_list_def Let_def split: option.splits)

lemma count_remove:
  "active_count (registry_remove cid ws r) = active_count r - int (length (sockets r cid)
     - length (case ws of None \<Rightarrow> [] | Some w \<Rightarrow> filter (\<lambda>x. x \<noteq> w) (sockets r cid)))"
  by (auto simp: registry_remove_def store_list_def Let_def split: option.splits)

lemma objects_store:
  assumes "registry_ok r"
  shows "distinct (map snd (connections (store_list cid ss r))) \<and> distinct (map fst (connections (store_list cid ss r)))
    \<and> (\<forall>ref \<in> set (map snd (connections (store_list cid ss r))). ref < next_obj (store_list cid ss r))"
  using assms registry_ok_facts [OF assms] conn_set_values [of "connections r" cid "next_obj r"]
  by (auto simp: store_list_def registry_ok_def conn_set_distinct conn_set_distinct_values subset_iff less_Suc_eq
      simp del: set_map)

lemma registry_ok_add:
  assumes ok: "registry_ok r"
  shows "registry_ok (registry_add cid ws r)"
proof -
  have "distinct (map snd (connections (registry_add cid ws r))) \<and> distinct (map fst (connections (registry_add cid ws r)))
    \<and> (\<forall>ref \<in> set (map snd (connections (registry_add cid ws r))). ref < next_obj (registry_add cid ws r))"
    using ok objects_store [OF ok, of cid "[ws]"]
    by (auto simp: registry_add_def Let_def registry_ok_def split: option.splits)
  moreover have "\<forall>(k, ws) \<in> set (registered (registry_add cid ws r)). ws \<noteq> []"
    unfolding registered_add [OF ok] using ok by (intro conn_set_nonempty) (auto simp: registry_ok_def)
  moreover have "total_sockets (registered (registry_add cid ws r)) = total_sockets (registered r) + 1"
    unfolding registered_add [OF ok] conn_set_total [OF registry_ok_facts(1) [OF ok]] by (simp add: sockets_registered)
  ultimately show ?thesis using ok by (simp add: registry_ok_def count_add)
qed

lemma registry_ok_remove:
  assumes ok: "registry_ok r"
  shows "registry_ok (registry_remove cid ws r)"
proof -
  let ?rest = "case ws of None \<Rightarrow> [] | Some w \<Rightarrow> filter (\<lambda>x. x \<noteq> w) (sockets r cid)"
  have len: "length ?rest \<le> length (sockets r cid)" by (simp split: option.splits)
  have st: "distinct (map snd (connections (store_list cid ss (r\<lparr>active_count := n\<rparr>))))
      \<and> distinct (map fst (connections (store_list cid ss (r\<lparr>active_count := n\<rparr>))))
      \<and> (\<forall>ref \<in> set (map snd (connections (store_list cid ss (r\<lparr>active_count := n\<rparr>)))). ref < next_obj r + 1)" for ss n
    using objects_store [OF ok, of cid ss] by (simp add: store_list_def)
  have "distinct (map snd (connections (registry_remove cid ws r))) \<and> distinct (map fst (connections (registry_remove cid ws r)))
    \<and> (\<forall>ref \<in> set (map snd (connections (registry_remove cid ws r))). ref < next_obj (registry_remove cid ws r))"
    using ok st
    by (auto simp: registry_remove_def Let_def registry_ok_def conn_pop_distinct store_list_def split: option.splits)
      (auto simp: conn_pop_def)
  moreover have "\<forall>(k, ws) \<in> set (registered (registry_remove cid ws r)). ws \<noteq> []"
  proof (cases "?rest = []")
    case True
    then show ?thesis using ok unfolding registered_remove [OF ok] by (auto simp: registry_ok_def conn_pop_def Let_def)
  next
    case False
    then show ?thesis using ok conn_set_nonempty [of "registered r" ?rest cid]
      unfolding registered_remove [OF ok] by (simp add: registry_ok_def Let_def)
  qed
  moreover have "total_sockets (registered (registry_remove cid ws r)) =
      total_sockets (registered r) + int (length ?rest) - int (length (sockets r cid))"
    unfolding registered_remove [OF ok] using registry_ok_facts(1) [OF ok]
    by (simp add: Let_def conn_set_total conn_pop_total sockets_registered)
  ultimately show ?thesis using ok len by (simp add: registry_ok_def count_remove of_nat_diff)
qed

section \<open>Specification\<close>

text \<open>
  What the registry promises: for each conversation the sockets added and not removed, in order. A
  removal of one socket leaves the others, a removal without a socket forgets the conversation.
\<close>

datatype registry_event = Added string nat | Removed string "nat option"

fun registry_step :: "registry_event \<Rightarrow> registry \<Rightarrow> registry" where
  "registry_step (Added cid ws) r = registry_add cid ws r"
| "registry_step (Removed cid ws) r = registry_remove cid ws r"

fun registered_spec :: "registry_event \<Rightarrow> (string \<Rightarrow> nat list) \<Rightarrow> string \<Rightarrow> nat list" where
  "registered_spec (Added cid ws) f = f(cid := f cid @ [ws])"
| "registered_spec (Removed cid None) f = f(cid := [])"
| "registered_spec (Removed cid (Some ws)) f = f(cid := filter (\<lambda>x. x \<noteq> ws) (f cid))"

lemma sockets_step:
  assumes ok: "registry_ok r"
  shows "sockets (registry_step e r) = registered_spec e (sockets r)"
proof (cases e)
  case (Added cid ws)
  show ?thesis
    by (rule ext) (simp add: Added sockets_registered [of "registry_add cid ws r"] registered_add [OF ok],
        simp add: sockets_registered)
next
  case (Removed cid w)
  show ?thesis
    by (rule ext) (cases w; simp add: Removed sockets_registered [of "registry_remove cid _ r"] registered_remove [OF ok]
        Let_def map_of_conn_pop, simp add: sockets_registered)
qed

lemma registry_ok_step: "registry_ok r \<Longrightarrow> registry_ok (registry_step e r)"
  by (cases e) (simp_all add: registry_ok_add registry_ok_remove)

lemma registry_run:
  "registry_ok r \<Longrightarrow> registry_ok (fold registry_step es r)
    \<and> sockets (fold registry_step es r) = fold registered_spec es (sockets r)"
  by (induction es arbitrary: r) (simp_all add: registry_ok_step sockets_step)

lemma registry_ok_empty: "registry_ok empty_registry"
  by (simp add: registry_ok_def empty_registry_def total_sockets_def registered_def)

lemma sockets_empty: "sockets empty_registry = (\<lambda>_. [])"
  by (simp add: sockets_def empty_registry_def fun_eq_iff)

text \<open>
  Sockets whose closing leaves the registry alone: \<open>await_close\<close> closes its socket and reopens none.
\<close>

definition quiet_close :: "'u socket_ops \<Rightarrow> int \<Rightarrow> string \<Rightarrow> bool" where
  "quiet_close W code reason \<longleftrightarrow> (\<forall>ws u r. snd (await_close W ws code reason (u, r)) = r
     \<and> \<not> is_connected W ws (fst (await_close W ws code reason (u, r)))
     \<and> (\<forall>x. \<not> is_connected W x u \<longrightarrow> \<not> is_connected W x (fst (await_close W ws code reason (u, r)))))"

lemma close_sockets_quiet:
  assumes q: "quiet_close W code reason" and c: "close_sockets W code reason ss (u, r) = (u', r')"
  shows "r' = r \<and> (\<forall>x \<in> set ss. \<not> is_connected W x u') \<and> (\<forall>x. \<not> is_connected W x u \<longrightarrow> \<not> is_connected W x u')"
  using c
proof (induction ss arbitrary: u)
  case (Cons ws ss)
  obtain u1 where u1: "(if is_connected W ws u then await_close W ws code reason (u, r) else (u, r)) = (u1, r)"
      "\<not> is_connected W ws u1" "\<forall>x. \<not> is_connected W x u \<longrightarrow> \<not> is_connected W x u1"
    using q unfolding quiet_close_def by (cases "is_connected W ws u") (metis prod.collapse, auto)
  then show ?case using Cons.IH [of u1] Cons.prems by auto
qed simp

lemma close_items_quiet:
  assumes q: "quiet_close W code reason" and c: "close_items W code reason items (u, r) = (u', r')"
  shows "connections r' = filter (\<lambda>kv. fst kv \<notin> set (map fst items)) (connections r)
    \<and> (\<forall>(k, ref) \<in> set items. \<forall>x \<in> set (list_objs r ref). \<not> is_connected W x u')
    \<and> (\<forall>x. \<not> is_connected W x u \<longrightarrow> \<not> is_connected W x u')"
  using c
proof (induction items arbitrary: u r)
  case (Cons item items)
  obtain cid ref where item: "item = (cid, ref)" by fastforce
  obtain u1 r1 where c1: "close_sockets W code reason (list_objs r ref) (u, r) = (u1, r1)" by fastforce
  note q1 = close_sockets_quiet [OF q c1]
  have "close_items W code reason items (u1, r\<lparr>connections := conn_pop (connections r) cid\<rparr>) = (u', r')"
    using Cons.prems c1 q1 by (simp add: item)
  from Cons.IH [OF this] q1 show ?case
    by (auto simp: item conn_pop_def intro: filter_cong)
qed simp

lemma closed_all:
  assumes "quiet_close W code reason" and "registry_close_all W code reason (u, r) = (u', r')"
  shows "connections r' = [] \<and> active_count r' = 0"
proof -
  obtain u1 r1 where c: "close_items W code reason (connections r) (u, r) = (u1, r1)" by fastforce
  then have "r' = r1\<lparr>active_count := 0\<rparr>" using assms(2) by (simp add: registry_close_all_def)
  then show ?thesis using close_items_quiet [OF assms(1) c] by (simp add: filter_empty_conv)
qed

section \<open>Properties\<close>

text \<open>
  C33. After any sequence of additions and removals the count that admission compares with the limit
  is the number of registered sockets, and the sockets of each conversation are those that were added
  and not removed: in particular the end of an older connection never removes a newer one.
\<close>

theorem registry_counts_and_refines:
  "registry_ok (fold registry_step es empty_registry)
    \<and> active_count (fold registry_step es empty_registry) = total_sockets (registered (fold registry_step es empty_registry))
    \<and> sockets (fold registry_step es empty_registry) cid = fold registered_spec es (\<lambda>_. []) cid"
proof -
  have ok: "registry_ok (fold registry_step es empty_registry)"
    and s: "sockets (fold registry_step es empty_registry) = fold registered_spec es (\<lambda>_. [])"
    using registry_run [OF registry_ok_empty, of es] by (simp_all add: sockets_empty)
  then show ?thesis by (simp add: registry_ok_def)
qed

text \<open>
  When no other task touches the registry meanwhile, \<open>close_all\<close> closes every socket that is
  registered and leaves the registry empty with count 0.
\<close>

theorem close_all_empties:
  assumes "quiet_close W code reason" and "registry_close_all W code reason (u, r) = (u', r')"
  shows "connections r' = [] \<and> active_count r' = 0 \<and> (\<forall>cid. \<forall>ws \<in> set (sockets r cid). \<not> is_connected W ws u')"
proof -
  obtain u1 r1 where c: "close_items W code reason (connections r) (u, r) = (u1, r1)" by fastforce
  then have r: "u' = u1" "r' = r1\<lparr>active_count := 0\<rparr>" using assms(2) by (simp_all add: registry_close_all_def)
  note q = close_items_quiet [OF assms(1) c]
  have "\<not> is_connected W ws u1" if w: "ws \<in> set (sockets r cid)" for ws cid
  proof -
    obtain ref where "map_of (connections r) cid = Some ref" "ws \<in> set (list_objs r ref)"
      using w by (cases "map_of (connections r) cid") (simp_all add: sockets_def)
    then show ?thesis using q map_of_SomeD by fastforce
  qed
  then show ?thesis using closed_all [OF assms] by (simp add: r)
qed

definition quiet_sockets :: "nat list socket_ops" where
  "quiet_sockets = \<lparr>is_connected = (\<lambda>ws u. ws \<notin> set u), await_close = (\<lambda>ws code reason (u, r). (ws # u, r))\<rparr>"

theorem close_all_empties_witness:
  "connections (snd (registry_close_all quiet_sockets 1001 ''Going away'' ([], registry_add ''c1'' 7 empty_registry))) = []
    \<and> 7 \<in> set (fst (registry_close_all quiet_sockets 1001 ''Going away'' ([], registry_add ''c1'' 7 empty_registry)))"
proof -
  obtain u' r' where c: "registry_close_all quiet_sockets 1001 ''Going away'' ([], registry_add ''c1'' 7 empty_registry) = (u', r')"
    by fastforce
  have q: "quiet_close quiet_sockets 1001 ''Going away''" by (simp add: quiet_close_def quiet_sockets_def)
  have "7 \<in> set (sockets (registry_add ''c1'' 7 empty_registry) ''c1'')"
    by (simp add: registry_add_def empty_registry_def sockets_def store_list_def)
  moreover have "is_connected quiet_sockets ws u' = (ws \<notin> set u')" for ws by (simp add: quiet_sockets_def)
  ultimately show ?thesis using close_all_empties [OF q c] unfolding c fst_conv snd_conv by blast
qed

definition late_connection :: "unit socket_ops" where
  "late_connection = \<lparr>is_connected = (\<lambda>ws u. True),
     await_close = (\<lambda>ws code reason (u, r). (u, registry_add ''late'' (ws + 1) r))\<rparr>"

text \<open>
  \<open>close_all\<close> sets the count to 0 also when a connection was registered while it waited for a close:
  the connection stays in the dictionary and the count no longer agrees with it, so that its later
  removal makes the count negative.
\<close>

theorem close_all_loses_count:
  "(let r = snd (registry_close_all late_connection 1001 ''Going away'' ((), registry_add ''c1'' 7 empty_registry)) in
     sockets r ''late'' = [8] \<and> active_count r = 0 \<and> \<not> registry_ok r
     \<and> active_count (registry_remove ''late'' (Some 8) r) = - 1)"
  by (simp add: registry_close_all_def late_connection_def registry_add_def empty_registry_def sockets_def
      conn_pop_def registry_ok_def total_sockets_def registry_remove_def store_list_def registered_def Let_def)

end
