(* ===== verification/Session.thy ===== *)
theory Session
  imports Delivery Ownership Registry
begin

text \<open>
  The WebSocket session, \<open>transport/session.py\<close>: the endpoint, the message loop, the refresh loop and the
  closing of a connection with an error. The WebSocket is a record \<open>ws_ops\<close> of operations on a world
  \<open>'u\<close>, the orchestrator a function on a world \<open>'o\<close>, the ownership guard its record of \<open>Protocols\<close> on a world \<open>'g\<close>.

  The message loop and the refresh loop are two tasks: each advances by steps between its awaits,
  and a session is driven by a schedule that says which task takes the next step. The message loop has a step that
  receives and handles a frame and a step that answers it, so that a refresh can come between them.
\<close>

section \<open>The connection\<close>

text \<open>\<open>ws_connected\<close> is \<open>client_state == CONNECTED\<close>; \<open>ws_now\<close> and \<open>ws_elapsed_ms\<close> read the clock.\<close>

record 'u ws_ops =
  ws_accept :: "('u, unit) io"
  ws_receive_text :: "('u, string) io"
  ws_send_text :: "string \<Rightarrow> ('u, unit) io"
  ws_close :: "int \<Rightarrow> ('u, unit) io"
  ws_connected :: "'u \<Rightarrow> bool"
  ws_now :: "'u \<Rightarrow> string"
  ws_elapsed_ms :: "'u \<Rightarrow> rat"

text \<open>\<open>_send_error_and_close\<close>: every exception is suppressed, and ends the attempt.\<close>

definition send_error_and_close ::
  "'u ws_ops \<Rightarrow> orjson \<Rightarrow> string \<Rightarrow> ProtocolErrorScenario \<Rightarrow> string option \<Rightarrow> 'u \<Rightarrow> 'u" where
  "send_error_and_close W J conversation_id scenario details u =
     (if \<not> ws_connected W u then u
      else (case require_ws_close_code scenario of
          Inl _ \<Rightarrow> u
        | Inr code \<Rightarrow>
            (case build_response scenario (ws_now W u) conversation_id details of
               Inl _ \<Rightarrow> u
             | Inr frame \<Rightarrow>
                 (case dumps J (JObj frame) of
                    Inl _ \<Rightarrow> u
                  | Inr body \<Rightarrow>
                      (case ws_send_text W body u of
                         (Inl _, u1) \<Rightarrow> u1
                       | (Inr _, u1) \<Rightarrow> snd (ws_close W (ws_code code) u1))))))"

definition close_for_ownership_guard_unavailable :: "'u ws_ops \<Rightarrow> orjson \<Rightarrow> string \<Rightarrow> 'u \<Rightarrow> 'u" where
  "close_for_ownership_guard_unavailable W J conversation_id =
     send_error_and_close W J conversation_id DOWNSTREAM_UNAVAILABLE
       (Some ''Conversation ownership guard store unavailable'')"

definition close_for_active_sender_conflict :: "'u ws_ops \<Rightarrow> orjson \<Rightarrow> string \<Rightarrow> 'u \<Rightarrow> 'u" where
  "close_for_active_sender_conflict W J conversation_id =
     send_error_and_close W J conversation_id ACTIVE_SENDER_CONFLICT None"

section \<open>Ownership\<close>

definition release_ownership_guard ::
  "'g guard_ops option \<Rightarrow> string \<Rightarrow> string \<Rightarrow> bool \<Rightarrow> 'g \<Rightarrow> 'g" where
  "release_ownership_guard guard conversation_id token acquired g =
     (case guard of
        None \<Rightarrow> g
      | Some G \<Rightarrow> if \<not> acquired then g else snd (g_release G conversation_id token g))"

definition claim_runtime_ownership_or_close ::
  "'u ws_ops \<Rightarrow> orjson \<Rightarrow> 'g guard_ops \<Rightarrow> string \<Rightarrow> string \<Rightarrow> 'u \<times> 'g \<Rightarrow> bool \<times> 'u \<times> 'g" where
  "claim_runtime_ownership_or_close W J G conversation_id token ug =
     (case ug of (u, g) \<Rightarrow>
      (case g_claim_or_refresh G conversation_id token g of
         (Inl _, g1) \<Rightarrow> (False, close_for_ownership_guard_unavailable W J conversation_id u, g1)
       | (Inr owned, g1) \<Rightarrow>
           if owned then (True, u, g1)
           else (False, close_for_active_sender_conflict W J conversation_id u, g1)))"

section \<open>The message loop\<close>

datatype loop_phase = Receiving | Responding OrchestratorResult | Finished "exn option"

record ('u, 'o, 'g) session =
  sock :: 'u
  orch :: 'o
  own :: 'g
  phase :: loop_phase
  refreshing :: bool

text \<open>The orchestrator, given the timestamp of its answer.\<close>

type_synonym 'o orchestrator = "string \<Rightarrow> json \<Rightarrow> string \<Rightarrow> ('o, OrchestratorResult) io"

text \<open>The conversation id in the body, when the body has one of type \<open>str\<close>.\<close>

definition body_conversation :: "json \<Rightarrow> string option" where
  "body_conversation raw_json =
     (case raw_json of
        JObj d \<Rightarrow> (case dict_get d ''metaData'' of
            JObj m \<Rightarrow> (case dict_get m ''conversationId'' of JStr c \<Rightarrow> Some c | _ \<Rightarrow> None)
          | _ \<Rightarrow> None)
      | _ \<Rightarrow> None)"

text \<open>
  Receive one frame, decode it, check its conversation and hand it to the orchestrator. Only a
  \<open>ValueError\<close> (of which orjson's decode error is one) of the decoder is answered; other exceptions
  end the loop.
\<close>

definition reject_frame ::
  "'u ws_ops \<Rightarrow> orjson \<Rightarrow> string \<Rightarrow> ProtocolErrorScenario \<Rightarrow> string option \<Rightarrow> ('u, 'o, 'g) session \<Rightarrow> ('u, 'o, 'g) session" where
  "reject_frame W J conversation_id scenario details st =
     (case require_ws_close_code scenario of
        Inl e \<Rightarrow> st\<lparr>phase := Finished (Some e)\<rparr>
      | Inr _ \<Rightarrow>
          (case build_response scenario (ws_now W (sock st)) conversation_id details of
             Inl e \<Rightarrow> st\<lparr>phase := Finished (Some e)\<rparr>
           | Inr _ \<Rightarrow> st\<lparr>sock := send_error_and_close W J conversation_id scenario details (sock st),
               phase := Finished None\<rparr>))"

definition dispatch_frame ::
  "'u ws_ops \<Rightarrow> orjson \<Rightarrow> 'o orchestrator \<Rightarrow> string \<Rightarrow> json \<Rightarrow> ('u, 'o, 'g) session \<Rightarrow> ('u, 'o, 'g) session" where
  "dispatch_frame W J handle conversation_id raw_json st =
     (case handle (ws_now W (sock st)) raw_json conversation_id (orch st) of
        (Inl e, w) \<Rightarrow> st\<lparr>orch := w, phase := Finished (Some e)\<rparr>
      | (Inr result, w) \<Rightarrow> st\<lparr>orch := w, phase := Responding result\<rparr>)"

definition receive_step ::
  "'u ws_ops \<Rightarrow> orjson \<Rightarrow> 'o orchestrator \<Rightarrow> string \<Rightarrow> ('u, 'o, 'g) session \<Rightarrow> ('u, 'o, 'g) session" where
  "receive_step W J handle conversation_id st0 =
     (case ws_receive_text W (sock st0) of
        (Inl e, u) \<Rightarrow> st0\<lparr>sock := u, phase := Finished (Some e)\<rparr>
      | (Inr raw_text, u) \<Rightarrow>
          (let st = st0\<lparr>sock := u\<rparr> in
           case loads J raw_text of
             Inl (ValueError m) \<Rightarrow>
               reject_frame W J conversation_id INVALID_JSON (Some (take MAX_ERROR_DETAILS_LEN m)) st
           | Inl e \<Rightarrow> st\<lparr>phase := Finished (Some e)\<rparr>
           | Inr raw_json \<Rightarrow>
               (case body_conversation raw_json of
                  Some body_cid \<Rightarrow>
                    (if body_cid \<noteq> conversation_id
                     then (case format_details CONVERSATION_ID_MISMATCH
                              [(''expected_conversation_id'', FStr conversation_id)] of
                         Inl e \<Rightarrow> st\<lparr>phase := Finished (Some e)\<rparr>
                       | Inr details \<Rightarrow> reject_frame W J conversation_id CONVERSATION_ID_MISMATCH details st)
                     else dispatch_frame W J handle conversation_id raw_json st)
                | None \<Rightarrow> dispatch_frame W J handle conversation_id raw_json st)))"

text \<open>\<open>resp["payload"]["serverProcessingMs"] = ..\<close>, in acknowledgements.\<close>

definition with_processing_ms :: "rat \<Rightarrow> dict \<Rightarrow> dict" where
  "with_processing_ms ms resp =
     (if meta_event_type resp \<in> {JStr ''TRANSCRIPT_ACK'', JStr ''EOL_ACK''}
      then (case dict_get resp ''payload'' of
          JObj p \<Rightarrow> dict_set resp ''payload'' (JObj (dict_set p ''serverProcessingMs'' (JFloat ms)))
        | _ \<Rightarrow> resp)
      else resp)"

text \<open>Answer the frame; close the connection when the orchestrator says so.\<close>

definition respond_step ::
  "'u ws_ops \<Rightarrow> orjson \<Rightarrow> OrchestratorResult \<Rightarrow> ('u, 'o, 'g) session \<Rightarrow> ('u, 'o, 'g) session" where
  "respond_step W J result st =
     (let resp = with_processing_ms (ws_elapsed_ms W (sock st)) (response result);
          sent = (if ws_connected W (sock st)
             then (case dumps J (JObj resp) of
                 Inl e \<Rightarrow> (Inl e, sock st)
               | Inr body \<Rightarrow> ws_send_text W body (sock st))
             else (Inr (), sock st))
      in case sent of
           (Inl e, u) \<Rightarrow> st\<lparr>sock := u, phase := Finished (Some e)\<rparr>
         | (Inr _, u) \<Rightarrow>
             (if \<not> disconnect result then st\<lparr>sock := u, phase := Receiving\<rparr>
              else if ws_connected W u
              then (case ws_close W (close_code result) u of
                  (Inl e, u1) \<Rightarrow> st\<lparr>sock := u1, phase := Finished (Some e)\<rparr>
                | (Inr _, u1) \<Rightarrow> st\<lparr>sock := u1, phase := Finished None\<rparr>)
              else st\<lparr>sock := u, phase := Finished None\<rparr>))"

definition loop_step ::
  "'u ws_ops \<Rightarrow> orjson \<Rightarrow> 'o orchestrator \<Rightarrow> string \<Rightarrow> ('u, 'o, 'g) session \<Rightarrow> ('u, 'o, 'g) session" where
  "loop_step W J handle conversation_id st =
     (case phase st of
        Receiving \<Rightarrow> receive_step W J handle conversation_id st
      | Responding result \<Rightarrow> respond_step W J result st
      | Finished _ \<Rightarrow> st)"

section \<open>The refresh loop\<close>

definition refresh_step ::
  "'u ws_ops \<Rightarrow> orjson \<Rightarrow> 'g guard_ops \<Rightarrow> string \<Rightarrow> string \<Rightarrow> ('u, 'o, 'g) session \<Rightarrow> ('u, 'o, 'g) session" where
  "refresh_step W J G conversation_id token st =
     (if \<not> refreshing st then st
      else (case g_claim_or_refresh G conversation_id token (own st) of
          (Inl _, g) \<Rightarrow> st\<lparr>own := g, sock := close_for_ownership_guard_unavailable W J conversation_id (sock st), refreshing := False\<rparr>
        | (Inr owned, g) \<Rightarrow>
            if owned then st\<lparr>own := g\<rparr>
            else st\<lparr>own := g, sock := close_for_active_sender_conflict W J conversation_id (sock st), refreshing := False\<rparr>))"

text \<open>The interval between refreshes, in seconds.\<close>

definition refresh_interval :: "rat \<Rightarrow> rat" where
  "refresh_interval refresh_interval_sec = max (1 / 10) refresh_interval_sec"

section \<open>The endpoint\<close>

datatype session_event = LoopStep | RefreshStep

fun session_step ::
  "'u ws_ops \<Rightarrow> orjson \<Rightarrow> 'o orchestrator \<Rightarrow> 'g guard_ops option \<Rightarrow> string \<Rightarrow> string \<Rightarrow> session_event
    \<Rightarrow> ('u, 'o, 'g) session \<Rightarrow> ('u, 'o, 'g) session" where
  "session_step W J handle guard cid token LoopStep st = loop_step W J handle cid st"
| "session_step W J handle guard cid token RefreshStep st =
     (case (guard, phase st) of
        (None, _) \<Rightarrow> st
      | (_, Finished _) \<Rightarrow> st
      | (Some G, _) \<Rightarrow> refresh_step W J G cid token st)"

definition run_session ::
  "'u ws_ops \<Rightarrow> orjson \<Rightarrow> 'o orchestrator \<Rightarrow> 'g guard_ops option \<Rightarrow> string \<Rightarrow> string \<Rightarrow> session_event list
    \<Rightarrow> ('u, 'o, 'g) session \<Rightarrow> ('u, 'o, 'g) session" where
  "run_session W J handle guard cid token sched st = fold (session_step W J handle guard cid token) sched st"

text \<open>
  \<open>ws_endpoint\<close>. \<open>sched\<close> drives the two tasks; \<open>others\<close> is what other connections do to the registry in the
  meantime. The result says whether the endpoint has returned, and the worlds and the registry.
\<close>

definition ws_endpoint ::
  "'u ws_ops \<Rightarrow> orjson \<Rightarrow> 'o orchestrator \<Rightarrow> 'g guard_ops option \<Rightarrow> string \<Rightarrow> string option \<Rightarrow> string \<Rightarrow> bool \<Rightarrow> nat
    \<Rightarrow> session_event list \<Rightarrow> (registry \<Rightarrow> registry) \<Rightarrow> 'u \<Rightarrow> 'o \<Rightarrow> 'g \<Rightarrow> registry \<Rightarrow> bool \<times> 'u \<times> 'o \<times> 'g \<times> registry" where
  "ws_endpoint W J handle guard cid scope_token new_token scope_acquired ws sched others u w g reg =
     (let token = (case scope_token of Some t \<Rightarrow> t | None \<Rightarrow> new_token) in
      case ws_accept W u of
        (Inl _, u1) \<Rightarrow> (True, u1, w, release_ownership_guard guard cid token scope_acquired g, reg)
      | (Inr _, u1) \<Rightarrow>
          (let (acquired, denied, u2, g2) =
             (case guard of
                None \<Rightarrow> (scope_acquired, False, u1, g)
              | Some G \<Rightarrow>
                  if scope_acquired then (True, False, u1, g)
                  else (case claim_runtime_ownership_or_close W J G cid token (u1, g) of
                      (owned, u', g') \<Rightarrow> (owned, \<not> owned, u', g')))
           in if denied then (True, u2, w, g2, reg)
              else
                (let reg1 = others (registry_add cid ws reg);
                     st = run_session W J handle guard cid token sched
                       \<lparr>sock = u2, orch = w, own = g2, phase = Receiving, refreshing = (guard \<noteq> None \<and> acquired)\<rparr>
                 in case phase st of
                      Finished r \<Rightarrow>
                        (let u3 = (case r of
                              None \<Rightarrow> sock st
                            | Some (WebSocketDisconnect _) \<Rightarrow> sock st
                            | Some _ \<Rightarrow> send_error_and_close W J cid TRANSPORT_INTERNAL_EXCEPTION None (sock st))
                         in (True, u3, orch st, release_ownership_guard guard cid token acquired (own st),
                             registry_remove cid (Some ws) reg1))
                    | _ \<Rightarrow> (False, sock st, orch st, own st, reg1))))"

section \<open>One answer per frame\<close>

text \<open>A connection that counts the frames received and sent, around any other.\<close>

record 'u counted =
  inner :: 'u
  frames_in :: nat
  frames_out :: nat

definition count_io :: "('u counted \<Rightarrow> 'u counted) \<Rightarrow> ('u, 'a) io \<Rightarrow> ('u counted, 'a) io" where
  "count_io f m c = (case m (inner c) of
     (Inl e, u) \<Rightarrow> (Inl e, c\<lparr>inner := u\<rparr>) | (Inr x, u) \<Rightarrow> (Inr x, f (c\<lparr>inner := u\<rparr>)))"

definition counting :: "'u ws_ops \<Rightarrow> 'u counted ws_ops" where
  "counting W = \<lparr>ws_accept = count_io id (ws_accept W),
     ws_receive_text = count_io (\<lambda>c. c\<lparr>frames_in := frames_in c + 1\<rparr>) (ws_receive_text W),
     ws_send_text = (\<lambda>t. count_io (\<lambda>c. c\<lparr>frames_out := frames_out c + 1\<rparr>) (ws_send_text W t)),
     ws_close = (\<lambda>code. count_io id (ws_close W code)),
     ws_connected = (\<lambda>c. ws_connected W (inner c)), ws_now = (\<lambda>c. ws_now W (inner c)),
     ws_elapsed_ms = (\<lambda>c. ws_elapsed_ms W (inner c))\<rparr>"

lemma counting_send:
  "ws_send_text (counting W) t c = (r, c') \<Longrightarrow> frames_in c' = frames_in c \<and>
     (if is_error r then frames_out c' = frames_out c else frames_out c' = frames_out c + 1)"
  by (auto simp: counting_def count_io_def split: prod.splits sum.splits)

lemma counting_receive:
  "ws_receive_text (counting W) c = (r, c') \<Longrightarrow> frames_out c' = frames_out c \<and>
     (if is_error r then frames_in c' = frames_in c else frames_in c' = frames_in c + 1)"
  by (auto simp: counting_def count_io_def split: prod.splits sum.splits)

lemma counting_close:
  "ws_close (counting W) code c = (r, c') \<Longrightarrow> frames_out c' = frames_out c \<and> frames_in c' = frames_in c"
  by (auto simp: counting_def count_io_def split: prod.splits sum.splits)

lemma counting_close_frames [simp]:
  "frames_out (snd (ws_close (counting W) code c)) = frames_out c"
  "frames_in (snd (ws_close (counting W) code c)) = frames_in c"
  using counting_close [of W code c] by (metis prod.collapse)+

lemma error_close_frames:
  "frames_in (send_error_and_close (counting W) J cid sc d c) = frames_in c"
  "frames_out (send_error_and_close (counting W) J cid sc d c) \<le> frames_out c + 1"
  by (auto simp: send_error_and_close_def split: sum.splits prod.splits dest!: counting_send)

text \<open>The invariant: what was sent, plus the answer that is due, is at most what was received.\<close>

definition answers_due :: "loop_phase \<Rightarrow> nat" where
  "answers_due p = (case p of Responding _ \<Rightarrow> 1 | _ \<Rightarrow> 0)"

definition frames_ok :: "('u counted, 'o, 'g) session \<Rightarrow> bool" where
  "frames_ok st \<longleftrightarrow> frames_out (sock st) + answers_due (phase st) \<le> frames_in (sock st) + (if refreshing st then 0 else 1)"

lemma frames_ok_reject:
  assumes "frames_out (sock st) + 1 \<le> frames_in (sock st) + (if refreshing st then 0 else 1)"
  shows "frames_ok (reject_frame (counting W) J cid sc d st)"
  using assms error_close_frames [of W J cid sc d "sock st"]
  by (auto simp: reject_frame_def frames_ok_def answers_due_def split: sum.splits)

lemma frames_ok_dispatch:
  assumes "frames_out (sock st) + 1 \<le> frames_in (sock st) + (if refreshing st then 0 else 1)"
  shows "frames_ok (dispatch_frame (counting W) J handle cid j st)"
  using assms by (auto simp: dispatch_frame_def frames_ok_def answers_due_def split: sum.splits prod.splits)

lemma frames_ok_receive:
  assumes "frames_ok st" "phase st = Receiving"
  shows "frames_ok (receive_step (counting W) J handle cid st)"
proof -
  obtain r u where r: "ws_receive_text (counting W) (sock st) = (r, u)" by fastforce
  note c = counting_receive [OF r]
  show ?thesis
  proof (cases r)
    case (Inl e)
    then show ?thesis using assms c r by (simp add: receive_step_def frames_ok_def answers_due_def)
  next
    case (Inr raw)
    let ?st = "st\<lparr>sock := u\<rparr>"
    have due: "frames_out (sock ?st) + 1 \<le> frames_in (sock ?st) + (if refreshing ?st then 0 else 1)"
      using assms c Inr by (simp add: frames_ok_def answers_due_def)
    have other: "frames_ok (?st\<lparr>phase := Finished (Some e)\<rparr>)" for e
      using due by (simp add: frames_ok_def answers_due_def)
    show ?thesis
      using due other r Inr frames_ok_reject [OF due] frames_ok_dispatch [OF due]
      by (simp add: receive_step_def Let_def split: sum.splits exn.splits option.splits)
  qed
qed

lemma frames_ok_respond:
  assumes ok: "frames_ok st" and p: "phase st = Responding result"
  shows "frames_ok (respond_step (counting W) J result st)"
proof -
  have due: "frames_out (sock st) + 1 \<le> frames_in (sock st) + (if refreshing st then 0 else 1)"
    using ok p by (simp add: frames_ok_def answers_due_def)
  have sent: "frames_in u = frames_in (sock st) \<and> frames_out u \<le> frames_out (sock st) + 1"
    if "ws_send_text (counting W) body (sock st) = (r, u)" for body r u
    using counting_send [OF that] by (simp split: if_splits)
  have closed: "frames_in v = frames_in u \<and> frames_out v = frames_out u"
    if "ws_close (counting W) code u = (r, v)" for code r u v
    using counting_close [OF that] by simp
  show ?thesis
    using due by (auto simp: respond_step_def Let_def frames_ok_def answers_due_def
        split: sum.splits prod.splits dest!: sent closed)
qed

lemma frames_ok_refresh:
  assumes "frames_ok st"
  shows "frames_ok (refresh_step (counting W) J G cid tok st)"
proof -
  have "frames_ok (st\<lparr>own := g, sock := send_error_and_close (counting W) J cid sc d (sock st), refreshing := False\<rparr>)"
    if "refreshing st" for g sc d
    using assms that error_close_frames [of W J cid sc d "sock st"] by (simp add: frames_ok_def)
  then show ?thesis using assms
    by (auto simp: refresh_step_def close_for_ownership_guard_unavailable_def close_for_active_sender_conflict_def
        split: sum.splits prod.splits) (simp add: frames_ok_def)
qed

lemma frames_ok_step: "frames_ok st \<Longrightarrow> frames_ok (session_step (counting W) J handle guard cid tok e st)"
  by (cases e) (auto simp: loop_step_def frames_ok_receive frames_ok_respond frames_ok_refresh
      split: loop_phase.splits option.splits)

lemma frames_ok_run: "frames_ok st \<Longrightarrow> frames_ok (run_session (counting W) J handle guard cid tok sched st)"
  by (induction sched arbitrary: st) (simp_all add: run_session_def frames_ok_step)

section \<open>Ownership during a session\<close>

text \<open>What a session does to the owners of conversations: it never takes one away from another token.\<close>

definition foreign_owners_kept :: "(string \<Rightarrow> 'g \<Rightarrow> string option) \<Rightarrow> string \<Rightarrow> string \<Rightarrow> 'g \<Rightarrow> 'g \<Rightarrow> bool" where
  "foreign_owners_kept owner cid tok g g' \<longleftrightarrow> (\<forall>c. c \<noteq> cid \<longrightarrow> owner c g' = owner c g)
     \<and> (owner cid g \<notin> {None, Some tok} \<longrightarrow> owner cid g' = owner cid g)"

lemma foreign_owners_refl [simp]: "foreign_owners_kept owner cid tok g g"
  by (simp add: foreign_owners_kept_def)

lemma foreign_owners_trans:
  "foreign_owners_kept owner cid tok g g1 \<Longrightarrow> foreign_owners_kept owner cid tok g1 g2 \<Longrightarrow> foreign_owners_kept owner cid tok g g2"
  by (auto simp: foreign_owners_kept_def)

lemma own_receive [simp]: "own (receive_step W J handle cid st) = own st"
  by (simp add: receive_step_def reject_frame_def dispatch_frame_def Let_def
      split: prod.splits sum.splits option.splits exn.splits)

lemma own_respond [simp]: "own (respond_step W J result st) = own st"
  by (simp add: respond_step_def Let_def split: prod.splits sum.splits)

lemma own_loop [simp]: "own (loop_step W J handle cid st) = own st"
  by (simp add: loop_step_def split: loop_phase.splits)

context ownership_backend
begin

lemma claim_keeps:
  "ok g \<Longrightarrow> g_claim_or_refresh G cid tok g = (r, g') \<Longrightarrow> ok g' \<and> foreign_owners_kept owner cid tok g g'"
  using claim_frame [of g cid tok r g'] claim_other [of g cid tok r g'] by (auto simp: foreign_owners_kept_def)

lemma release_keeps:
  "ok g \<Longrightarrow> g_release G cid tok g = (r, g') \<Longrightarrow> ok g' \<and> foreign_owners_kept owner cid tok g g'"
  using release_frame [of g cid tok r g'] release_other [of g cid tok r g'] by (auto simp: foreign_owners_kept_def)

lemma step_keeps:
  assumes "ok (own st)"
  shows "ok (own (session_step W J handle (Some G) cid tok e st))
    \<and> foreign_owners_kept owner cid tok (own st) (own (session_step W J handle (Some G) cid tok e st))"
  using assms claim_keeps [OF assms, of cid tok]
  by (cases e) (auto simp: refresh_step_def split: loop_phase.splits prod.splits sum.splits)

lemma run_keeps:
  "ok (own st) \<Longrightarrow> ok (own (run_session W J handle (Some G) cid tok sched st))
    \<and> foreign_owners_kept owner cid tok (own st) (own (run_session W J handle (Some G) cid tok sched st))"
  unfolding run_session_def
proof (induction sched arbitrary: st)
  case (Cons e sched)
  note st = step_keeps [OF Cons.prems, of W J handle cid tok e]
  from Cons.IH [OF st [THEN conjunct1]] st show ?case by (auto intro: foreign_owners_trans)
qed simp

text \<open>An endpoint that was entered with the ownership ends with its release.\<close>

lemma endpoint_releases:
  assumes ok: "ok g" and run: "ws_endpoint W J handle (Some G) cid (Some tok) new True ws sched others u w g reg =
     (True, u', w', g', reg')"
  shows "\<exists>g1. ok g1 \<and> foreign_owners_kept owner cid tok g g1 \<and> g' = snd (g_release G cid tok g1)"
proof -
  obtain ra u1 where acc: "ws_accept W u = (ra, u1)" by fastforce
  let ?st = "run_session W J handle (Some G) cid tok sched
      \<lparr>sock = u1, orch = w, own = g, phase = Receiving, refreshing = True\<rparr>"
  have kept: "ok (own ?st)" "foreign_owners_kept owner cid tok g (own ?st)"
    using run_keeps [of "\<lparr>sock = u1, orch = w, own = g, phase = Receiving, refreshing = True\<rparr>"] ok by simp_all
  show ?thesis
  proof (cases ra)
    case (Inl e)
    then have "g' = snd (g_release G cid tok g)"
      using run acc by (simp add: ws_endpoint_def release_ownership_guard_def)
    then show ?thesis using ok by (intro exI [of _ g]) simp
  next
    case (Inr x)
    then have "g' = snd (g_release G cid tok (own ?st))"
      using run acc by (simp add: ws_endpoint_def release_ownership_guard_def Let_def split: loop_phase.splits)
    then show ?thesis using kept by blast
  qed
qed

end

section \<open>Isolation of conversations\<close>

lemma body_conversation_valid:
  assumes "pydantic_ok P" and "model_validate P raw = Inr m"
  shows "body_conversation raw = Some (conversationId (metaData m))"
proof (rule model_validate_conversation [OF assms(2)])
  fix d md v
  assume h: "raw = JObj d" "map_of d ''metaData'' = Some (JObj md)" "map_of md ''conversationId'' = Some v"
    "pyd_str P 64 v = Inr (conversationId (metaData m))"
  have "v = JStr (conversationId (metaData m))" using pydantic_str [OF assms(1) h(4)] by simp
  then show ?thesis using h by (simp add: body_conversation_def dict_get_def)
qed

lemma conversation_log_other: "\<forall>d. (c, d) \<notin> set ds \<Longrightarrow> conversation_log c ds = []"
  by (induction ds) (auto simp: neq_Nil_conv split: option.splits)

text \<open>The orchestrator's world, as far as conversation \<open>c\<close> sees it.\<close>

definition conversation_kept ::
  "(string \<Rightarrow> 's \<Rightarrow> int) \<Rightarrow> ('k \<Rightarrow> (string \<times> dict) list) \<Rightarrow> ('k \<Rightarrow> (string \<times> dict) set) \<Rightarrow> string
    \<Rightarrow> 's \<times> 'k \<Rightarrow> 's \<times> 'k \<Rightarrow> bool" where
  "conversation_kept expected delivered pending c w w' \<longleftrightarrow>
     expected c (fst w') = expected c (fst w)
     \<and> conversation_log c (delivered (snd w')) = conversation_log c (delivered (snd w))
     \<and> (\<forall>d. (c, d) \<notin> pending (snd w'))"

context orchestration
begin

lemma handle_other:
  assumes run: "handle_message P S K now at_ts raw cid (s, k) = (r, s', k')"
    and inv: "ok s" "kok k" and small: "\<And>c. expected c s < exact_limit"
    and other: "\<And>m. model_validate P raw = Inr m \<Longrightarrow> conversationId (metaData m) \<noteq> c"
    and none: "\<forall>d. (c, d) \<notin> pending k"
  shows "conversation_kept expected delivered pending c (s, k) (s', k') \<and> ok s' \<and> kok k'
    \<and> (\<forall>c. expected c s' \<le> expected c s + 1)"
  using run inv small
proof (cases rule: handle_effect)
  case quiet
  then show ?thesis using inv none by (simp add: conversation_kept_def)
next
  case (published m n)
  obtain late where late: "set late \<subseteq> pending k"
      "delivered k' = delivered k @ late @ [(conversationId (metaData m), to_kafka_payload P at_ts m raw)]"
    using published(9) by blast
  have "conversation_log c late = []" using late(1) none by (intro conversation_log_other) blast
  moreover have "expected c' s' \<le> expected c' s + 1" for c'
    using published(4,6,7) by (cases "c' = conversationId (metaData m)") auto
  ultimately show ?thesis using published other [OF published(3)] none late(2) by (auto simp: conversation_kept_def)
next
  case (uncertain m n)
  obtain late where late: "set late \<subseteq> insert (conversationId (metaData m), to_kafka_payload P at_ts m raw) (pending k)"
      "delivered k' = delivered k @ late"
    using uncertain(8) by blast
  have "conversation_log c late = []" using late(1) none other [OF uncertain(3)] by (intro conversation_log_other) blast
  then show ?thesis using uncertain other [OF uncertain(3)] none late(2) by (auto simp: conversation_kept_def)
qed

text \<open>A step of the session of \<open>cid\<close> and another conversation \<open>c\<close>.\<close>

lemma session_step_other:
  assumes "ok (fst (orch st))" "kok (snd (orch st))" and small: "\<And>c. expected c (fst (orch st)) < exact_limit"
    and c: "c \<noteq> cid" and none: "\<forall>d. (c, d) \<notin> pending (snd (orch st))"
    and handle: "handle = (\<lambda>now raw cid. handle_message P S K now (ts now) raw cid)"
  shows "let w = orch (session_step W J handle guard cid tok e st) in
    conversation_kept expected delivered pending c (orch st) w \<and> ok (fst w) \<and> kok (snd w)
    \<and> (\<forall>c. expected c (fst w) \<le> expected c (fst (orch st)) + 1)"
proof -
  have refl: "conversation_kept expected delivered pending c (orch st) (orch st)"
    using none by (simp add: conversation_kept_def)
  have dispatch: "let w = orch (dispatch_frame W J handle cid raw st1) in
      conversation_kept expected delivered pending c (orch st) w \<and> ok (fst w) \<and> kok (snd w)
      \<and> (\<forall>c. expected c (fst w) \<le> expected c (fst (orch st)) + 1)"
    if st1: "orch st1 = orch st" and raw: "body_conversation raw \<in> {None, Some cid}" for raw st1
  proof -
    obtain r s' k' where run: "handle_message P S K (ws_now W (sock st1)) (ts (ws_now W (sock st1))) raw cid
        (fst (orch st), snd (orch st)) = (r, s', k')" by (metis prod_cases3)
    have "conversationId (metaData m) \<noteq> c" if "model_validate P raw = Inr m" for m
      using body_conversation_valid [OF pydantic that] raw c by auto
    from handle_other [OF run assms(1,2) small this none] show ?thesis
      using run st1 by (simp add: dispatch_frame_def handle Let_def split: sum.splits)
  qed
  have reject: "orch (reject_frame W J cid sc d st1) = orch st1" for sc d st1
    by (simp add: reject_frame_def split: sum.splits)
  have receive: "let w = orch (receive_step W J handle cid st) in
      conversation_kept expected delivered pending c (orch st) w \<and> ok (fst w) \<and> kok (snd w)
      \<and> (\<forall>c. expected c (fst w) \<le> expected c (fst (orch st)) + 1)"
    using refl assms(1,2)
    by (auto simp: receive_step_def Let_def reject dispatch [unfolded Let_def]
        split: prod.splits sum.splits option.splits exn.splits)
  have respond: "orch (respond_step W J result st) = orch st" for result
    by (simp add: respond_step_def Let_def split: prod.splits sum.splits)
  have refresh: "orch (refresh_step W J G cid tok st) = orch st" for G
    by (simp add: refresh_step_def split: prod.splits sum.splits)
  show ?thesis
    using receive refl assms(1,2)
    by (cases e) (auto simp: loop_step_def Let_def respond refresh split: loop_phase.splits option.splits)
qed

lemma session_other:
  assumes "ok (fst (orch st))" "kok (snd (orch st))" and "\<And>c. expected c (fst (orch st)) + int (length sched) < exact_limit"
    and c: "c \<noteq> cid" and none: "\<forall>d. (c, d) \<notin> pending (snd (orch st))"
    and handle: "handle = (\<lambda>now raw cid. handle_message P S K now (ts now) raw cid)"
  shows "conversation_kept expected delivered pending c (orch st) (orch (run_session W J handle guard cid tok sched st))"
  using assms(1-3,5) unfolding run_session_def
proof (induction sched arbitrary: st)
  case Nil
  then show ?case by (simp add: conversation_kept_def)
next
  case (Cons e sched)
  let ?st = "session_step W J handle guard cid tok e st"
  have "expected c (fst (orch st)) < exact_limit" for c using Cons.prems(3) [of c] by simp
  from session_step_other [OF Cons.prems(1,2) this c Cons.prems(4) handle, of W J guard tok e]
  have step: "conversation_kept expected delivered pending c (orch st) (orch ?st)" "ok (fst (orch ?st))" "kok (snd (orch ?st))"
    "\<And>c. expected c (fst (orch ?st)) \<le> expected c (fst (orch st)) + 1" by (simp_all add: Let_def)
  have "expected c (fst (orch ?st)) + int (length sched) < exact_limit" for c
    using step(4) [of c] Cons.prems(3) [of c] by simp
  from Cons.IH [OF step(2,3) this] step(1) show ?case by (simp add: conversation_kept_def)
qed

end

section \<open>A concrete connection\<close>

text \<open>A client that sends a script of frames and then disconnects.\<close>

record scripted_client =
  to_send :: "string list"
  got :: "string list"
  closed_with :: "int option"

definition scripted_ws :: "scripted_client ws_ops" where
  "scripted_ws = \<lparr>ws_accept = (\<lambda>u. (Inr (), u)),
     ws_receive_text = (\<lambda>u. case to_send u of
         [] \<Rightarrow> (Inl (WebSocketDisconnect ''1000''), u)
       | t # ts \<Rightarrow> if closed_with u = None then (Inr t, u\<lparr>to_send := ts\<rparr>)
           else (Inl (RuntimeError ''WebSocket is not connected''), u)),
     ws_send_text = (\<lambda>t u. (Inr (), u\<lparr>got := got u @ [t]\<rparr>)),
     ws_close = (\<lambda>code u. (Inr (), u\<lparr>closed_with := Some code\<rparr>)),
     ws_connected = (\<lambda>u. closed_with u = None), ws_now = (\<lambda>u. ''now''), ws_elapsed_ms = (\<lambda>u. 1)\<rparr>"

definition client_of :: "json list \<Rightarrow> scripted_client" where
  "client_of js = \<lparr>to_send = map (\<lambda>j. str_of_nat (to_nat j)) js, got = [], closed_with = None\<rparr>"

lemma loads_numbered [simp]: "loads numbering_orjson (str_of_nat (to_nat j)) = Inr j"
  by (simp add: numbering_orjson_def)

section \<open>Properties\<close>

text \<open>
  C19. A session concerns its own conversation only: whatever frames the client of conversation \<open>cid\<close> sends,
  in any interleaving with the refreshes, the counter of another conversation and what the topic holds
  of it stay as they were.
\<close>

theorem session_isolation:
  assumes dep: "deployment R C db sha up loaded A J records inflight P"
    and ok: "sm_ok R db sha (fst (orch st))"
    and small: "\<And>c. sm_expected R db c (fst (orch st)) + int (length sched) < exact_limit"
    and c: "c \<noteq> cid" and none: "\<forall>d. (c, d) \<notin> producer_pending J inflight (snd (orch st))"
    and handle: "handle = (\<lambda>now raw cid. handle_message P (redis_sequence C) (kafka_backend A J) now (ts now) raw cid)"
    and run: "st' = run_session W J handle guard cid tok sched st"
  shows "sm_expected R db c (fst (orch st')) = sm_expected R db c (fst (orch st))
    \<and> conversation_log c (producer_delivered J records (snd (orch st'))) = conversation_log c (producer_delivered J records (snd (orch st)))"
  using orchestration.session_other [OF deployment_orchestrates [OF dep] ok TrueI small c none handle, of W J guard tok]
  by (simp add: run conversation_kept_def)

definition sample_session :: "(scripted_client, (seq_sm \<times> redis_server) \<times> (kafka_producer \<times> kafka_server), unit) session" where
  "sample_session = \<lparr>sock = client_of [sample_ongoing ''c1'' 0, sample_ongoing ''c2'' 0], orch = (start_sm, start_kafka []),
     own = (), phase = Receiving, refreshing = False\<rparr>"

theorem session_isolation_witness:
  "sm_expected clock_redis_ops rs_db ''c2'' (fst (orch (run_session scripted_ws numbering_orjson
       (\<lambda>now raw cid. handle_message strict_pydantic (redis_sequence server_client) (kafka_backend server_kafka numbering_orjson)
          now now raw cid) None ''c1'' ''tok'' [LoopStep, LoopStep, LoopStep, LoopStep] sample_session))) = 0"
proof -
  have o: "orch sample_session = (start_sm, start_kafka [])" by (simp add: sample_session_def)
  have ok: "sm_ok clock_redis_ops rs_db script_sha start_sm" and e: "sm_expected clock_redis_ops rs_db c start_sm = 0" for c
    by (simp_all add: start_sm_def sample_sm_ok sample_sm_expected)
  have none: "\<forall>d. (''c2'', d) \<notin> producer_pending numbering_orjson (\<lambda>k. set (ks_inflight k)) (start_kafka [])"
    using concrete_fresh [of "[]"] by (simp add: fresh_start_def)
  show ?thesis
    using session_isolation [where ts = "\<lambda>now. now" and c = "''c2''" and st = sample_session and cid = "''c1''" and W = scripted_ws
        and guard = None and tok = "''tok''" and sched = "[LoopStep, LoopStep, LoopStep, LoopStep]",
        OF concrete.deployment_axioms _ _ _ _ refl refl] ok e none
    by (simp add: exact_limit_def o)
qed

text \<open>
  At most one answer per frame: in every run of a session the number of frames sent never exceeds
  the number received by more than the one error frame of a lost ownership, and does not exceed it
  at all, the answer in preparation counted, while the refresh loop is alive.
\<close>

theorem session_answers_once:
  "let st = run_session (counting W) J handle guard cid tok sched
      \<lparr>sock = \<lparr>inner = u, frames_in = 0, frames_out = 0\<rparr>, orch = w, own = g, phase = Receiving, refreshing = True\<rparr>
   in frames_out (sock st) + answers_due (phase st) \<le> frames_in (sock st) + (if refreshing st then 0 else 1)"
proof -
  let ?st = "\<lparr>sock = \<lparr>inner = u, frames_in = 0, frames_out = 0\<rparr>, orch = w, own = g, phase = Receiving, refreshing = True\<rparr>"
  have "frames_ok ?st" by (simp add: frames_ok_def answers_due_def)
  from frames_ok_run [OF this, of W J handle guard cid tok sched] show ?thesis by (simp add: frames_ok_def Let_def)
qed

text \<open>
  What is refused before the orchestrator, with the scenario, the details and the close code of the
  refusal; and the refusal itself, on a connection that is up.
\<close>

definition frame_refusal :: "orjson \<Rightarrow> string \<Rightarrow> string \<Rightarrow> (ProtocolErrorScenario \<times> string \<times> int) option" where
  "frame_refusal J cid raw_text =
     (case loads J raw_text of
        Inl (ValueError e) \<Rightarrow> Some (INVALID_JSON, take MAX_ERROR_DETAILS_LEN e, 1007)
      | Inl _ \<Rightarrow> None
      | Inr raw_json \<Rightarrow>
          (case body_conversation raw_json of
             None \<Rightarrow> None
           | Some c \<Rightarrow> if c = cid then None
               else Some (CONVERSATION_ID_MISMATCH,
                 ''metaData.conversationId must match query parameter 'conversationId' ('' @ py_repr cid @ '')'', 1008)))"

definition refusal_sent ::
  "'u ws_ops \<Rightarrow> orjson \<Rightarrow> string \<Rightarrow> ProtocolErrorScenario \<Rightarrow> string \<Rightarrow> int \<Rightarrow> 'u \<Rightarrow> 'u" where
  "refusal_sent W J cid sc details code u =
     (case dumps J (JObj (error_frame sc (ws_now W u) cid (Some details))) of
        Inl _ \<Rightarrow> u
      | Inr body \<Rightarrow>
          (case ws_send_text W body u of
             (Inl _, u1) \<Rightarrow> u1
           | (Inr _, u1) \<Rightarrow> snd (ws_close W code u1)))"

lemma reject_frame_refusal:
  assumes "ws_connected W (sock st)"
  shows "reject_frame W J cid INVALID_JSON (Some d) st =
      st\<lparr>sock := refusal_sent W J cid INVALID_JSON d 1007 (sock st), phase := Finished None\<rparr>"
    and "reject_frame W J cid CONVERSATION_ID_MISMATCH (Some d) st =
      st\<lparr>sock := refusal_sent W J cid CONVERSATION_ID_MISMATCH d 1008 (sock st), phase := Finished None\<rparr>"
  using assms
  by (simp_all add: reject_frame_def require_ws_close_code_def scenario_error_code_def close_code_for_error_def
      build_response_frame send_error_and_close_def refusal_sent_def split: sum.splits prod.splits)

text \<open>
  C25. A frame that is not JSON, or that names another conversation than the connection's, never reaches
  the orchestrator: it is answered once, with E1001 and close code 1007, respectively E1009 and 1008, and
  the loop ends. Every other decoded frame is handed to the orchestrator exactly as it was received.
\<close>

theorem refused_frame_not_handled:
  assumes got: "ws_receive_text W (sock st) = (Inr raw_text, u)" and up: "ws_connected W u"
  shows "(case frame_refusal J cid raw_text of
      Some (sc, d, code) \<Rightarrow>
        receive_step W J handle cid st = st\<lparr>sock := refusal_sent W J cid sc d code u, phase := Finished None\<rparr>
        \<and> (sc = INVALID_JSON \<and> scenario_error_code sc = E1001 \<or> sc = CONVERSATION_ID_MISMATCH \<and> scenario_error_code sc = E1009)
    | None \<Rightarrow>
        (case loads J raw_text of
           Inl e \<Rightarrow> receive_step W J handle cid st = st\<lparr>sock := u, phase := Finished (Some e)\<rparr>
         | Inr raw_json \<Rightarrow>
             orch (receive_step W J handle cid st) = snd (handle (ws_now W u) raw_json cid (orch st))
             \<and> sock (receive_step W J handle cid st) = u))"
proof (cases "loads J raw_text")
  case (Inl e)
  then show ?thesis using got up
    by (cases e) (simp_all add: frame_refusal_def receive_step_def reject_frame_refusal scenario_error_code_def)
next
  case (Inr raw_json)
  have dispatched: "orch (dispatch_frame W J handle cid raw_json (st\<lparr>sock := u\<rparr>)) = snd (handle (ws_now W u) raw_json cid (orch st))
      \<and> sock (dispatch_frame W J handle cid raw_json (st\<lparr>sock := u\<rparr>)) = u"
    by (simp add: dispatch_frame_def split: sum.splits prod.splits)
  show ?thesis
  proof (cases "body_conversation raw_json")
    case None
    then show ?thesis using got Inr dispatched by (simp add: frame_refusal_def receive_step_def)
  next
    case (Some c)
    then show ?thesis using got up Inr dispatched
      by (simp add: frame_refusal_def receive_step_def reject_frame_refusal format_details_mismatch scenario_error_code_def)
  qed
qed

theorem refused_frame_not_handled_witness:
  "orch (receive_step scripted_ws numbering_orjson (\<lambda>now raw cid w. (Inl (OtherError ''handled''), w + (1 :: nat))) ''c2''
     \<lparr>sock = client_of [sample_ongoing ''c1'' 0], orch = 0, own = (), phase = Receiving, refreshing = False\<rparr>) = 0"
proof -
  let ?st = "\<lparr>sock = client_of [sample_ongoing ''c1'' 0], orch = 0 :: nat, own = (), phase = Receiving, refreshing = False\<rparr>"
  have "body_conversation (sample_ongoing ''c1'' 0) = Some ''c1''"
    using body_conversation_valid [OF strict_pydantic_ok sample_ongoing_valid [of "''c1''" 0]] by (simp add: ongoing_message_def)
  then show ?thesis
    using refused_frame_not_handled [where W = scripted_ws and st = ?st
        and raw_text = "str_of_nat (to_nat (sample_ongoing ''c1'' 0))"
        and u = "(client_of [sample_ongoing ''c1'' 0])\<lparr>to_send := []\<rparr>" and J = numbering_orjson and cid = "''c2''"
        and handle = "\<lambda>now raw cid w. (Inl (OtherError ''handled''), w + (1 :: nat))"]
    by (simp add: scripted_ws_def client_of_def frame_refusal_def)
qed

text \<open>
  C24. A connection that was admitted with the ownership of its conversation ends by releasing it, with
  its own token, and leaves the registry. In between it never takes a conversation from another owner;
  and when the release succeeds, the conversation is no longer owned by the connection's token.
\<close>

theorem endpoint_gives_up_ownership:
  assumes redis: "redis_backend R C db sha up loaded" and ok: "guard_ok sha g"
    and run: "ws_endpoint W J handle (Some (redis_guard C)) cid (Some tok) new True ws sched others u w g reg =
      (True, u', w', g', reg')"
    and fresh: "ws \<notin> set (sockets reg cid)"
  shows "ws \<notin> set (sockets reg' cid) \<and> foreign_owners_kept (guard_owner R db) cid tok g g'
    \<and> (\<exists>g1. g' = snd (release C cid tok g1)
        \<and> (fst (release C cid tok g1) = Inr () \<longrightarrow> guard_owner R db cid g' \<noteq> Some tok))"
proof -
  have c: "ownership_backend (redis_guard C) (guard_ok sha) (guard_owner R db)"
    using redis by (rule redis_backend.guard_contract)
  obtain g1 where g1: "guard_ok sha g1" "foreign_owners_kept (guard_owner R db) cid tok g g1"
      "g' = snd (g_release (redis_guard C) cid tok g1)"
    using ownership_backend.endpoint_releases [OF c ok run] by blast
  obtain r where r: "g_release (redis_guard C) cid tok g1 = (r, g')" using g1(3) by (metis prod.collapse)
  note kept = ownership_backend.release_keeps [OF c g1(1) r]
  have rel: "release C cid tok g1 = (r, g')" using r by (simp add: redis_guard_def)
  have left: "guard_owner R db cid g' \<noteq> Some tok" if "r = Inr ()"
    using ownership_backend.release_freed [OF c g1(1)] r that by blast
  have gone: "ws \<notin> set (sockets (registry_remove cid (Some ws) r1) cid)" for r1
    by (rule sockets_removed)
  have "ws \<notin> set (sockets reg' cid)"
    using run fresh gone by (auto simp: ws_endpoint_def Let_def split: prod.splits sum.splits loop_phase.splits)
  moreover have "foreign_owners_kept (guard_owner R db) cid tok g g'"
    using g1(2) kept by (blast intro: foreign_owners_trans)
  ultimately show ?thesis using rel left by (intro conjI exI [of _ g1]) auto
qed

definition sample_end ::
  "bool \<times> scripted_client \<times> unit \<times> (ownership_guard \<times> redis_server) \<times> registry" where
  "sample_end = ws_endpoint scripted_ws numbering_orjson (\<lambda>now raw cid w. (Inl (OtherError ''down''), w))
      (Some (redis_guard server_client)) ''c1'' (Some ''a'') ''b'' True 7 [LoopStep] id (client_of []) () (sample_guard, redis_owned)
      empty_registry"

lemma sample_end_returns: "fst sample_end"
  by (simp add: sample_end_def ws_endpoint_def scripted_ws_def client_of_def run_session_def loop_step_def receive_step_def)

theorem endpoint_gives_up_ownership_witness:
  "7 \<notin> set (sockets (snd (snd (snd (snd sample_end)))) ''c1'')
    \<and> foreign_owners_kept (guard_owner clock_redis_ops rs_db) ''c1'' ''a'' (sample_guard, redis_owned) (fst (snd (snd (snd sample_end))))"
proof -
  obtain u' w' g' reg' where e: "sample_end = (True, u', w', g', reg')"
    using sample_end_returns by (metis (full_types) prod.collapse)
  have fresh: "7 \<notin> set (sockets empty_registry ''c1'')" by (simp add: sockets_empty)
  show ?thesis
    using endpoint_gives_up_ownership [OF server.redis_backend_axioms sample_guard_ok e [unfolded sample_end_def] fresh]
    by (simp add: e)
qed

end
