(* ===== verification/Composition.thy ===== *)
theory Composition
  imports Shared_Redis Session
begin

text \<open>
  The service as a whole: connections of any number of instances, from the handshake's claim (\<open>transport/app.py\<close>) over the
  endpoint, its message loop and its refresh loop (\<open>transport/session.py\<close>) to the release of the conversation, each message
  handled by the coroutine of \<open>orchestrator/two_phase.py\<close>, all over one Redis that holds the counters and the owners, and
  one topic. Every step is one task between two of its awaits, and the tasks of all instances interleave. The
  steps are the definitions of \<open>Session\<close>, \<open>Handler_Steps\<close>, \<open>Registry\<close>, \<open>Ownership\<close>, \<open>Sequence\<close> and \<open>Producer\<close>.
\<close>

section \<open>State\<close>

text \<open>
  Where a connection is: its handshake is about to claim; it has claimed and is about to be accepted; its endpoint runs;
  its endpoint has left the registry and is about to release; it is over.
\<close>

datatype stage = Claiming | Opening | Open | Leaving | Closed

text \<open>\<open>cn_handling\<close> is the coroutine that handles the connection's message, while the message loop awaits it.\<close>

record 'u connection =
  cn_instance :: nat
  cn_conversation :: string
  cn_token :: string
  cn_stage :: stage
  cn_sock :: 'u
  cn_phase :: loop_phase
  cn_refreshing :: bool
  cn_handling :: "(request \<times> phase) option"

text \<open>The objects of every instance, the two stores, and all connections, in the order of their arrival.\<close>

record ('u, 'w, 'k) world =
  w_sequence :: "nat \<Rightarrow> seq_sm"
  w_guards :: "nat \<Rightarrow> ownership_guard"
  w_producers :: "nat \<Rightarrow> kafka_producer"
  w_registries :: "nat \<Rightarrow> registry"
  w_redis :: 'w
  w_kafka :: 'k
  w_connections :: "'u connection list"

abbreviation "seq_world w \<equiv> (w_sequence w, w_redis w)"
abbreviation "guard_world w \<equiv> (w_guards w, w_redis w)"
abbreviation "kafka_world w \<equiv> (w_producers w, w_kafka w)"

definition set_connection :: "nat \<Rightarrow> 'u connection \<Rightarrow> ('u, 'w, 'k) world \<Rightarrow> ('u, 'w, 'k) world" where
  "set_connection j c w = w\<lparr>w_connections := (w_connections w)[j := c]\<rparr>"

definition set_guards :: "(nat \<Rightarrow> ownership_guard) \<times> 'w \<Rightarrow> ('u, 'w, 'k) world \<Rightarrow> ('u, 'w, 'k) world" where
  "set_guards g w = w\<lparr>w_guards := fst g, w_redis := snd g\<rparr>"

lemma connection_same [simp]:
  "cn_handling c = h \<Longrightarrow> c\<lparr>cn_handling := h\<rparr> = c" "cn_phase c = ph \<Longrightarrow> c\<lparr>cn_phase := ph\<rparr> = c"
  by auto

lemma set_connection_simps [simp]:
  "w_sequence (set_connection j c w) = w_sequence w" "w_redis (set_connection j c w) = w_redis w"
  "w_guards (set_connection j c w) = w_guards w" "w_producers (set_connection j c w) = w_producers w"
  "w_kafka (set_connection j c w) = w_kafka w" "w_registries (set_connection j c w) = w_registries w"
  "w_connections (set_connection j c w) = (w_connections w)[j := c]"
  by (simp_all add: set_connection_def)

lemma set_guards_simps [simp]:
  "w_sequence (set_guards g w) = w_sequence w" "w_redis (set_guards g w) = snd g"
  "w_guards (set_guards g w) = fst g" "w_producers (set_guards g w) = w_producers w"
  "w_kafka (set_guards g w) = w_kafka w" "w_registries (set_guards g w) = w_registries w"
  "w_connections (set_guards g w) = w_connections w"
  by (simp_all add: set_guards_def)

text \<open>The connection as a session of \<open>Session\<close>, and back.\<close>

definition cn_session :: "'u connection \<Rightarrow> 'o \<Rightarrow> 'g \<Rightarrow> ('u, 'o, 'g) session" where
  "cn_session c w g = \<lparr>sock = cn_sock c, orch = w, own = g, phase = cn_phase c, refreshing = cn_refreshing c\<rparr>"

definition take_session :: "('u, 'o, 'g) session \<Rightarrow> 'u connection \<Rightarrow> 'u connection" where
  "take_session st c = c\<lparr>cn_sock := sock st, cn_phase := phase st, cn_refreshing := refreshing st\<rparr>"

section \<open>Steps\<close>

text \<open>
  The orchestrator as the message loop calls it: nothing is handled yet, the call is only noted. The coroutine then
  takes its own steps.
\<close>

definition deferred :: "(string \<times> json \<times> string) option orchestrator" where
  "deferred now raw cid w = (Inl (OtherError ''deferred''), Some (now, raw, cid))"

text \<open>\<open>_WsGuardMiddleware\<close>, from its claim on: a connection whose claim is not granted is refused.\<close>

definition claim_step :: "'w redis_client \<Rightarrow> nat \<Rightarrow> ('u, 'w, 'k) world \<Rightarrow> ('u, 'w, 'k) world" where
  "claim_step C j w =
     (let c = w_connections w ! j in
      if cn_stage c \<noteq> Claiming then w
      else (case g_claim_or_refresh (fleet_guard C (cn_instance c)) (cn_conversation c) (cn_token c) (guard_world w) of
          (r, g) \<Rightarrow> set_connection j (c\<lparr>cn_stage := (if r = Inr True then Opening else Closed)\<rparr>) (set_guards g w)))"

text \<open>
  The endpoint, up to the start of its two loops. The handshake has claimed, so the endpoint's own claim, of connections that
  come past the handshake, is not made here; \<open>Session\<close> has it.
\<close>

definition open_step :: "'u ws_ops \<Rightarrow> 'w redis_client \<Rightarrow> nat \<Rightarrow> ('u, 'w, 'k) world \<Rightarrow> ('u, 'w, 'k) world" where
  "open_step W C j w =
     (let c = w_connections w ! j; i = cn_instance c in
      if cn_stage c \<noteq> Opening then w
      else (case ws_accept W (cn_sock c) of
          (Inl _, u) \<Rightarrow> set_connection j (c\<lparr>cn_sock := u, cn_stage := Closed\<rparr>)
              (set_guards (release_ownership_guard (Some (fleet_guard C i)) (cn_conversation c) (cn_token c) True (guard_world w)) w)
        | (Inr _, u) \<Rightarrow> set_connection j (c\<lparr>cn_sock := u, cn_stage := Open, cn_phase := Receiving, cn_refreshing := True\<rparr>)
              (w\<lparr>w_registries := (w_registries w)(i := registry_add (cn_conversation c) j (w_registries w i))\<rparr>)))"

text \<open>The message loop, from one await to the next.\<close>

definition receive_or_dispatch :: "'u ws_ops \<Rightarrow> orjson \<Rightarrow> (string \<Rightarrow> string) \<Rightarrow> 'u connection \<Rightarrow> 'u connection" where
  "receive_or_dispatch W J ts c =
     (let st = receive_step W J deferred (cn_conversation c) (cn_session c None ()) in
      case orch st of
        None \<Rightarrow> take_session st c
      | Some (now, raw, cid) \<Rightarrow> c\<lparr>cn_sock := sock st,
          cn_handling := Some (\<lparr>rq_now = now, rq_produced_at = ts now, rq_raw = raw, rq_conversation = cid\<rparr>, Arrived)\<rparr>)"

definition resume :: "OrchestratorResult res \<Rightarrow> 'u connection \<Rightarrow> 'u connection" where
  "resume r c = c\<lparr>cn_handling := None,
     cn_phase := (case r of Inl e \<Rightarrow> Finished (Some e) | Inr result \<Rightarrow> Responding result)\<rparr>"

definition handle_step ::
  "orjson \<Rightarrow> pydantic \<Rightarrow> 'w redis_client \<Rightarrow> 'k aiokafka \<Rightarrow> nat \<Rightarrow> request \<Rightarrow> phase \<Rightarrow> ('u, 'w, 'k) world \<Rightarrow> ('u, 'w, 'k) world" where
  "handle_step J P C A j rq ph w =
     (let c = w_connections w ! j; i = cn_instance c in
      case handler_step P (fleet_sequence C i) (fleet_producer A J i) rq ph (seq_world w, kafka_world w) of
        (ph', (sms, redis), (ps, kafka)) \<Rightarrow> set_connection j (c\<lparr>cn_handling := Some (rq, ph')\<rparr>)
          (w\<lparr>w_sequence := sms, w_redis := redis, w_producers := ps, w_kafka := kafka\<rparr>))"

definition run_step ::
  "'u ws_ops \<Rightarrow> orjson \<Rightarrow> pydantic \<Rightarrow> 'w redis_client \<Rightarrow> 'k aiokafka \<Rightarrow> (string \<Rightarrow> string) \<Rightarrow> nat
    \<Rightarrow> ('u, 'w, 'k) world \<Rightarrow> ('u, 'w, 'k) world" where
  "run_step W J P C A ts j w =
     (let c = w_connections w ! j in
      if cn_stage c \<noteq> Open then w
      else (case cn_handling c of
          Some (rq, ph) \<Rightarrow> (case ph of Answered r \<Rightarrow> set_connection j (resume r c) w | _ \<Rightarrow> handle_step J P C A j rq ph w)
        | None \<Rightarrow> (case cn_phase c of
              Receiving \<Rightarrow> set_connection j (receive_or_dispatch W J ts c) w
            | Responding result \<Rightarrow> set_connection j (take_session (respond_step W J result (cn_session c () ())) c) w
            | Finished _ \<Rightarrow> w)))"

lemma run_step_handling:
  assumes "cn_stage (w_connections w ! j) = Open" and "cn_handling (w_connections w ! j) = Some (rq, ph)" and "\<And>r. ph \<noteq> Answered r"
  shows "run_step W J P C A ts j w = handle_step J P C A j rq ph w"
  using assms by (simp add: run_step_def Let_def split: phase.splits)

text \<open>The refresh loop, which ends with the message loop.\<close>

definition renew_step :: "'u ws_ops \<Rightarrow> orjson \<Rightarrow> 'w redis_client \<Rightarrow> nat \<Rightarrow> ('u, 'w, 'k) world \<Rightarrow> ('u, 'w, 'k) world" where
  "renew_step W J C j w =
     (let c = w_connections w ! j in
      if cn_stage c \<noteq> Open then w
      else (case cn_phase c of
          Finished _ \<Rightarrow> w
        | _ \<Rightarrow> (let st = refresh_step W J (fleet_guard C (cn_instance c)) (cn_conversation c) (cn_token c)
                        (cn_session c () (guard_world w))
                in set_connection j (take_session st c) (set_guards (own st) w))))"

text \<open>The end of the endpoint: the error frame of an unexpected exception, the registry, and then the release.\<close>

definition leave_step :: "'u ws_ops \<Rightarrow> orjson \<Rightarrow> nat \<Rightarrow> ('u, 'w, 'k) world \<Rightarrow> ('u, 'w, 'k) world" where
  "leave_step W J j w =
     (let c = w_connections w ! j; i = cn_instance c in
      case (cn_stage c, cn_phase c) of
        (Open, Finished r) \<Rightarrow>
          set_connection j (c\<lparr>cn_stage := Leaving, cn_refreshing := False,
              cn_sock := (case r of
                  None \<Rightarrow> cn_sock c
                | Some (WebSocketDisconnect _) \<Rightarrow> cn_sock c
                | Some _ \<Rightarrow> send_error_and_close W J (cn_conversation c) TRANSPORT_INTERNAL_EXCEPTION None (cn_sock c))\<rparr>)
            (w\<lparr>w_registries := (w_registries w)(i := registry_remove (cn_conversation c) (Some j) (w_registries w i))\<rparr>)
      | _ \<Rightarrow> w)"

definition give_up_step :: "'w redis_client \<Rightarrow> nat \<Rightarrow> ('u, 'w, 'k) world \<Rightarrow> ('u, 'w, 'k) world" where
  "give_up_step C j w =
     (let c = w_connections w ! j in
      if cn_stage c \<noteq> Leaving then w
      else set_connection j (c\<lparr>cn_stage := Closed\<rparr>)
        (set_guards (release_ownership_guard (Some (fleet_guard C (cn_instance c))) (cn_conversation c) (cn_token c) True
           (guard_world w)) w))"

text \<open>
  A new connection is admitted with a conversation, the handshake's token and a socket, at any instance; then the
  connections take their steps in any order.
\<close>

datatype 'u service_event =
    Connects nat string string 'u
  | Claims nat
  | Opens nat
  | Runs nat
  | Renews nat
  | Leaves nat
  | Gives_up nat

fun composed_step ::
  "'u ws_ops \<Rightarrow> orjson \<Rightarrow> pydantic \<Rightarrow> 'w redis_client \<Rightarrow> 'k aiokafka \<Rightarrow> (string \<Rightarrow> string) \<Rightarrow> 'u service_event
    \<Rightarrow> ('u, 'w, 'k) world \<Rightarrow> ('u, 'w, 'k) world" where
  "composed_step W J P C A ts (Connects i cid tok u) w = w\<lparr>w_connections := w_connections w @
     [\<lparr>cn_instance = i, cn_conversation = cid, cn_token = tok, cn_stage = Claiming, cn_sock = u, cn_phase = Receiving,
       cn_refreshing = False, cn_handling = None\<rparr>]\<rparr>"
| "composed_step W J P C A ts (Claims j) w = claim_step C j w"
| "composed_step W J P C A ts (Opens j) w = open_step W C j w"
| "composed_step W J P C A ts (Runs j) w = run_step W J P C A ts j w"
| "composed_step W J P C A ts (Renews j) w = renew_step W J C j w"
| "composed_step W J P C A ts (Leaves j) w = leave_step W J j w"
| "composed_step W J P C A ts (Gives_up j) w = give_up_step C j w"

text \<open>
  Events name connections that exist, and a new token is new (\<open>uuid.uuid4().hex\<close>). \<open>fresh\<close> says what a socket is like
  when its connection arrives.
\<close>

fun event_ok :: "('u \<Rightarrow> bool) \<Rightarrow> 'u service_event \<Rightarrow> ('u, 'w, 'k) world \<Rightarrow> bool" where
  "event_ok fresh (Connects i cid tok u) w \<longleftrightarrow> fresh u \<and> tok \<notin> cn_token ` set (w_connections w)"
| "event_ok fresh (Claims j) w \<longleftrightarrow> j < length (w_connections w)"
| "event_ok fresh (Opens j) w \<longleftrightarrow> j < length (w_connections w)"
| "event_ok fresh (Runs j) w \<longleftrightarrow> j < length (w_connections w)"
| "event_ok fresh (Renews j) w \<longleftrightarrow> j < length (w_connections w)"
| "event_ok fresh (Leaves j) w \<longleftrightarrow> j < length (w_connections w)"
| "event_ok fresh (Gives_up j) w \<longleftrightarrow> j < length (w_connections w)"

section \<open>Runs\<close>

text \<open>
  Time passes in Redis, and messages in flight arrive at the topic. With \<open>keep\<close>, leases are renewed in time: no
  ownership of a connection that has not released it expires, nor the counter of a conversation whose message is between
  its pre-check and its commit.
\<close>

definition owning :: "'u connection \<Rightarrow> bool" where
  "owning c \<longleftrightarrow> cn_stage c = Opening \<or> cn_stage c = Open \<or> cn_stage c = Leaving"

definition in_flight :: "'u connection \<Rightarrow> bool" where
  "in_flight c \<longleftrightarrow> (case cn_handling c of None \<Rightarrow> False | Some (rq, ph) \<Rightarrow> holds (cn_conversation c) ph)"

definition leases_kept ::
  "'d redis_ops \<Rightarrow> ('w \<Rightarrow> 'd) \<Rightarrow> string \<Rightarrow> string \<Rightarrow> ('u, 'w, 'k) world \<Rightarrow> 'w \<Rightarrow> bool" where
  "leases_kept R db p q w redis \<longleftrightarrow> list_all (\<lambda>c.
     (owning c \<longrightarrow> r_get R (guard_key q (cn_conversation c)) (db redis) = r_get R (guard_key q (cn_conversation c)) (db (w_redis w)))
     \<and> (in_flight c \<longrightarrow> r_get R (sm_key p (cn_conversation c)) (db redis) = r_get R (sm_key p (cn_conversation c)) (db (w_redis w))))
     (w_connections w)"

inductive composed_run ::
  "bool \<Rightarrow> ('u \<Rightarrow> bool) \<Rightarrow> 'd redis_ops \<Rightarrow> ('w \<Rightarrow> 'd) \<Rightarrow> ('k \<Rightarrow> kafka_record list) \<Rightarrow> ('k \<Rightarrow> kafka_record set) \<Rightarrow> 'u ws_ops \<Rightarrow> orjson \<Rightarrow> pydantic
    \<Rightarrow> 'w redis_client \<Rightarrow> 'k aiokafka \<Rightarrow> (string \<Rightarrow> string) \<Rightarrow> string \<Rightarrow> string \<Rightarrow> string
    \<Rightarrow> ('u, 'w, 'k) world \<Rightarrow> nat \<Rightarrow> ('u, 'w, 'k) world \<Rightarrow> bool"
  for keep fresh R db records inflight W J P C A ts p q tpc w0 where
  starts: "composed_run keep fresh R db records inflight W J P C A ts p q tpc w0 0 w0"
| acts: "composed_run keep fresh R db records inflight W J P C A ts p q tpc w0 n w \<Longrightarrow> event_ok fresh e w \<Longrightarrow>
    composed_run keep fresh R db records inflight W J P C A ts p q tpc w0 (Suc n) (composed_step W J P C A ts e w)"
| time_passes: "composed_run keep fresh R db records inflight W J P C A ts p q tpc w0 n w \<Longrightarrow>
    db redis = r_elapse R seconds (db (w_redis w)) \<Longrightarrow> (keep \<longrightarrow> leases_kept R db p q w redis) \<Longrightarrow>
    composed_run keep fresh R db records inflight W J P C A ts p q tpc w0 n (w\<lparr>w_redis := redis\<rparr>)"
| arrives_late: "composed_run keep fresh R db records inflight W J P C A ts p q tpc w0 n w \<Longrightarrow>
    fleet_pending J inflight tpc (w_producers w, kafka) \<subseteq> fleet_pending J inflight tpc (kafka_world w) \<Longrightarrow>
    set late \<subseteq> fleet_pending J inflight tpc (kafka_world w) \<Longrightarrow>
    fleet_delivered J records tpc (w_producers w, kafka) = fleet_delivered J records tpc (kafka_world w) @ late \<Longrightarrow>
    composed_run keep fresh R db records inflight W J P C A ts p q tpc w0 n (w\<lparr>w_kafka := kafka\<rparr>)"

text \<open>At the start there is no connection, no counter is stored and nothing is published or in flight.\<close>

definition composed_start ::
  "'d redis_ops \<Rightarrow> ('w \<Rightarrow> 'd) \<Rightarrow> (lua_script \<Rightarrow> string) \<Rightarrow> orjson \<Rightarrow> ('k \<Rightarrow> kafka_record list) \<Rightarrow> ('k \<Rightarrow> kafka_record set)
    \<Rightarrow> string \<Rightarrow> string \<Rightarrow> string \<Rightarrow> ('u, 'w, 'k) world \<Rightarrow> bool" where
  "composed_start R db sha J records inflight p q tpc w \<longleftrightarrow>
     fleet_start R db sha J records inflight p tpc (seq_world w) (kafka_world w) \<and> fleet_guards_ok sha q (guard_world w)
     \<and> w_registries w = (\<lambda>_. empty_registry) \<and> w_connections w = []"

end
