(* ===== verification/Response_Schema.thy ===== *)
theory Response_Schema
  imports Session
begin

text \<open>
  The models of the server's frames in \<open>schemas/response.py\<close>. The builders return dictionaries and do not use the
  models; here every frame that a connection is sent is shown to be an instance of one of them, and to
  name the conversation of the connection. The exception is the details of an out-of-order number, which no
  limit bounds.
\<close>

section \<open>The models\<close>

definition is_json_str :: "json \<Rightarrow> bool" where
  "is_json_str v = (case v of JStr _ \<Rightarrow> True | _ \<Rightarrow> False)"

definition is_json_int :: "json \<Rightarrow> bool" where
  "is_json_int v = (case v of JInt _ \<Rightarrow> True | _ \<Rightarrow> False)"

definition str_at_most :: "nat \<Rightarrow> json \<Rightarrow> bool" where
  "str_at_most n v = (case v of JStr s \<Rightarrow> length s \<le> n | _ \<Rightarrow> False)"

text \<open>A nested model, and the event type, one of the values of \<open>ResponseEventType\<close>.\<close>

definition nested :: "(dict \<Rightarrow> bool) \<Rightarrow> json \<Rightarrow> bool" where
  "nested p v = (case v of JObj d \<Rightarrow> p d | _ \<Rightarrow> False)"

definition valid_ack_metadata :: "string \<Rightarrow> dict \<Rightarrow> bool" where
  "valid_ack_metadata cid d \<longleftrightarrow> dict_get d ''conversationId'' = JStr cid
     \<and> dict_get d ''eventType'' \<in> JStr ` response_event_value ` {TRANSCRIPT_ACK, EOL_ACK, ERROR}"

definition valid_ack_payload :: "dict \<Rightarrow> bool" where
  "valid_ack_payload d \<longleftrightarrow> is_json_int (dict_get d ''sequenceNumber'') \<and> is_json_str (dict_get d ''createdAtTimeStamp'')
     \<and> (case dict_get d ''serverProcessingMs'' of JNull \<Rightarrow> True | JFloat _ \<Rightarrow> True | _ \<Rightarrow> False)"

definition valid_ack_response :: "string \<Rightarrow> dict \<Rightarrow> bool" where
  "valid_ack_response cid d \<longleftrightarrow> nested (valid_ack_metadata cid) (dict_get d ''metaData'')
     \<and> nested valid_ack_payload (dict_get d ''payload'')"

definition valid_error_detail :: "dict \<Rightarrow> bool" where
  "valid_error_detail d \<longleftrightarrow> str_at_most 16 (dict_get d ''code'')
     \<and> str_at_most MAX_ERROR_MESSAGE_LEN (dict_get d ''message'')
     \<and> (dict_get d ''details'' = JNull \<or> str_at_most MAX_ERROR_DETAILS_LEN (dict_get d ''details''))
     \<and> is_json_str (dict_get d ''createdAtTimeStamp'')"

definition valid_error_response :: "string \<Rightarrow> dict \<Rightarrow> bool" where
  "valid_error_response cid d \<longleftrightarrow> nested (valid_ack_metadata cid) (dict_get d ''metaData'')
     \<and> nested valid_error_detail (dict_get d ''error'')"

text \<open>A frame: an acknowledgement of its kind, or an error.\<close>

definition valid_frame :: "string \<Rightarrow> dict \<Rightarrow> bool" where
  "valid_frame cid d \<longleftrightarrow>
     (if meta_event_type d = JStr ''ERROR'' then valid_error_response cid d else valid_ack_response cid d)"

lemma valid_ack: "valid_frame cid (build_success_ack now cid n evt)"
  by (simp add: valid_frame_def valid_ack_response_def valid_ack_metadata_def valid_ack_payload_def nested_def is_json_int_def
      is_json_str_def build_success_ack_def build_eol_ack_def build_transcript_ack_def build_success_response_def
      meta_event_type_def dict_get_def)

lemma error_code_length: "length (error_code_value c) \<le> 16"
  by (cases c) simp_all

lemma valid_error:
  assumes "case d of None \<Rightarrow> True | Some t \<Rightarrow> length t \<le> MAX_ERROR_DETAILS_LEN"
  shows "valid_frame cid (error_frame s now cid d)"
proof -
  have "valid_frame cid (build_error now cid (error_code_value (scenario_error_code s)) (default_message s) x)"
    if "case x of None \<Rightarrow> True | Some t \<Rightarrow> length t \<le> MAX_ERROR_DETAILS_LEN" for x
    using that error_code_length [of "scenario_error_code s"] scenario_lengths [of s]
    by (cases x) (simp_all add: valid_frame_def valid_error_response_def valid_ack_metadata_def valid_error_detail_def nested_def
        is_json_str_def str_at_most_def build_error_def meta_event_type_def dict_get_def)
  moreover have "case (case d of None \<Rightarrow> details_template (scenario_spec s) | Some t \<Rightarrow> Some t) of
      None \<Rightarrow> True | Some t \<Rightarrow> length t \<le> MAX_ERROR_DETAILS_LEN"
    using assms scenario_lengths [of s] by (cases d) auto
  ultimately show ?thesis by (simp add: error_frame_def)
qed

lemma valid_processing_ms:
  assumes v: "valid_frame cid d"
  shows "valid_frame cid (with_processing_ms ms d)"
proof (cases "meta_event_type d \<in> {JStr ''TRANSCRIPT_ACK'', JStr ''EOL_ACK''}")
  case True
  then have "valid_ack_response cid d" using v by (auto simp: valid_frame_def)
  then obtain m p where "dict_get d ''metaData'' = JObj m" "dict_get d ''payload'' = JObj p" "valid_ack_metadata cid m" "valid_ack_payload p"
    by (auto simp: valid_ack_response_def nested_def split: json.splits)
  then show ?thesis
    using True by (auto simp: with_processing_ms_def valid_frame_def valid_ack_response_def nested_def valid_ack_payload_def meta_event_type_def)
next
  case False
  then show ?thesis using v by (simp add: with_processing_ms_def)
qed

text \<open>What the code puts into details by itself is short.\<close>

lemma repr_length: "length (py_repr s) \<le> 4 * length s + 2"
proof -
  have "length (repr_char q c) \<le> 4" for q c by (simp add: repr_char_def Let_def)
  then have "length (concat (map (repr_char q) s)) \<le> 4 * length s" for q
    by (induction s) (auto, metis add_mono)
  then show ?thesis by (simp add: py_repr_def Let_def)
qed

section \<open>The handler's answers\<close>

lemma handled_frame:
  assumes P: "pydantic_ok P" and body: "body_conversation raw \<in> {None, Some cid}"
    and digits: "\<And>m. model_validate P raw = Inr m \<Longrightarrow> length (str_of_int (sequenceNumber (payload m))) \<le> 2000"
    and run: "handle_message P S K now at_ts raw cid w = (r, w')"
  shows "\<exists>res. r = Inr res \<and> valid_frame cid (response res)"
proof -
  obtain s k s' k' where w: "w = (s, k)" "w' = (s', k')" by fastforce
  have rc: "response_conversation raw cid = cid"
    using body by (auto simp: response_conversation_def body_conversation_def split: json.splits)
  have cid: "conversationId (metaData m) = cid" if "model_validate P raw = Inr m" for m
    using body_conversation_valid [OF P that] body by auto
  have short: "length (take MAX_ERROR_MESSAGE_LEN t) \<le> MAX_ERROR_DETAILS_LEN" for t :: string
    by (simp add: MAX_ERROR_MESSAGE_LEN_def MAX_ERROR_DETAILS_LEN_def)
  from run [unfolded w] show ?thesis
  proof (cases rule: handle_cases)
    case (invalid es c)
    then show ?thesis by (simp add: rc error_outcome_def valid_error)
  next
    case (unprepared m e c)
    then show ?thesis using short by (simp add: rc error_outcome_def valid_error)
  next
    case (replay m prep)
    then show ?thesis using cid by (simp add: idempotent_result_def valid_ack)
  next
    case (gap m prep)
    have "length (''sequenceNumber='' @ str_of_int (sequenceNumber (payload m)) @ '' is not expected'') \<le> MAX_ERROR_DETAILS_LEN"
      using digits [OF gap(1)] by (simp add: MAX_ERROR_DETAILS_LEN_def)
    then show ?thesis using gap cid by (simp add: error_outcome_def valid_error del: length_append)
  next
    case (unsent m prep e)
    obtain sc d ts where f: "send_failure now cid e = Inr (error_outcome sc now cid d ts)"
      "case d of None \<Rightarrow> True | Some t \<Rightarrow> length t \<le> MAX_ERROR_MESSAGE_LEN"
      using send_failure_outcome by metis
    then have "case d of None \<Rightarrow> True | Some t \<Rightarrow> length t \<le> MAX_ERROR_DETAILS_LEN"
      by (auto simp: MAX_ERROR_MESSAGE_LEN_def MAX_ERROR_DETAILS_LEN_def split: option.splits)
    then show ?thesis using unsent(5) f(1) cid [OF unsent(1)] by (simp add: error_outcome_def valid_error)
  next
    case (uncommitted m prep s1 u e c)
    then show ?thesis using short by (simp add: rc error_outcome_def valid_error)
  next
    case (completed m prep s1 u s2 v rc)
    then show ?thesis using cid by (simp add: complete_result_def valid_ack)
  next
    case (continued m prep s1 u v)
    then show ?thesis using cid by (simp add: ongoing_result_def valid_ack)
  qed
qed

section \<open>The frames of a connection\<close>

text \<open>A connection that keeps every text it is given to send, around any other.\<close>

record 'u taped =
  tape_inner :: 'u
  tape :: "string list"

definition tape_io :: "('u, 'a) io \<Rightarrow> ('u taped, 'a) io" where
  "tape_io m c = (case m (tape_inner c) of (r, u) \<Rightarrow> (r, c\<lparr>tape_inner := u\<rparr>))"

definition taping :: "'u ws_ops \<Rightarrow> 'u taped ws_ops" where
  "taping W = \<lparr>ws_accept = tape_io (ws_accept W), ws_receive_text = tape_io (ws_receive_text W),
     ws_send_text = (\<lambda>t c. tape_io (ws_send_text W t) (c\<lparr>tape := tape c @ [t]\<rparr>)),
     ws_close = (\<lambda>code. tape_io (ws_close W code)),
     ws_connected = (\<lambda>c. ws_connected W (tape_inner c)), ws_now = (\<lambda>c. ws_now W (tape_inner c)),
     ws_elapsed_ms = (\<lambda>c. ws_elapsed_ms W (tape_inner c))\<rparr>"

lemma taping_send: "ws_send_text (taping W) t c = (r, c') \<Longrightarrow> tape c' = tape c @ [t]"
  by (auto simp: taping_def tape_io_def split: prod.splits)

lemma taping_receive: "ws_receive_text (taping W) c = (r, c') \<Longrightarrow> tape c' = tape c"
  by (auto simp: taping_def tape_io_def split: prod.splits)

lemma taping_accept: "ws_accept (taping W) c = (r, c') \<Longrightarrow> tape c' = tape c"
  by (auto simp: taping_def tape_io_def split: prod.splits)

lemma taping_close: "ws_close (taping W) code c = (r, c') \<Longrightarrow> tape c' = tape c"
  by (auto simp: taping_def tape_io_def split: prod.splits)

definition good_text :: "orjson \<Rightarrow> string \<Rightarrow> string \<Rightarrow> bool" where
  "good_text J cid t \<longleftrightarrow> (\<exists>d. dumps J (JObj d) = Inr t \<and> valid_frame cid d)"

definition good_texts :: "orjson \<Rightarrow> string \<Rightarrow> string list \<Rightarrow> bool" where
  "good_texts J cid ts \<longleftrightarrow> list_all (good_text J cid) ts"

lemma good_texts_simps [simp]:
  "good_texts J cid []"
  "good_texts J cid (ts @ [t]) \<longleftrightarrow> good_texts J cid ts \<and> good_text J cid t"
  by (auto simp: good_texts_def)

lemma built_valid:
  assumes "build_response s now cid d = Inr f"
    and "case d of None \<Rightarrow> True | Some t \<Rightarrow> length t \<le> MAX_ERROR_DETAILS_LEN"
  shows "valid_frame cid f"
proof -
  have "\<not> needs_arguments s \<or> d \<noteq> None" using assms(1) build_response_error_iff [of s now cid d] by auto
  then show ?thesis using assms build_response_frame [of s d now cid] by (auto intro: valid_error)
qed

text \<open>What one connection may send in the name of an error.\<close>

lemma error_close_good:
  assumes "good_texts J cid (tape c)" and "case d of None \<Rightarrow> True | Some t \<Rightarrow> length t \<le> MAX_ERROR_DETAILS_LEN"
  shows "good_texts J cid (tape (send_error_and_close (taping W) J cid sc d c))"
proof -
  have closed: "tape (snd (ws_close (taping W) code u)) = tape u" for code u
    using taping_close [of W code u] by (metis prod.collapse)
  have good: "good_text J cid t" if "build_response sc now cid d = Inr f" "dumps J (JObj f) = Inr t" for now f t
    using built_valid [OF that(1) assms(2)] that(2) by (auto simp: good_text_def)
  show ?thesis
    using assms good
    by (auto simp: send_error_and_close_def closed split: sum.splits prod.splits dest!: taping_send)
qed

definition session_good :: "orjson \<Rightarrow> string \<Rightarrow> ('u taped, 'o, 'g) session \<Rightarrow> bool" where
  "session_good J cid st \<longleftrightarrow> good_texts J cid (tape (sock st))
     \<and> (case phase st of Responding res \<Rightarrow> valid_frame cid (response res) | _ \<Rightarrow> True)"

definition answers_valid :: "orjson \<Rightarrow> string \<Rightarrow> 'o orchestrator \<Rightarrow> bool" where
  "answers_valid J cid handle \<longleftrightarrow> (\<forall>t raw now w res w'. loads J t = Inr raw \<longrightarrow> body_conversation raw \<in> {None, Some cid}
     \<longrightarrow> handle now raw cid w = (Inr res, w') \<longrightarrow> valid_frame cid (response res))"

lemma receive_good:
  assumes ok: "session_good J cid st" and h: "answers_valid J cid handle" and cid: "length cid \<le> 400"
  shows "session_good J cid (receive_step (taping W) J handle cid st)"
proof -
  obtain r u where r: "ws_receive_text (taping W) (sock st) = (r, u)" by fastforce
  have u: "good_texts J cid (tape u)" using ok taping_receive [OF r] by (simp add: session_good_def)
  have reject: "session_good J cid (reject_frame (taping W) J cid sc (Some d) (st\<lparr>sock := u\<rparr>))"
    if "length d \<le> MAX_ERROR_DETAILS_LEN" for sc d
    using u error_close_good [of J cid u "Some d"] that
    by (auto simp: reject_frame_def session_good_def split: sum.splits)
  have dispatch: "session_good J cid (dispatch_frame (taping W) J handle cid raw (st\<lparr>sock := u\<rparr>))"
    if "loads J t = Inr raw" "body_conversation raw \<in> {None, Some cid}" for t raw
    using u h that unfolding answers_valid_def dispatch_frame_def session_good_def
    by (auto split: prod.splits sum.splits)
  have mismatch: "length (''metaData.conversationId must match query parameter 'conversationId' ('' @ py_repr cid @ '')'') \<le> MAX_ERROR_DETAILS_LEN"
    using repr_length [of cid] cid by (simp add: MAX_ERROR_DETAILS_LEN_def)
  have ended: "session_good J cid (st\<lparr>sock := u, phase := Finished x\<rparr>)" for x
    using u by (simp add: session_good_def)
  show ?thesis
    unfolding receive_step_def r format_details_mismatch Let_def
    using reject dispatch ended reject [OF mismatch]
    by (auto split: sum.splits exn.splits option.splits simp del: length_append)
qed

lemma respond_good:
  assumes ok: "session_good J cid st" and p: "phase st = Responding res"
  shows "session_good J cid (respond_step (taping W) J res st)"
proof -
  have v: "good_text J cid t" if "dumps J (JObj (with_processing_ms ms (response res))) = Inr t" for ms t
    using ok p that by (auto simp: session_good_def good_text_def intro: valid_processing_ms)
  show ?thesis
    using ok v unfolding session_good_def respond_step_def Let_def
    by (auto split: sum.splits prod.splits dest!: taping_send taping_close)
qed

lemma refresh_good:
  assumes "session_good J cid st"
  shows "session_good J cid (refresh_step (taping W) J G cid tok st)"
proof -
  have good: "good_texts J cid (tape (send_error_and_close (taping W) J cid DOWNSTREAM_UNAVAILABLE
        (Some ''Conversation ownership guard store unavailable'') (sock st)))"
    "good_texts J cid (tape (send_error_and_close (taping W) J cid ACTIVE_SENDER_CONFLICT None (sock st)))"
    using assms by (auto intro!: error_close_good simp: session_good_def MAX_ERROR_DETAILS_LEN_def)
  show ?thesis
    using assms good by (auto simp: refresh_step_def session_good_def close_for_ownership_guard_unavailable_def
        close_for_active_sender_conflict_def split: sum.splits prod.splits)
qed

lemma session_good_step:
  assumes "session_good J cid st" and "answers_valid J cid handle" and "length cid \<le> 400"
  shows "session_good J cid (session_step (taping W) J handle guard cid tok e st)"
  using assms by (cases e)
    (auto simp: loop_step_def receive_good respond_good refresh_good split: loop_phase.splits option.splits)

lemma session_good_run:
  assumes "session_good J cid st" and "answers_valid J cid handle" and "length cid \<le> 400"
  shows "session_good J cid (run_session (taping W) J handle guard cid tok sched st)"
  using assms by (induction sched arbitrary: st) (simp_all add: run_session_def session_good_step)

text \<open>The whole endpoint, from the accept to the last error frame.\<close>

lemma endpoint_good:
  assumes h: "answers_valid J cid handle" and cid: "length cid \<le> 400" and u: "good_texts J cid (tape u)"
    and run: "ws_endpoint (taping W) J handle guard cid scope_token new_token acquired ws sched others u w g reg = (b, u', w', g', reg')"
  shows "good_texts J cid (tape u')"
proof -
  have err: "good_texts J cid (tape (send_error_and_close (taping W) J cid sc d x))"
    if "good_texts J cid (tape x)" "d \<in> {None, Some ''Conversation ownership guard store unavailable''}" for sc d x
    using that by (auto intro!: error_close_good simp: MAX_ERROR_DETAILS_LEN_def)
  obtain ra u1 where a: "ws_accept (taping W) u = (ra, u1)" by fastforce
  have u1: "good_texts J cid (tape u1)" using u taping_accept [OF a] by simp
  show ?thesis
  proof (cases ra)
    case (Inl e)
    then show ?thesis using run a u1 by (simp add: ws_endpoint_def)
  next
    case (Inr x)
    define tok where "tok = (case scope_token of Some t \<Rightarrow> t | None \<Rightarrow> new_token)"
    obtain acq denied u2 g2 where c: "(case guard of
                None \<Rightarrow> (acquired, False, u1, g)
              | Some G \<Rightarrow>
                  if acquired then (True, False, u1, g)
                  else (case claim_runtime_ownership_or_close (taping W) J G cid tok (u1, g) of
                      (owned, u', g') \<Rightarrow> (owned, \<not> owned, u', g'))) = (acq, denied, u2, g2)" by (rule prod_cases4)
    have u2: "good_texts J cid (tape u2)"
    proof (cases "guard = None \<or> acquired")
      case True
      then show ?thesis using c u1 by (auto split: option.splits)
    next
      case False
      then obtain G where G: "guard = Some G" by auto
      obtain r g1 where cl: "g_claim_or_refresh G cid tok g = (r, g1)" by fastforce
      show ?thesis
        using c False u1 err [OF u1]
        by (cases r) (auto simp: G cl claim_runtime_ownership_or_close_def close_for_ownership_guard_unavailable_def
            close_for_active_sender_conflict_def split: if_splits)
    qed
    let ?st = "run_session (taping W) J handle guard cid tok sched
      \<lparr>sock = u2, orch = w, own = g2, phase = Receiving, refreshing = (guard \<noteq> None \<and> acq)\<rparr>"
    have st: "good_texts J cid (tape (sock ?st))"
      using session_good_run [OF _ h cid, of "\<lparr>sock = u2, orch = w, own = g2, phase = Receiving, refreshing = (guard \<noteq> None \<and> acq)\<rparr>"] u2
      by (simp add: session_good_def)
    have "u' = (if denied then u2 else case phase ?st of
        Finished r \<Rightarrow> (case r of None \<Rightarrow> sock ?st | Some (WebSocketDisconnect _) \<Rightarrow> sock ?st
          | Some _ \<Rightarrow> send_error_and_close (taping W) J cid TRANSPORT_INTERNAL_EXCEPTION None (sock ?st))
      | _ \<Rightarrow> sock ?st)"
      using run unfolding ws_endpoint_def a Inr Let_def prod.case sum.case tok_def [symmetric] c
      by (cases denied; cases "phase ?st") simp_all
    then show ?thesis
      using u2 st err by (auto split: loop_phase.splits option.splits exn.splits)
  qed
qed

section \<open>Properties\<close>


definition one_frame :: orjson where
  "one_frame = numbering_orjson\<lparr>loads := (\<lambda>_. Inr (sample_ongoing ''c1'' 0))\<rparr>"


text \<open>
  The limit that nothing enforces: pydantic reads an integer from a string of up to 4300 digits, and the details of an
  out-of-order answer repeat it. There are accepted numbers for which the answer violates the response model.
\<close>

theorem out_of_order_details_unbounded:
  "\<exists>n res. 0 \<le> n \<and> out_of_order_result now cid n = Inr res \<and> \<not> valid_frame cid (response res)"
proof -
  have "\<exists>n. 0 \<le> n \<and> MAX_ERROR_DETAILS_LEN < length (str_of_int n)"
  proof (rule ccontr)
    assume "\<not> (\<exists>n. 0 \<le> n \<and> MAX_ERROR_DETAILS_LEN < length (str_of_int n))"
    then have "(\<lambda>n. str_of_int (int n)) ` UNIV \<subseteq> {s. set s \<subseteq> UNIV \<and> length s \<le> MAX_ERROR_DETAILS_LEN}" by (auto simp: not_less)
    moreover have "finite {s :: string. set s \<subseteq> UNIV \<and> length s \<le> MAX_ERROR_DETAILS_LEN}"
      by (rule finite_lists_length_le) simp
    moreover have "inj (\<lambda>n. str_of_int (int n))" by (simp add: inj_def str_of_int_inj)
    ultimately have "finite (UNIV :: nat set)" using finite_subset finite_imageD by blast
    then show False by simp
  qed
  then obtain n where n: "0 \<le> n" "MAX_ERROR_DETAILS_LEN < length (str_of_int n)" by blast
  have "\<not> valid_frame cid (error_frame SEQUENCE_OUT_OF_ORDER now cid (Some (''sequenceNumber='' @ str_of_int n @ '' is not expected'')))"
    using n(2) by (simp add: valid_frame_def valid_error_response_def valid_error_detail_def nested_def str_at_most_def error_frame_def
        build_error_def meta_event_type_def dict_get_def)
  then show ?thesis using n(1) by (intro exI [of _ n]) (simp add: out_of_order_outcome error_outcome_def)
qed

end
