(* ===== verification/Composition_Safety.thy ===== *)
theory Composition_Safety
  imports Composition Response_Schema
begin

text \<open>
  The service as a whole keeps its promises. Every run of \<open>Composition\<close> is a run of the handlers of \<open>Interleaving\<close>, since
  claims, refreshes and releases leave the counters alone; so what an acknowledgement on any connection's wire names is
  in the topic. And while leases are renewed in time, the guard gives each conversation to one connection at a time, which is
  the exclusive access under which the counters only count up.
\<close>

section \<open>Connections and their handlers\<close>

lemma nth_updated: "i < length xs \<Longrightarrow> xs[j := x] ! i = (if i = j then x else xs ! i)"
  by simp

text \<open>Each handler under way is a task of the run, each its own, and every other task has finished.\<close>

definition task_of :: "'u connection \<Rightarrow> request \<Rightarrow> phase \<Rightarrow> task" where
  "task_of c rq ph = \<lparr>tk_instance = cn_instance c, tk_request = rq, tk_phase = ph\<rparr>"

definition tracks :: "task list \<Rightarrow> 'u connection list \<Rightarrow> (nat \<Rightarrow> nat) \<Rightarrow> bool" where
  "tracks tsk cs f \<longleftrightarrow>
     (\<forall>j rq ph. j < length cs \<longrightarrow> cn_handling (cs ! j) = Some (rq, ph) \<longrightarrow> f j < length tsk \<and> tsk ! f j = task_of (cs ! j) rq ph)
     \<and> inj_on f {j. j < length cs \<and> cn_handling (cs ! j) \<noteq> None}
     \<and> (\<forall>l c. l < length tsk \<longrightarrow> holds c (tk_phase (tsk ! l)) \<longrightarrow> (\<exists>j < length cs. cn_handling (cs ! j) \<noteq> None \<and> f j = l))"

lemma tracksD:
  "tracks tsk cs f \<Longrightarrow> j < length cs \<Longrightarrow> cn_handling (cs ! j) = Some (rq, ph) \<Longrightarrow> f j < length tsk \<and> tsk ! f j = task_of (cs ! j) rq ph"
  "tracks tsk cs f \<Longrightarrow> j < length cs \<Longrightarrow> l < length cs \<Longrightarrow> cn_handling (cs ! j) \<noteq> None \<Longrightarrow> cn_handling (cs ! l) \<noteq> None \<Longrightarrow>
     f j = f l \<Longrightarrow> j = l"
  "tracks tsk cs f \<Longrightarrow> l < length tsk \<Longrightarrow> holds c (tk_phase (tsk ! l)) \<Longrightarrow> \<exists>j < length cs. cn_handling (cs ! j) \<noteq> None \<and> f j = l"
  unfolding tracks_def inj_on_def by blast+

lemma tracks_start: "tracks [] [] f"
  by (simp add: tracks_def)

lemma tracks_connect:
  assumes t: "tracks tsk cs f" and c: "cn_handling c = None"
  shows "tracks tsk (cs @ [c]) f"
  unfolding tracks_def
proof (intro conjI allI impI)
  have at: "i < length (cs @ [c]) \<and> cn_handling ((cs @ [c]) ! i) \<noteq> None \<longleftrightarrow> i < length cs \<and> cn_handling (cs ! i) \<noteq> None" for i
    using c by (auto simp: nth_append less_Suc_eq)
  show "inj_on f {j. j < length (cs @ [c]) \<and> cn_handling ((cs @ [c]) ! j) \<noteq> None}"
    unfolding at using t by (simp add: tracks_def)
  show "\<exists>i < length (cs @ [c]). cn_handling ((cs @ [c]) ! i) \<noteq> None \<and> f i = l" if "l < length tsk" "holds d (tk_phase (tsk ! l))" for l d
    using tracksD(3) [OF t that] at by blast
  fix i rq ph
  assume i: "i < length (cs @ [c])" "cn_handling ((cs @ [c]) ! i) = Some (rq, ph)"
  then have "i < length cs" using at [of i] by simp
  then show "f i < length tsk" "tsk ! f i = task_of ((cs @ [c]) ! i) rq ph"
    using i tracksD(1) [OF t, of i rq ph] by (simp_all add: nth_append)
qed

text \<open>An update of a connection that leaves its handler, or ends one that has its answer.\<close>

lemma tracks_update:
  assumes t: "tracks tsk cs f" and c: "cn_handling c' = cn_handling (cs ! j) \<and> cn_instance c' = cn_instance (cs ! j)
    \<or> cn_handling c' = None \<and> (\<forall>rq ph c. cn_handling (cs ! j) = Some (rq, ph) \<longrightarrow> \<not> holds c ph)"
  shows "tracks tsk (cs[j := c']) f"
proof -
  have sub: "{i. i < length (cs[j := c']) \<and> cn_handling (cs[j := c'] ! i) \<noteq> None} \<subseteq> {i. i < length cs \<and> cn_handling (cs ! i) \<noteq> None}"
    using c by (intro Collect_mono impI conjI) (simp, metis length_list_update nth_updated)
  have task: "f i < length tsk \<and> tsk ! f i = task_of (cs[j := c'] ! i) rq ph"
    if "i < length cs" "cn_handling (cs[j := c'] ! i) = Some (rq, ph)" for i rq ph
    using that c tracksD(1) [OF t, of i rq ph] by (auto simp: nth_updated task_of_def split: if_splits)
  have held: "\<exists>i < length cs. cn_handling (cs[j := c'] ! i) \<noteq> None \<and> f i = l" if l: "l < length tsk" "holds d (tk_phase (tsk ! l))" for l d
  proof -
    obtain i where i: "i < length cs" "cn_handling (cs ! i) \<noteq> None" "f i = l" using tracksD(3) [OF t l] by blast
    then obtain rq ph where h: "cn_handling (cs ! i) = Some (rq, ph)" by force
    have "holds d ph" using l(2) i(3) tracksD(1) [OF t i(1) h] by (simp add: task_of_def)
    then have "i = j \<Longrightarrow> cn_handling c' \<noteq> None" using c h by (metis option.distinct(1))
    then have "cn_handling (cs[j := c'] ! i) \<noteq> None" using i(1,2) by (simp add: nth_updated)
    then show ?thesis using i by blast
  qed
  show ?thesis
    using task held inj_on_subset [OF _ sub, of f] t unfolding tracks_def by simp
qed

lemma tracks_dispatch:
  assumes t: "tracks tsk cs f" and j: "j < length cs" "cn_handling (cs ! j) = None"
    and c: "cn_handling c' = Some (rq, Arrived)" "cn_instance c' = cn_instance (cs ! j)"
  shows "tracks (tsk @ [\<lparr>tk_instance = cn_instance (cs ! j), tk_request = rq, tk_phase = Arrived\<rparr>]) (cs[j := c']) (f(j := length tsk))"
  unfolding tracks_def
proof (intro conjI allI impI)
  let ?tsk = "tsk @ [\<lparr>tk_instance = cn_instance (cs ! j), tk_request = rq, tk_phase = Arrived\<rparr>]" and ?f = "f(j := length tsk)"
  fix i rq' ph
  assume i: "i < length (cs[j := c'])" "cn_handling (cs[j := c'] ! i) = Some (rq', ph)"
  show "?f i < length ?tsk" "?tsk ! ?f i = task_of (cs[j := c'] ! i) rq' ph"
    using i c tracksD(1) [OF t, of i rq' ph] j by (auto simp: nth_updated nth_append task_of_def split: if_splits)
next
  have bound: "f i < length tsk" if "i < length cs" "cn_handling (cs ! i) \<noteq> None" for i
    using tracksD(1) [OF t that(1)] that(2) by fastforce
  show "inj_on (f(j := length tsk)) {i. i < length (cs[j := c']) \<and> cn_handling (cs[j := c'] ! i) \<noteq> None}"
  proof (rule inj_onI)
    fix a b
    assume h: "a \<in> {i. i < length (cs[j := c']) \<and> cn_handling (cs[j := c'] ! i) \<noteq> None}"
      "b \<in> {i. i < length (cs[j := c']) \<and> cn_handling (cs[j := c'] ! i) \<noteq> None}" "(f(j := length tsk)) a = (f(j := length tsk)) b"
    then show "a = b"
      using bound [of a] bound [of b] tracksD(2) [OF t, of a b] by (auto simp: nth_updated split: if_splits)
  qed
next
  fix l d
  assume l: "l < length (tsk @ [\<lparr>tk_instance = cn_instance (cs ! j), tk_request = rq, tk_phase = Arrived\<rparr>])"
    "holds d (tk_phase ((tsk @ [\<lparr>tk_instance = cn_instance (cs ! j), tk_request = rq, tk_phase = Arrived\<rparr>]) ! l))"
  then have "l < length tsk" "holds d (tk_phase (tsk ! l))" by (auto simp: nth_append less_Suc_eq split: if_splits)
  then obtain i where "i < length cs" "cn_handling (cs ! i) \<noteq> None" "f i = l" using tracksD(3) [OF t] by blast
  then show "\<exists>i < length (cs[j := c']). cn_handling (cs[j := c'] ! i) \<noteq> None \<and> (f(j := length tsk)) i = l"
    using j(2) by (intro exI [of _ i]) auto
qed

lemma tracks_move:
  assumes t: "tracks tsk cs f" and j: "j < length cs" "cn_handling (cs ! j) = Some (rq, ph)"
    and c: "cn_handling c' = Some (rq, ph')" "cn_instance c' = cn_instance (cs ! j)"
  shows "tracks (tsk[f j := (tsk ! f j)\<lparr>tk_phase := ph'\<rparr>]) (cs[j := c']) f"
  unfolding tracks_def
proof (intro conjI allI impI)
  fix i rq' ph0
  assume i: "i < length (cs[j := c'])" "cn_handling (cs[j := c'] ! i) = Some (rq', ph0)"
  note fj = tracksD(1) [OF t j]
  show "f i < length (tsk[f j := (tsk ! f j)\<lparr>tk_phase := ph'\<rparr>])"
    "tsk[f j := (tsk ! f j)\<lparr>tk_phase := ph'\<rparr>] ! f i = task_of (cs[j := c'] ! i) rq' ph0"
    using i c fj tracksD(1) [OF t, of i rq' ph0] tracksD(2) [OF t, of i j] j
    by (auto simp: nth_updated task_of_def split: if_splits)
next
  have "{i. i < length (cs[j := c']) \<and> cn_handling (cs[j := c'] ! i) \<noteq> None} = {i. i < length cs \<and> cn_handling (cs ! i) \<noteq> None}"
    using c j by (auto simp: nth_updated split: if_splits)
  then show "inj_on f {i. i < length (cs[j := c']) \<and> cn_handling (cs[j := c'] ! i) \<noteq> None}"
    using t by (simp add: tracks_def)
next
  fix l d
  assume l: "l < length (tsk[f j := (tsk ! f j)\<lparr>tk_phase := ph'\<rparr>])"
    "holds d (tk_phase (tsk[f j := (tsk ! f j)\<lparr>tk_phase := ph'\<rparr>] ! l))"
  show "\<exists>i < length (cs[j := c']). cn_handling (cs[j := c'] ! i) \<noteq> None \<and> f i = l"
  proof (cases "l = f j")
    case True
    then show ?thesis using j c by (intro exI [of _ j]) simp
  next
    case False
    then obtain i where "i < length cs" "cn_handling (cs ! i) \<noteq> None" "f i = l"
      using l tracksD(3) [OF t, of l d] by auto
    then show ?thesis using c by (intro exI [of _ i]) (simp add: nth_updated)
  qed
qed

section \<open>What a connection may hold\<close>

fun own_phase :: "string \<Rightarrow> phase \<Rightarrow> bool" where
  "own_phase cid Arrived \<longleftrightarrow> True"
| "own_phase cid (Accepted m) \<longleftrightarrow> conversationId (metaData m) = cid"
| "own_phase cid (Published m) \<longleftrightarrow> conversationId (metaData m) = cid"
| "own_phase cid (Committed m) \<longleftrightarrow> conversationId (metaData m) = cid"
| "own_phase cid (Answered r) \<longleftrightarrow> (\<forall>res c x. r = Inr res \<longrightarrow> acknowledges (response res) c x \<longrightarrow> c = cid)"

lemma own_phase_holds: "own_phase cid ph \<Longrightarrow> holds c ph \<Longrightarrow> c = cid"
  by (cases ph) auto

definition own_handling :: "string \<Rightarrow> request \<Rightarrow> phase \<Rightarrow> bool" where
  "own_handling cid rq ph \<longleftrightarrow> body_conversation (rq_raw rq) \<in> {None, Some cid} \<and> rq_conversation rq = cid \<and> own_phase cid ph"

definition connection_ok :: "'u connection \<Rightarrow> bool" where
  "connection_ok c \<longleftrightarrow>
     (case cn_handling c of None \<Rightarrow> True
      | Some (rq, ph) \<Rightarrow> cn_stage c = Open \<and> cn_phase c = Receiving \<and> own_handling (cn_conversation c) rq ph)
     \<and> (case cn_phase c of Responding res \<Rightarrow> own_phase (cn_conversation c) (Answered (Inr res)) | _ \<Rightarrow> True)"

lemma connection_handling:
  assumes "connection_ok c" and "cn_handling c = Some (rq, ph)"
  shows "cn_stage c = Open" "cn_phase c = Receiving" "own_handling (cn_conversation c) rq ph" "owning c"
    and "holds d ph \<Longrightarrow> cn_conversation c = d \<and> in_flight c"
proof -
  show h: "cn_stage c = Open" "cn_phase c = Receiving" "own_handling (cn_conversation c) rq ph"
    using assms by (simp_all add: connection_ok_def)
  then show "owning c" by (simp add: owning_def)
  assume d: "holds d ph"
  then have "d = cn_conversation c" using h(3) own_phase_holds unfolding own_handling_def by blast
  then show "cn_conversation c = d \<and> in_flight c" using d assms(2) by (simp add: in_flight_def)
qed

lemma own_answered_error:
  "own_phase cid (answered rq (Inl e))"
  "own_phase cid (answered rq (send_failure now c e))"
  "own_phase cid (answered rq (out_of_order_result now c x))"
  "own_phase cid (answered rq (validation_failure P now c es))"
proof -
  obtain s d tms where f: "send_failure now c e = Inr (error_outcome s now c d tms)"
    using send_failure_outcome by metis
  have none: "acknowledges (response (error_outcome s now cid d ts)) c = (\<lambda>n. False)" for s now cid d ts c
    by (simp add: fun_eq_iff error_not_ack)
  show "own_phase cid (answered rq (Inl e))" by (simp add: answered_def internal_outcome none)
  show "own_phase cid (answered rq (send_failure now c e))" by (simp add: f none)
  show "own_phase cid (answered rq (out_of_order_result now c x))" by (simp add: out_of_order_outcome none)
  show "own_phase cid (answered rq (validation_failure P now c es))" by (simp add: validation_failure_outcome none)
qed

lemma own_handler_step:
  assumes P: "pydantic_ok P" and own: "own_handling cid rq ph" and step: "handler_step P S K rq ph x = (ph', x')"
  shows "own_handling cid rq ph'"
proof -
  obtain s k where x: "x = (s, k)" by fastforce
  have valid: "conversationId (metaData m) = cid" if "model_validate P (rq_raw rq) = Inr m" for m
    using body_conversation_valid [OF P that] own by (auto simp: own_handling_def)
  have begin_own: "own_phase cid (fst (begin_step P S rq s))"
    using valid own_answered_error
    by (auto simp: begin_step_def Let_def idempotent_result_def acknowledges_ack split: sum.splits prod.splits)
  have "own_phase cid ph'"
    using step own begin_own own_answered_error unfolding x
    by (cases ph) (auto simp: own_handling_def Let_def ongoing_result_def complete_result_def acknowledges_ack
        split: sum.splits prod.splits if_splits)
  then show ?thesis using own by (simp add: own_handling_def)
qed

section \<open>Receiving, split from handling\<close>

text \<open>What a receive step does with the orchestrator is to call it at most once, with what the noted call has.\<close>

lemma receive_step_deferred:
  defines "d st \<equiv> \<lparr>sock = sock st, orch = None, own = (), phase = phase st, refreshing = refreshing st\<rparr>"
  shows "receive_step W J handle cid st = (let e = receive_step W J deferred cid (d st) in
    case orch e of
      None \<Rightarrow> st\<lparr>sock := sock e, phase := phase e\<rparr>
    | Some (now, raw, c) \<Rightarrow> (case handle now raw c (orch st) of
        (Inl x, w) \<Rightarrow> st\<lparr>sock := sock e, orch := w, phase := Finished (Some x)\<rparr>
      | (Inr result, w) \<Rightarrow> st\<lparr>sock := sock e, orch := w, phase := Responding result\<rparr>))"
proof -
  have dis: "dispatch_frame W J handle cid raw (st\<lparr>sock := u\<rparr>) = (let e = dispatch_frame W J deferred cid raw (d st\<lparr>sock := u\<rparr>) in
    case orch e of
      None \<Rightarrow> st\<lparr>sock := sock e, phase := phase e\<rparr>
    | Some (now, raw, c) \<Rightarrow> (case handle now raw c (orch st) of
        (Inl x, w) \<Rightarrow> st\<lparr>sock := sock e, orch := w, phase := Finished (Some x)\<rparr>
      | (Inr result, w) \<Rightarrow> st\<lparr>sock := sock e, orch := w, phase := Responding result\<rparr>))" for raw u
    by (simp add: dispatch_frame_def deferred_def d_def split: prod.splits sum.splits)
  have rej: "reject_frame W J cid sc x (st\<lparr>sock := u\<rparr>) = (let e = reject_frame W J cid sc x (d st\<lparr>sock := u\<rparr>) in
      st\<lparr>sock := sock e, phase := phase e\<rparr>)" "orch (reject_frame W J cid sc x (d st\<lparr>sock := u\<rparr>)) = None" for sc x u
    by (simp_all add: reject_frame_def d_def split: sum.splits)
  obtain r u where r: "ws_receive_text W (sock st) = (r, u)" by fastforce
  have d: "sock (d st) = sock st" by (simp add: d_def)
  show ?thesis
  proof (cases r)
    case (Inl e)
    then show ?thesis by (simp add: receive_step_def r d) (simp add: d_def)
  next
    case (Inr t)
    show ?thesis
    proof (cases "loads J t")
      case (Inl e)
      then show ?thesis
        using r d \<open>r = Inr t\<close> rej by (cases e) (simp_all add: receive_step_def Let_def, simp_all add: d_def)
    next
      case raw: (Inr raw)
      note rd = receive_step_def r d \<open>r = Inr t\<close> raw format_details_mismatch
      show ?thesis
        by (cases "body_conversation raw") (simp_all add: rd rej dis Let_def split: option.splits)
    qed
  qed
qed

lemma deferred_request:
  assumes "orch (receive_step W J deferred cid st) = Some (now, raw, c)" and "orch st = None"
  shows "c = cid \<and> body_conversation raw \<in> {None, Some cid}"
  using assms
  by (auto simp: receive_step_def Let_def reject_frame_def dispatch_frame_def deferred_def
      split: prod.splits sum.splits exn.splits option.splits if_splits)

lemma deferred_phase:
  assumes "orch (receive_step W J deferred cid st) = None"
  shows "phase (receive_step W J deferred cid st) \<noteq> Responding res"
  using assms
  by (auto simp: receive_step_def Let_def reject_frame_def dispatch_frame_def deferred_def
      split: prod.splits sum.splits exn.splits option.splits if_splits)

lemma respond_phase: "phase (respond_step W J result st) \<noteq> Responding res"
  by (auto simp: respond_step_def Let_def split: prod.splits sum.splits)

lemma refresh_phase [simp]: "phase (refresh_step W J G cid tok st) = phase st"
  by (simp add: refresh_step_def split: prod.splits sum.splits)

section \<open>The invariant of the whole\<close>

text \<open>
  The handlers are the tasks of a run of the fleet; connections are well formed, with distinct tokens; and with \<open>keep\<close>, whoever
  has claimed a conversation and not given it up owns it.
\<close>

definition owners_kept :: "'d redis_ops \<Rightarrow> ('w \<Rightarrow> 'd) \<Rightarrow> string \<Rightarrow> ('u, 'w, 'k) world \<Rightarrow> bool" where
  "owners_kept R db q w \<longleftrightarrow> (\<forall>j < length (w_connections w). owning (w_connections w ! j) \<longrightarrow>
     fleet_owner R db q (cn_conversation (w_connections w ! j)) (guard_world w) = Some (cn_token (w_connections w ! j)))"

definition connections_ok :: "'u connection list \<Rightarrow> bool" where
  "connections_ok cs \<longleftrightarrow> distinct (map cn_token cs) \<and> (\<forall>c \<in> set cs. connection_ok c)"

lemma connections_ok_update:
  assumes "connections_ok cs" and "j < length cs" and "cn_token c = cn_token (cs ! j)" and "connection_ok c"
  shows "connections_ok (cs[j := c])"
proof -
  have "map cn_token (cs[j := c]) = map cn_token cs"
    using assms(2,3) by (metis list_update_id map_update nth_map)
  then show ?thesis using assms set_update_subset_insert [of cs j c] unfolding connections_ok_def by auto
qed

lemma connections_ok_nth: "connections_ok cs \<Longrightarrow> j < length cs \<Longrightarrow> connection_ok (cs ! j)"
  by (simp add: connections_ok_def)

lemma connections_ok_token:
  "connections_ok cs \<Longrightarrow> j < length cs \<Longrightarrow> l < length cs \<Longrightarrow> cn_token (cs ! j) = cn_token (cs ! l) \<Longrightarrow> j = l"
  unfolding connections_ok_def by (metis length_map nth_eq_iff_index_eq nth_map)

locale composed_service = deployment R C db sha up loaded A J records inflight P
  for R :: "'d redis_ops" and C :: "'w redis_client" and db :: "'w \<Rightarrow> 'd" and sha :: "lua_script \<Rightarrow> string"
    and up :: "'w \<Rightarrow> bool" and loaded :: "'w \<Rightarrow> lua_script set"
    and A :: "'k aiokafka" and J :: orjson and records :: "'k \<Rightarrow> kafka_record list" and inflight :: "'k \<Rightarrow> kafka_record set"
    and P :: pydantic +
  fixes W :: "'u ws_ops" and ts :: "string \<Rightarrow> string" and p :: string and q :: string and tpc :: string
  assumes separate: "separate_prefixes p q"
begin

abbreviation "step \<equiv> composed_step W J P C A ts"
abbreviation "run keep fresh \<equiv> composed_run keep fresh R db records inflight W J P C A ts p q tpc"
abbreviation "fleet keep w0 m w \<equiv>
  Fleet.fleet_run keep R C db sha A J records inflight P p tpc (seq_world w0) (kafka_world w0) m (seq_world w) (kafka_world w)"

definition tracked :: "bool \<Rightarrow> ('u, 'w, 'k) world \<Rightarrow> nat \<Rightarrow> ('u, 'w, 'k) world \<Rightarrow> bool" where
  "tracked keep w0 n w \<longleftrightarrow> (\<exists>m tsk f. m \<le> n \<and> fleet keep w0 m w tsk \<and> tracks tsk (w_connections w) f)"

definition composed_inv :: "bool \<Rightarrow> ('u, 'w, 'k) world \<Rightarrow> nat \<Rightarrow> ('u, 'w, 'k) world \<Rightarrow> bool" where
  "composed_inv keep w0 n w \<longleftrightarrow> tracked keep w0 n w \<and> fleet_guards_ok sha q (guard_world w) \<and> connections_ok (w_connections w)
     \<and> (keep \<longrightarrow> owners_kept R db q w)"

text \<open>A step that leaves counters and topic alone, and at most ends the handler of its connection.\<close>

lemma tracked_quiet:
  assumes t: "tracked keep w0 n w" and same: "seq_world w' = seq_world w" "kafka_world w' = kafka_world w"
    and cs: "w_connections w' = (w_connections w)[j := c]"
      "cn_handling c = cn_handling (w_connections w ! j) \<and> cn_instance c = cn_instance (w_connections w ! j)
        \<or> cn_handling c = None \<and> (\<forall>rq ph d. cn_handling (w_connections w ! j) = Some (rq, ph) \<longrightarrow> \<not> holds d ph)"
  shows "tracked keep w0 (Suc n) w'"
  using t tracks_update [OF _ cs(2)] unfolding tracked_def same cs(1) by (metis le_SucI)

text \<open>The counters after an operation of a guard.\<close>

lemma tracked_counters:
  assumes t: "tracked keep w0 n w" and ok: "fleet_ok R db sha p (w_sequence w, redis)"
    and e: "\<And>c. fleet_expected R db p c (w_sequence w, redis) = fleet_expected R db p c (seq_world w)
      \<or> fleet_expected R db p c (w_sequence w, redis) = 0 \<and> \<not> (keep \<and> (\<exists>j < length (w_connections w).
          cn_conversation (w_connections w ! j) = c \<and> in_flight (w_connections w ! j)))"
    and cn: "connections_ok (w_connections w)"
    and same: "w_sequence w' = w_sequence w" "w_redis w' = redis" "kafka_world w' = kafka_world w" "w_connections w' = w_connections w"
  shows "tracked keep w0 n w'"
proof -
  obtain m tsk f where m: "m \<le> n" "fleet keep w0 m w tsk" "tracks tsk (w_connections w) f" using t unfolding tracked_def by blast
  have free: "list_all (\<lambda>t. \<not> holds c (tk_phase t)) tsk"
    if keep: "keep" "\<not> (\<exists>j < length (w_connections w). cn_conversation (w_connections w ! j) = c \<and> in_flight (w_connections w ! j))" for c
    unfolding list_all_length
  proof (intro allI impI notI)
    fix l assume l: "l < length tsk" "holds c (tk_phase (tsk ! l))"
    then obtain j where j: "j < length (w_connections w)" "cn_handling (w_connections w ! j) \<noteq> None" "f j = l"
      using tracksD(3) [OF m(3)] by blast
    then obtain rq ph where h: "cn_handling (w_connections w ! j) = Some (rq, ph)" by force
    have "holds c ph" using l(2) j(3) tracksD(1) [OF m(3) j(1) h] by (simp add: task_of_def)
    moreover have "connection_ok (w_connections w ! j)" using cn j(1) by (simp add: connections_ok_def)
    ultimately show False using keep(2) j(1) h connection_handling(5) by blast
  qed
  have "fleet keep w0 m w' tsk"
    using interleaved.expires [OF m(2) [unfolded Fleet.fleet_run_def] ok] e free
    unfolding Fleet.fleet_run_def same by blast
  then show ?thesis using m same(4) unfolding tracked_def by metis
qed

text \<open>The other connections under an operation of a guard for connection \<open>j\<close>.\<close>

lemma owners_claimed:
  assumes guards: "fleet_guards_ok sha q (guard_world w)" and cn: "connections_ok (w_connections w)" and own: "owners_kept R db q w"
    and j: "j < length (w_connections w)" "c = w_connections w ! j"
    and run: "g_claim_or_refresh (fleet_guard C i) (cn_conversation c) (cn_token c) (guard_world w) = (r, g)"
  shows "fleet_guards_ok sha q g" and "owners_kept R db q (set_guards g w)"
    and "r = Inr True \<Longrightarrow> fleet_owner R db q (cn_conversation c) g = Some (cn_token c)"
proof -
  note claim = owners.claim_frame [OF guards run] owners.claim_owner [OF guards run] owners.claim_other [OF guards run]
  show "fleet_guards_ok sha q g" using claim(1) by blast
  show "r = Inr True \<Longrightarrow> fleet_owner R db q (cn_conversation c) g = Some (cn_token c)"
    using owners.claim_granted [OF guards] run by blast
  show "owners_kept R db q (set_guards g w)"
    unfolding owners_kept_def
  proof (intro allI impI)
    fix l
    assume l: "l < length (w_connections (set_guards g w))" "owning (w_connections (set_guards g w) ! l)"
    let ?d = "w_connections w ! l"
    have old: "fleet_owner R db q (cn_conversation ?d) (guard_world w) = Some (cn_token ?d)"
      using own l by (simp add: owners_kept_def)
    show "fleet_owner R db q (cn_conversation (w_connections (set_guards g w) ! l)) (guard_world (set_guards g w))
        = Some (cn_token (w_connections (set_guards g w) ! l))"
    proof (cases "cn_conversation ?d = cn_conversation c")
      case False
      then show ?thesis using old claim(1) by simp
    next
      case True
      show ?thesis
      proof (cases "cn_token ?d = cn_token c")
        case True
        then show ?thesis using old claim(2) \<open>cn_conversation ?d = cn_conversation c\<close> by auto
      next
        case False
        then show ?thesis using old claim(3) True by simp
      qed
    qed
  qed
qed

lemma owners_released:
  assumes guards: "fleet_guards_ok sha q (guard_world w)" and cn: "connections_ok (w_connections w)" and own: "owners_kept R db q w"
    and j: "j < length (w_connections w)" "c = w_connections w ! j"
    and run: "g_release (fleet_guard C i) (cn_conversation c) (cn_token c) (guard_world w) = (r, g)"
    and over: "\<not> owning c'"
  shows "fleet_guards_ok sha q g" and "owners_kept R db q (set_connection j c' (set_guards g w))"
proof -
  note rel = owners.release_frame [OF guards run] owners.release_other [OF guards run]
  show "fleet_guards_ok sha q g" using rel(1) by blast
  show "owners_kept R db q (set_connection j c' (set_guards g w))"
    unfolding owners_kept_def
  proof (intro allI impI)
    fix l
    assume l: "l < length (w_connections (set_connection j c' (set_guards g w)))"
      "owning (w_connections (set_connection j c' (set_guards g w)) ! l)"
    then have n: "l \<noteq> j" "l < length (w_connections w)" "owning (w_connections w ! l)" using over j by (auto simp: nth_updated split: if_splits)
    let ?d = "w_connections w ! l"
    have "cn_token ?d \<noteq> cn_token c"
      using connections_ok_token [OF cn n(2) j(1)] n(1) j(2) by blast
    moreover have "fleet_owner R db q (cn_conversation ?d) (guard_world w) = Some (cn_token ?d)"
      using own n by (simp add: owners_kept_def)
    ultimately show "fleet_owner R db q (cn_conversation (w_connections (set_connection j c' (set_guards g w)) ! l))
        (guard_world (set_connection j c' (set_guards g w))) = Some (cn_token (w_connections (set_connection j c' (set_guards g w)) ! l))"
      using n(1) rel by (cases "cn_conversation ?d = cn_conversation c") auto
  qed
qed

lemma tracked_invariant:
  assumes t: "tracked keep w0 n w" and start: "composed_start R db sha J records inflight p q tpc w0" and small: "int n < exact_limit"
  shows "fleet_ok R db sha p (seq_world w)"
    and "j < length (w_connections w) \<Longrightarrow> cn_handling (w_connections w ! j) = Some (rq, ph) \<Longrightarrow>
      phase_ok (int n) (fleet_delivered J records tpc (kafka_world w)) ph"
proof -
  obtain m tsk f where m: "m \<le> n" "fleet keep w0 m w tsk" "tracks tsk (w_connections w) f" using t unfolding tracked_def by blast
  have "int m < exact_limit" using m(1) small by simp
  note inv = fleet_invariant [OF deployment_axioms _ m(2) this]
  show "fleet_ok R db sha p (seq_world w)" using inv start by (simp add: composed_start_def)
  assume j: "j < length (w_connections w)" "cn_handling (w_connections w ! j) = Some (rq, ph)"
  have "tsk ! f j \<in> set tsk" "tk_phase (tsk ! f j) = ph" using tracksD(1) [OF m(3) j] by (metis nth_mem, simp add: task_of_def)
  then have "phase_ok (int m) (fleet_delivered J records tpc (kafka_world w)) ph"
    using inv start by (auto simp: composed_start_def)
  then show "phase_ok (int n) (fleet_delivered J records tpc (kafka_world w)) ph"
    using phase_ok_mono [where xs = "[]"] m(1) by fastforce
qed

lemma tracked_guards:
  assumes t: "tracked keep w0 n w" and start: "composed_start R db sha J records inflight p q tpc w0" and small: "int n < exact_limit"
    and guards: "fleet_guards_ok sha q (guard_world w)" and cn: "connections_ok (w_connections w)"
    and op: "g_claim_or_refresh (fleet_guard C i) cid tok (guard_world w) = (r, g)
      \<or> g_release (fleet_guard C i) cid tok (guard_world w) = (ru, g)"
  shows "tracked keep w0 n (set_guards g w)"
proof -
  obtain gs redis where g: "g = (gs, redis)" by fastforce
  note c = guard_ops_counters [OF tracked_invariant(1) [OF t start small] guards separate op [unfolded g]]
  show ?thesis
    by (rule tracked_counters [OF t, of redis]) (use c cn g in auto)
qed

text \<open>A step of a handler; with \<open>keep\<close> it is alone, for only the owner of its conversation has a handler under way.\<close>

lemma handler_alone:
  assumes m: "tracks tsk (w_connections w) f" and cn: "connections_ok (w_connections w)" and own: "owners_kept R db q w"
    and j: "j < length (w_connections w)" "cn_handling (w_connections w ! j) = Some (rq, ph)"
  shows "alone P tsk (f j)"
proof (cases "ph = Arrived")
  case False
  then show ?thesis using tracksD(1) [OF m j] by (simp add: alone_def task_of_def)
next
  case True
  let ?c = "w_connections w ! j"
  have "\<not> holds (conversationId (metaData msg)) (tk_phase t)"
    if msg: "model_validate P (rq_raw rq) = Inr msg" and "t \<in> set tsk" for msg t
  proof
    assume h: "holds (conversationId (metaData msg)) (tk_phase t)"
    obtain l where l: "l < length tsk" "tsk ! l = t" using \<open>t \<in> set tsk\<close> by (auto simp: in_set_conv_nth)
    obtain i where i: "i < length (w_connections w)" "cn_handling (w_connections w ! i) \<noteq> None" "f i = l"
      using tracksD(3) [OF m l(1)] h l(2) by blast
    then obtain rq' ph' where i': "cn_handling (w_connections w ! i) = Some (rq', ph')" by force
    have ph': "tk_phase t = ph'" using tracksD(1) [OF m i(1) i'] i(3) l(2) by (simp add: task_of_def)
    note ci = connection_handling [OF connections_ok_nth [OF cn i(1)] i'] and cj = connection_handling [OF connections_ok_nth [OF cn j(1)] j(2)]
    have "conversationId (metaData msg) = cn_conversation ?c"
      using body_conversation_valid [OF deployed_pydantic msg] cj(3) by (auto simp: own_handling_def)
    then have "cn_conversation (w_connections w ! i) = cn_conversation ?c" using ci(5) h ph' by simp
    then have "cn_token (w_connections w ! i) = cn_token ?c"
      using own i(1) j(1) ci(4) cj(4) unfolding owners_kept_def by (metis option.inject)
    then have "i = j" using connections_ok_token [OF cn i(1) j(1)] by simp
    then show False using i' j(2) True h ph' by simp
  qed
  then show ?thesis
    using tracksD(1) [OF m j] by (auto simp: alone_def task_of_def list_all_iff split: sum.splits)
qed

lemma inv_handle:
  assumes inv: "composed_inv keep w0 n w" and start: "composed_start R db sha J records inflight p q tpc w0" and small: "int n < exact_limit"
    and j: "j < length (w_connections w)" "cn_handling (w_connections w ! j) = Some (rq, ph)"
  shows "composed_inv keep w0 (Suc n) (handle_step J P C A j rq ph w)"
proof -
  let ?c = "w_connections w ! j"
  have t: "tracked keep w0 n w" and guards: "fleet_guards_ok sha q (guard_world w)" and cn: "connections_ok (w_connections w)"
    and own: "keep \<Longrightarrow> owners_kept R db q w" using inv by (simp_all add: composed_inv_def)
  obtain m tsk f where m: "m \<le> n" "fleet keep w0 m w tsk" "tracks tsk (w_connections w) f" using t unfolding tracked_def by blast
  obtain ph' sms redis ps kafka where h: "handler_step P (fleet_sequence C (cn_instance ?c)) (fleet_producer A J (cn_instance ?c)) rq ph
      (seq_world w, kafka_world w) = (ph', (sms, redis), (ps, kafka))" by (metis prod_cases5 surj_pair)
  define w' where "w' = handle_step J P C A j rq ph w"
  have w': "w' = set_connection j (?c\<lparr>cn_handling := Some (rq, ph')\<rparr>)
      (w\<lparr>w_sequence := sms, w_redis := redis, w_producers := ps, w_kafka := kafka\<rparr>)"
    by (simp add: w'_def handle_step_def h)
  note fj = tracksD(1) [OF m(3) j]
  have "fleet keep w0 (Suc m) w' (tsk[f j := (tsk ! f j)\<lparr>tk_phase := ph'\<rparr>])"
    unfolding Fleet.fleet_run_def
    using interleaved.moves [OF m(2) [unfolded Fleet.fleet_run_def], of "f j" ph' "(sms, redis)" "(ps, kafka)"] fj h
      handler_alone [OF m(3) cn own j] by (simp add: w' task_of_def)
  moreover have "tracks (tsk[f j := (tsk ! f j)\<lparr>tk_phase := ph'\<rparr>]) (w_connections w') f"
    using tracks_move [OF m(3) j, of "?c\<lparr>cn_handling := Some (rq, ph')\<rparr>" ph'] by (simp add: w')
  ultimately have "tracked keep w0 (Suc n) w'" using m(1) unfolding tracked_def by (metis Suc_le_mono)
  moreover have "connections_ok (w_connections w')"
    using connections_ok_update [OF cn j(1), of "?c\<lparr>cn_handling := Some (rq, ph')\<rparr>"] connections_ok_nth [OF cn j(1)]
      own_handler_step [OF deployed_pydantic _ h] j(2) by (simp add: w' connection_ok_def)
  moreover have "fleet_guards_ok sha q (guard_world w')" using fleet_guards_world [OF guards] by (simp add: w')
  moreover have "owners_kept R db q w'" if keep
  proof -
    have "r_get R (guard_key q d) (db redis) = r_get R (guard_key q d) (db (w_redis w))" for d
      by (rule handler_step_owner [OF tracked_invariant(1) [OF t start small] separate h])
    then show ?thesis
      using own [OF that] j(1) by (auto simp: owners_kept_def w' fleet_owner_def nth_updated owning_def)
  qed
  ultimately show ?thesis by (simp add: composed_inv_def w'_def)
qed

text \<open>Steps of one connection that leave the stores and its handler alone.\<close>

lemma inv_quiet:
  assumes inv: "composed_inv keep w0 n w" and j: "j < length (w_connections w)"
    and same: "seq_world w' = seq_world w" "kafka_world w' = kafka_world w" "guard_world w' = guard_world w"
      "w_connections w' = (w_connections w)[j := c]"
    and c: "cn_token c = cn_token (w_connections w ! j)" "cn_conversation c = cn_conversation (w_connections w ! j)"
      "cn_instance c = cn_instance (w_connections w ! j)" "owning c \<Longrightarrow> owning (w_connections w ! j)" "connection_ok c"
    and h: "cn_handling c = cn_handling (w_connections w ! j)
      \<or> cn_handling c = None \<and> (\<forall>rq ph d. cn_handling (w_connections w ! j) = Some (rq, ph) \<longrightarrow> \<not> holds d ph)"
  shows "composed_inv keep w0 (Suc n) w'"
proof -
  have t: "tracked keep w0 n w" and guards: "fleet_guards_ok sha q (guard_world w)" and cn: "connections_ok (w_connections w)"
    and own: "keep \<Longrightarrow> owners_kept R db q w" using inv by (simp_all add: composed_inv_def)
  have "tracked keep w0 (Suc n) w'" by (rule tracked_quiet [OF t same(1,2,4)]) (use h c(3) in auto)
  moreover have "connections_ok (w_connections w')" using connections_ok_update [OF cn j c(1,5)] same(4) by simp
  moreover have "owners_kept R db q w'" if keep
    using own [OF that] c(1,2,4) same(3,4) unfolding owners_kept_def by (simp add: nth_updated)
  ultimately show ?thesis using guards same(3) by (simp add: composed_inv_def)
qed

lemma inv_guards:
  assumes inv: "composed_inv keep w0 n w" and start: "composed_start R db sha J records inflight p q tpc w0" and small: "int n < exact_limit"
    and j: "j < length (w_connections w)" "c = w_connections w ! j"
    and c': "cn_token c' = cn_token c" "cn_conversation c' = cn_conversation c" "cn_instance c' = cn_instance c"
      "cn_handling c' = cn_handling c" "connection_ok c'"
    and op: "g_claim_or_refresh (fleet_guard C i) (cn_conversation c) (cn_token c) (guard_world w) = (r, g) \<and> (owning c' \<longrightarrow> owning c \<or> r = Inr True)
      \<or> g_release (fleet_guard C i) (cn_conversation c) (cn_token c) (guard_world w) = (ru, g) \<and> \<not> owning c'"
  shows "composed_inv keep w0 (Suc n) (set_connection j c' (set_guards g w))"
proof -
  have t: "tracked keep w0 n w" and guards: "fleet_guards_ok sha q (guard_world w)" and cn: "connections_ok (w_connections w)"
    and own: "keep \<Longrightarrow> owners_kept R db q w" using inv by (simp_all add: composed_inv_def)
  have "tracked keep w0 n (set_guards g w)" using tracked_guards [OF t start small guards cn] op by blast
  then have "tracked keep w0 (Suc n) (set_connection j c' (set_guards g w))"
    by (rule tracked_quiet [where c = c' and j = j]) (use c' j(2) in auto)
  moreover have "connections_ok ((w_connections w)[j := c'])" by (rule connections_ok_update [OF cn j(1)]) (use c' j(2) in auto)
  moreover have "fleet_guards_ok sha q g"
    using owners.claim_frame [OF guards] owners.release_frame [OF guards] op by blast
  moreover have "owners_kept R db q (set_connection j c' (set_guards g w))" if k: keep
    using op
  proof
    assume "g_claim_or_refresh (fleet_guard C i) (cn_conversation c) (cn_token c) (guard_world w) = (r, g) \<and> (owning c' \<longrightarrow> owning c \<or> r = Inr True)"
    then have run: "g_claim_or_refresh (fleet_guard C i) (cn_conversation c) (cn_token c) (guard_world w) = (r, g)"
      and o: "owning c' \<longrightarrow> owning c \<or> r = Inr True" by simp_all
    note cl = owners_claimed [OF guards cn own [OF k] j run]
    have "owning c' \<Longrightarrow> fleet_owner R db q (cn_conversation c) g = Some (cn_token c)"
      using o cl(2,3) j by (auto simp: owners_kept_def)
    then show ?thesis using cl(2) c'(1,2) j by (auto simp: owners_kept_def nth_updated)
  next
    assume "g_release (fleet_guard C i) (cn_conversation c) (cn_token c) (guard_world w) = (ru, g) \<and> \<not> owning c'"
    then show ?thesis using owners_released(2) [OF guards cn own [OF k] j] by blast
  qed
  ultimately show ?thesis by (simp add: composed_inv_def)
qed

lemma inv_later: "composed_inv keep w0 n w \<Longrightarrow> composed_inv keep w0 (Suc n) w"
  unfolding composed_inv_def tracked_def by (metis le_SucI)

lemma inv_connects:
  assumes inv: "composed_inv keep w0 n w" and new: "tok \<notin> cn_token ` set (w_connections w)"
  shows "composed_inv keep w0 (Suc n) (step (Connects i cid tok u) w)"
proof -
  let ?c = "\<lparr>cn_instance = i, cn_conversation = cid, cn_token = tok, cn_stage = Claiming, cn_sock = u, cn_phase = Receiving,
       cn_refreshing = False, cn_handling = None\<rparr>"
  have "tracked keep w0 (Suc n) (step (Connects i cid tok u) w)"
    using inv tracks_connect [of _ "w_connections w" _ ?c] unfolding composed_inv_def tracked_def by (simp) (metis le_SucI)
  moreover have "connections_ok (w_connections w @ [?c])"
    using inv new by (auto simp: composed_inv_def connections_ok_def connection_ok_def)
  moreover have "owners_kept R db q (step (Connects i cid tok u) w)" if keep
    using inv that by (auto simp: composed_inv_def owners_kept_def nth_append less_Suc_eq owning_def)
  ultimately show ?thesis using inv by (simp add: composed_inv_def)
qed

lemma connection_ok_idle:
  assumes "connection_ok c" and "cn_stage c \<noteq> Open" and "cn_conversation c' = cn_conversation c" "cn_handling c' = cn_handling c"
    and "cn_phase c' = cn_phase c \<or> cn_phase c' = Receiving"
  shows "connection_ok c'"
  using assms by (auto simp: connection_ok_def simp del: own_phase.simps split: option.splits loop_phase.splits)

lemma connection_ok_taken:
  assumes "connection_ok c" and "phase st = cn_phase c"
  shows "connection_ok (take_session st c)"
  using assms by (auto simp: connection_ok_def take_session_def split: option.splits loop_phase.splits)

lemma inv_claim:
  assumes inv: "composed_inv keep w0 n w" and start: "composed_start R db sha J records inflight p q tpc w0" and small: "int n < exact_limit"
    and j: "j < length (w_connections w)"
  shows "composed_inv keep w0 (Suc n) (claim_step C j w)"
proof (cases "cn_stage (w_connections w ! j) = Claiming")
  case False
  then show ?thesis using inv_later [OF inv] by (simp add: claim_step_def)
next
  case True
  let ?c = "w_connections w ! j"
  obtain r g where op: "g_claim_or_refresh (fleet_guard C (cn_instance ?c)) (cn_conversation ?c) (cn_token ?c) (guard_world w) = (r, g)"
    by (rule prod.exhaust)
  have ok: "connection_ok (?c\<lparr>cn_stage := (if r = Inr True then Opening else Closed)\<rparr>)"
    by (rule connection_ok_idle [of ?c]) (use inv j True in \<open>simp_all add: composed_inv_def connections_ok_nth\<close>)
  have "composed_inv keep w0 (Suc n) (set_connection j (?c\<lparr>cn_stage := (if r = Inr True then Opening else Closed)\<rparr>) (set_guards g w))"
    by (rule inv_guards [where r = r and i = "cn_instance ?c", OF inv start small j refl _ _ _ _ ok]) (use op in \<open>auto simp: owning_def split: if_splits\<close>)
  then show ?thesis using True op by (simp add: claim_step_def)
qed

lemma inv_open:
  assumes inv: "composed_inv keep w0 n w" and start: "composed_start R db sha J records inflight p q tpc w0" and small: "int n < exact_limit"
    and j: "j < length (w_connections w)"
  shows "composed_inv keep w0 (Suc n) (open_step W C j w)"
proof (cases "cn_stage (w_connections w ! j) = Opening")
  case False
  then show ?thesis using inv_later [OF inv] by (simp add: open_step_def Let_def)
next
  case True
  let ?c = "w_connections w ! j"
  obtain r u where acc: "ws_accept W (cn_sock ?c) = (r, u)" by fastforce
  obtain ru g where op: "g_release (fleet_guard C (cn_instance ?c)) (cn_conversation ?c) (cn_token ?c) (guard_world w) = (ru, g)"
    by (rule prod.exhaust)
  have c: "connection_ok ?c" using inv j by (simp add: composed_inv_def connections_ok_nth)
  show ?thesis
  proof (cases r)
    case (Inl e)
    have ok: "connection_ok (?c\<lparr>cn_sock := u, cn_stage := Closed\<rparr>)"
      by (rule connection_ok_idle [OF c]) (use True in simp_all)
    have "composed_inv keep w0 (Suc n) (set_connection j (?c\<lparr>cn_sock := u, cn_stage := Closed\<rparr>) (set_guards g w))"
      by (rule inv_guards [where ru = ru and i = "cn_instance ?c", OF inv start small j refl _ _ _ _ ok]) (use op in \<open>auto simp: owning_def\<close>)
    then show ?thesis using True acc Inl op by (simp add: open_step_def release_ownership_guard_def Let_def)
  next
    case (Inr x)
    have ok: "connection_ok (?c\<lparr>cn_sock := u, cn_stage := Open, cn_phase := Receiving, cn_refreshing := True\<rparr>)"
      by (rule connection_ok_idle [OF c]) (use True in simp_all)
    show ?thesis
      by (rule inv_quiet [OF inv j _ _ _ _ _ _ _ _ ok]) (use True acc Inr in \<open>auto simp: open_step_def owning_def Let_def\<close>)
  qed
qed

lemma inv_renew:
  assumes inv: "composed_inv keep w0 n w" and start: "composed_start R db sha J records inflight p q tpc w0" and small: "int n < exact_limit"
    and j: "j < length (w_connections w)"
  shows "composed_inv keep w0 (Suc n) (renew_step W J C j w)"
proof -
  let ?c = "w_connections w ! j"
  define st where "st = refresh_step W J (fleet_guard C (cn_instance ?c)) (cn_conversation ?c) (cn_token ?c) (cn_session ?c () (guard_world w))"
  obtain r g where op: "g_claim_or_refresh (fleet_guard C (cn_instance ?c)) (cn_conversation ?c) (cn_token ?c) (guard_world w) = (r, g)"
    by (rule prod.exhaust)
  have ok: "connection_ok (take_session st ?c)"
    by (rule connection_ok_taken) (use inv j in \<open>simp_all add: composed_inv_def connections_ok_nth st_def cn_session_def\<close>)
  have stay: "cn_token (take_session st ?c) = cn_token ?c" "cn_conversation (take_session st ?c) = cn_conversation ?c"
    "cn_instance (take_session st ?c) = cn_instance ?c" "cn_handling (take_session st ?c) = cn_handling ?c"
    "owning (take_session st ?c) = owning ?c" by (simp_all add: take_session_def owning_def)
  have main: "composed_inv keep w0 (Suc n) (set_connection j (take_session st ?c) (set_guards (own st) w))"
  proof (cases "cn_refreshing ?c")
    case False
    then have "own st = guard_world w" by (simp add: st_def refresh_step_def cn_session_def)
    then show ?thesis by (intro inv_quiet [OF inv j _ _ _ _ _ _ _ _ ok]) (use stay in auto)
  next
    case True
    then have "own st = g" using op by (simp add: st_def refresh_step_def cn_session_def split: sum.splits)
    then show ?thesis by (intro inv_guards [where r = r and i = "cn_instance ?c", OF inv start small j refl _ _ _ _ ok]) (use op stay in auto)
  qed
  then show ?thesis
    using inv_later [OF inv] by (auto simp: renew_step_def Let_def st_def split: loop_phase.splits)
qed

lemma inv_leave:
  assumes inv: "composed_inv keep w0 n w" and j: "j < length (w_connections w)"
  shows "composed_inv keep w0 (Suc n) (leave_step W J j w)"
proof (cases "\<exists>r. cn_stage (w_connections w ! j) = Open \<and> cn_phase (w_connections w ! j) = Finished r")
  case False
  then have "leave_step W J j w = w" by (auto simp: leave_step_def Let_def split: stage.splits loop_phase.splits)
  then show ?thesis using inv_later [OF inv] by simp
next
  case True
  then obtain r where r: "cn_stage (w_connections w ! j) = Open" "cn_phase (w_connections w ! j) = Finished r" by blast
  let ?c = "w_connections w ! j"
  define c' where "c' = ?c\<lparr>cn_stage := Leaving, cn_refreshing := False,
              cn_sock := (case r of
                  None \<Rightarrow> cn_sock ?c
                | Some (WebSocketDisconnect _) \<Rightarrow> cn_sock ?c
                | Some _ \<Rightarrow> send_error_and_close W J (cn_conversation ?c) TRANSPORT_INTERNAL_EXCEPTION None (cn_sock ?c))\<rparr>"
  have c: "connection_ok ?c" using inv j by (simp add: composed_inv_def connections_ok_nth)
  then have "cn_handling ?c = None" using r(2) by (auto simp: connection_ok_def split: option.splits)
  then have ok: "connection_ok c'" using c r(2) by (simp add: connection_ok_def c'_def)
  show ?thesis
    by (rule inv_quiet [OF inv j _ _ _ _ _ _ _ _ ok]) (use r in \<open>auto simp: leave_step_def c'_def owning_def Let_def\<close>)
qed

lemma inv_give_up:
  assumes inv: "composed_inv keep w0 n w" and start: "composed_start R db sha J records inflight p q tpc w0" and small: "int n < exact_limit"
    and j: "j < length (w_connections w)"
  shows "composed_inv keep w0 (Suc n) (give_up_step C j w)"
proof (cases "cn_stage (w_connections w ! j) = Leaving")
  case False
  then show ?thesis using inv_later [OF inv] by (simp add: give_up_step_def Let_def)
next
  case True
  let ?c = "w_connections w ! j"
  obtain ru g where op: "g_release (fleet_guard C (cn_instance ?c)) (cn_conversation ?c) (cn_token ?c) (guard_world w) = (ru, g)"
    by (rule prod.exhaust)
  have ok: "connection_ok (?c\<lparr>cn_stage := Closed\<rparr>)"
    by (rule connection_ok_idle [of ?c]) (use inv j True in \<open>simp_all add: composed_inv_def connections_ok_nth\<close>)
  have "composed_inv keep w0 (Suc n) (set_connection j (?c\<lparr>cn_stage := Closed\<rparr>) (set_guards g w))"
    by (rule inv_guards [where ru = ru and i = "cn_instance ?c", OF inv start small j refl _ _ _ _ ok]) (use op in \<open>auto simp: owning_def\<close>)
  then show ?thesis using True op by (simp add: give_up_step_def release_ownership_guard_def Let_def)
qed

text \<open>The message loop: it receives, or hands the frame to a new handler, or goes on with the one it has, or answers.\<close>

lemma inv_dispatch:
  assumes inv: "composed_inv keep w0 n w" and j: "j < length (w_connections w)"
    and stage: "cn_stage (w_connections w ! j) = Open" "cn_handling (w_connections w ! j) = None" "cn_phase (w_connections w ! j) = Receiving"
    and own: "own_handling (cn_conversation (w_connections w ! j)) rq Arrived"
  shows "composed_inv keep w0 (Suc n) (set_connection j ((w_connections w ! j)\<lparr>cn_sock := u, cn_handling := Some (rq, Arrived)\<rparr>) w)"
proof -
  let ?c = "w_connections w ! j"
  define c' where "c' = ?c\<lparr>cn_sock := u, cn_handling := Some (rq, Arrived)\<rparr>"
  have t: "tracked keep w0 n w" and guards: "fleet_guards_ok sha q (guard_world w)" and cn: "connections_ok (w_connections w)"
    and kept: "keep \<Longrightarrow> owners_kept R db q w" using inv by (simp_all add: composed_inv_def)
  obtain m tsk f where m: "m \<le> n" "fleet keep w0 m w tsk" "tracks tsk (w_connections w) f" using t unfolding tracked_def by blast
  have "fleet keep w0 m (set_connection j c' w) (tsk @ [\<lparr>tk_instance = cn_instance ?c, tk_request = rq, tk_phase = Arrived\<rparr>])"
    using interleaved.arrives [OF m(2) [unfolded Fleet.fleet_run_def]] by (simp add: Fleet.fleet_run_def)
  moreover have "tracks (tsk @ [\<lparr>tk_instance = cn_instance ?c, tk_request = rq, tk_phase = Arrived\<rparr>])
      (w_connections (set_connection j c' w)) (f(j := length tsk))"
    using tracks_dispatch [OF m(3) j stage(2), of c' rq] by (simp add: c'_def)
  ultimately have "tracked keep w0 (Suc n) (set_connection j c' w)" using m(1) unfolding tracked_def by (metis le_SucI)
  moreover have "connections_ok ((w_connections w)[j := c'])"
    using stage own by (intro connections_ok_update [OF cn j]) (simp_all add: c'_def connection_ok_def)
  moreover have "owners_kept R db q (set_connection j c' w)" if keep
    using kept [OF that] j by (auto simp: owners_kept_def c'_def nth_updated owning_def)
  ultimately show ?thesis using guards by (simp add: composed_inv_def c'_def)
qed

lemma inv_taken:
  assumes inv: "composed_inv keep w0 n w" and j: "j < length (w_connections w)"
    and h: "cn_handling (w_connections w ! j) = None" and st: "\<And>res. phase st \<noteq> Responding res"
  shows "composed_inv keep w0 (Suc n) (set_connection j (take_session st (w_connections w ! j)) w)"
proof (rule inv_quiet [OF inv j])
  show "connection_ok (take_session st (w_connections w ! j))"
    using h st by (auto simp: connection_ok_def take_session_def split: loop_phase.splits)
qed (simp_all add: take_session_def owning_def)

lemma inv_run:
  assumes inv: "composed_inv keep w0 n w" and start: "composed_start R db sha J records inflight p q tpc w0" and small: "int n < exact_limit"
    and j: "j < length (w_connections w)"
  shows "composed_inv keep w0 (Suc n) (run_step W J P C A ts j w)"
proof (cases "cn_stage (w_connections w ! j) = Open")
  case False
  then show ?thesis using inv_later [OF inv] by (simp add: run_step_def Let_def)
next
  case stage: True
  let ?c = "w_connections w ! j"
  have c: "connection_ok ?c" using inv j by (simp add: composed_inv_def connections_ok_nth)
  note quiet = inv_taken [OF inv j]
  show ?thesis
  proof (cases "cn_handling ?c")
    case (Some h)
    then obtain rq ph where h: "cn_handling ?c = Some (rq, ph)" by force
    show ?thesis
    proof (cases "\<exists>r. ph = Answered r")
      case False
      then have "run_step W J P C A ts j w = handle_step J P C A j rq ph w"
        using stage h by (intro run_step_handling) auto
      then show ?thesis using inv_handle [OF inv start small j h] by simp
    next
      case True
      then obtain r where r: "ph = Answered r" by blast
      have "composed_inv keep w0 (Suc n) (set_connection j (resume r ?c) w)"
      proof (rule inv_quiet [OF inv j])
        show "connection_ok (resume r ?c)"
          using connection_handling(3) [OF c h] r by (auto simp: connection_ok_def resume_def own_handling_def split: sum.splits)
        show "cn_handling (resume r ?c) = cn_handling ?c \<or> cn_handling (resume r ?c) = None
            \<and> (\<forall>rq ph d. cn_handling ?c = Some (rq, ph) \<longrightarrow> \<not> holds d ph)"
          using h r by (simp add: resume_def)
      qed (simp_all add: resume_def owning_def)
      then show ?thesis using stage h r by (simp add: run_step_def Let_def)
    qed
  next
    case none: None
    show ?thesis
    proof (cases "cn_phase ?c")
      case Receiving
      define st where "st = receive_step W J deferred (cn_conversation ?c) (cn_session ?c None ())"
      have o: "orch (cn_session ?c None ()) = (None :: (string \<times> json \<times> string) option)" by (simp add: cn_session_def)
      show ?thesis
      proof (cases "orch st")
        case None
        then have "phase st \<noteq> Responding res" for res
          using deferred_phase unfolding st_def by blast
        then show ?thesis
          using quiet [OF none, of st] stage none Receiving None
          by (simp add: run_step_def Let_def receive_or_dispatch_def st_def [symmetric])
      next
        case (Some call)
        then obtain now raw cid where s: "orch st = Some (now, raw, cid)" by (metis prod_cases3)
        have "own_handling (cn_conversation ?c) \<lparr>rq_now = now, rq_produced_at = ts now, rq_raw = raw, rq_conversation = cid\<rparr> Arrived"
          using deferred_request [OF s [unfolded st_def] o] by (auto simp: own_handling_def)
        from inv_dispatch [OF inv j stage none Receiving this, of "sock st"] show ?thesis
          using stage none Receiving s by (simp add: run_step_def Let_def receive_or_dispatch_def st_def [symmetric])
      qed
    next
      case (Responding result)
      show ?thesis
        using quiet [OF none, of "respond_step W J result (cn_session ?c () ())"] stage none Responding
        by (simp add: run_step_def Let_def respond_phase)
    next
      case (Finished r)
      then show ?thesis using stage none inv_later [OF inv] by (simp add: run_step_def Let_def)
    qed
  qed
qed

lemma inv_step:
  assumes "composed_inv keep w0 n w" and "composed_start R db sha J records inflight p q tpc w0" and "int n < exact_limit"
    and "event_ok fresh e w"
  shows "composed_inv keep w0 (Suc n) (step e w)"
proof (cases e)
  case (Connects i cid tok u)
  then show ?thesis using inv_connects assms by auto
next
  case (Claims j)
  then show ?thesis using inv_claim [OF assms(1-3)] assms(4) by simp
next
  case (Opens j)
  then show ?thesis using inv_open [OF assms(1-3)] assms(4) by simp
next
  case (Runs j)
  then show ?thesis using inv_run [OF assms(1-3)] assms(4) by simp
next
  case (Renews j)
  then show ?thesis using inv_renew [OF assms(1-3)] assms(4) by simp
next
  case (Leaves j)
  then show ?thesis using inv_leave [OF assms(1)] assms(4) by simp
next
  case (Gives_up j)
  then show ?thesis using inv_give_up [OF assms(1-3)] assms(4) by simp
qed

lemma inv_time:
  assumes inv: "composed_inv keep w0 n w" and start: "composed_start R db sha J records inflight p q tpc w0" and small: "int n < exact_limit"
    and time: "db redis = r_elapse R seconds (db (w_redis w))" and kept: "keep \<longrightarrow> leases_kept R db p q w redis"
  shows "composed_inv keep w0 n (w\<lparr>w_redis := redis\<rparr>)"
proof -
  have t: "tracked keep w0 n w" and guards: "fleet_guards_ok sha q (guard_world w)" and cn: "connections_ok (w_connections w)"
    and own: "keep \<Longrightarrow> owners_kept R db q w" using inv by (simp_all add: composed_inv_def)
  note ok = tracked_invariant(1) [OF t start small]
  note el = elapse_counters [OF ok time]
  have "fleet_expected R db p c (w_sequence w, redis) = fleet_expected R db p c (seq_world w)
      \<or> fleet_expected R db p c (w_sequence w, redis) = 0 \<and> \<not> (keep \<and> (\<exists>j < length (w_connections w).
          cn_conversation (w_connections w ! j) = c \<and> in_flight (w_connections w ! j)))" for c
  proof (cases "keep \<and> (\<exists>j < length (w_connections w). cn_conversation (w_connections w ! j) = c \<and> in_flight (w_connections w ! j))")
    case True
    then have "r_get R (sm_key p c) (db redis) = r_get R (sm_key p c) (db (w_redis w))"
      using kept unfolding leases_kept_def list_all_length by blast
    then show ?thesis by (simp add: fleet_expected_def counter_def)
  next
    case False
    then show ?thesis using el(2) [of c] by blast
  qed
  then have "tracked keep w0 n (w\<lparr>w_redis := redis\<rparr>)" by (intro tracked_counters [OF t el(1) _ cn]) simp_all
  moreover have "owners_kept R db q (w\<lparr>w_redis := redis\<rparr>)" if keep
    using own [OF that] kept that unfolding owners_kept_def leases_kept_def list_all_length fleet_owner_def by simp
  ultimately show ?thesis using fleet_guards_world [OF guards] cn by (simp add: composed_inv_def)
qed

lemma inv_late:
  assumes inv: "composed_inv keep w0 n w"
    and late: "fleet_pending J inflight tpc (w_producers w, kafka) \<subseteq> fleet_pending J inflight tpc (kafka_world w)"
      "set late \<subseteq> fleet_pending J inflight tpc (kafka_world w)"
      "fleet_delivered J records tpc (w_producers w, kafka) = fleet_delivered J records tpc (kafka_world w) @ late"
    and topic: "fleet_topic tpc (kafka_world w)"
  shows "composed_inv keep w0 n (w\<lparr>w_kafka := kafka\<rparr>)"
proof -
  obtain m tsk f where m: "m \<le> n" "fleet keep w0 m w tsk" "tracks tsk (w_connections w) f"
    using inv unfolding composed_inv_def tracked_def by blast
  have "fleet_topic tpc (w_producers w, kafka)" using topic by (simp add: fleet_topic_def)
  from interleaved.comes_late [OF m(2) [unfolded Fleet.fleet_run_def] this late]
  have "fleet keep w0 m (w\<lparr>w_kafka := kafka\<rparr>) tsk" by (simp add: Fleet.fleet_run_def)
  then show ?thesis using m inv unfolding composed_inv_def tracked_def owners_kept_def by auto
qed

lemma run_inv:
  assumes "run keep fresh w0 n w" and start: "composed_start R db sha J records inflight p q tpc w0" and "int n < exact_limit"
  shows "composed_inv keep w0 n w"
  using assms(1,3)
proof (induction rule: composed_run.induct)
  case starts
  have "fleet keep w0 0 w0 []" unfolding Fleet.fleet_run_def by (rule interleaved.nothing)
  then have "tracked keep w0 0 w0"
    using start tracks_start unfolding tracked_def composed_start_def by auto
  then show ?case
    using start by (simp add: composed_inv_def composed_start_def connections_ok_def owners_kept_def)
next
  case (acts n w e)
  then show ?case using inv_step [OF _ start] by simp
next
  case (time_passes n w redis seconds)
  then show ?case using inv_time [OF _ start] by blast
next
  case (arrives_late n w kafka late)
  have inv: "composed_inv keep w0 n w" using arrives_late by simp
  then obtain m tsk f where m: "m \<le> n" "fleet keep w0 m w tsk" unfolding composed_inv_def tracked_def by blast
  have "fleet_topic tpc (kafka_world w)"
    using fleet_invariant [OF deployment_axioms _ m(2)] start m(1) arrives_late.prems by (simp add: composed_start_def)
  then show ?case by (rule inv_late [OF inv arrives_late.hyps(2-4)])
qed

end

end
