(* ===== verification/Wire.thy ===== *)
theory Wire
  imports Composition_Safety
begin

text \<open>
  What the clients of the whole service see: every text that a connection is given to send, and what it says about the
  topic. The sockets are those of \<open>Response_Schema\<close> that keep their texts.
\<close>

section \<open>The topic only grows\<close>

context composed_service
begin

lemma step_kafka:
  assumes "\<And>j rq ph. e = Runs j \<Longrightarrow> cn_handling (w_connections w ! j) = Some (rq, ph) \<Longrightarrow> \<exists>r. ph = Answered r"
  shows "kafka_world (step e w) = kafka_world w"
proof (cases e)
  case (Runs j)
  then show ?thesis
    using assms by (auto simp: run_step_def Let_def split: option.splits loop_phase.splits phase.splits)
qed (auto simp: claim_step_def open_step_def renew_step_def leave_step_def give_up_step_def Let_def
    split: prod.splits sum.splits stage.splits loop_phase.splits)

lemma delivered_grows:
  assumes inv: "composed_inv keep w0 n w" and start: "composed_start R db sha J records inflight p q tpc w0" and small: "int n < exact_limit"
    and e: "event_ok fresh e w"
  shows "\<exists>xs. fleet_delivered J records tpc (kafka_world (step e w)) = fleet_delivered J records tpc (kafka_world w) @ xs"
proof (cases "\<exists>j rq ph. e = Runs j \<and> cn_handling (w_connections w ! j) = Some (rq, ph) \<and> (\<nexists>r. ph = Answered r)")
  case False
  have "kafka_world (step e w) = kafka_world w" by (rule step_kafka) (use False in blast)
  then show ?thesis by (intro exI [of _ "[]"]) (metis append_Nil2)
next
  case True
  then obtain j rq ph where j: "e = Runs j" "cn_handling (w_connections w ! j) = Some (rq, ph)" "\<And>r. ph \<noteq> Answered r" by blast
  let ?c = "w_connections w ! j"
  have len: "j < length (w_connections w)" using e j(1) by simp
  have t: "tracked keep w0 n w" and cn: "connections_ok (w_connections w)" using inv by (simp_all add: composed_inv_def)
  obtain m tsk f where m: "m \<le> n" "fleet keep w0 m w tsk" using t unfolding tracked_def by blast
  have lim: "int m < exact_limit" using m(1) small by simp
  have fi: "fleet_ok R db sha p (seq_world w) \<and> fleet_topic tpc (kafka_world w)
      \<and> delivery_inv (fleet_expected R db p) (fleet_delivered J records tpc) (fleet_pending J inflight tpc) (seq_world w) (kafka_world w)
      \<and> (\<forall>c. fleet_expected R db p c (seq_world w) \<le> int m)"
    using fleet_invariant [OF deployment_axioms _ m(2) lim] start by (simp add: composed_start_def)
  have ph: "phase_ok (int n) (fleet_delivered J records tpc (kafka_world w)) ph"
    by (rule tracked_invariant(2) [OF t start small len j(2)])
  obtain ph' sms redis ps kafka where h: "handler_step P (fleet_sequence C (cn_instance ?c)) (fleet_producer A J (cn_instance ?c)) rq ph
      (seq_world w, kafka_world w) = (ph', (sms, redis), (ps, kafka))" by (metis prod_cases5 surj_pair)
  have le: "fleet_expected R db p c (seq_world w) \<le> int n" for c using fi m(1) by (meson of_nat_mono order_trans)
  have "\<exists>xs. fleet_delivered J records tpc (ps, kafka) = fleet_delivered J records tpc (kafka_world w) @ xs"
    using shared.step_inv [OF h _ _ _ _ small ph] fi le by blast
  moreover have "kafka_world (step e w) = (ps, kafka)"
    using j(1) run_step_handling [OF connection_handling(1) [OF connections_ok_nth [OF cn len] j(2)] j(2,3)] h
    by (simp add: handle_step_def)
  ultimately show ?thesis by simp
qed

end

section \<open>What the texts say\<close>

definition truthful :: "(string \<times> dict) list \<Rightarrow> string \<Rightarrow> dict \<Rightarrow> bool" where
  "truthful D cid d \<longleftrightarrow> (\<forall>c x. acknowledges d c x \<longrightarrow> c = cid \<and> x \<in> set (conversation_log c D))"

definition truthful_texts :: "orjson \<Rightarrow> (string \<times> dict) list \<Rightarrow> string \<Rightarrow> string list \<Rightarrow> bool" where
  "truthful_texts J D cid texts \<longleftrightarrow> list_all (\<lambda>t. \<exists>d. dumps J (JObj d) = Inr t \<and> truthful D cid d) texts"

definition wire_ok :: "orjson \<Rightarrow> (string \<times> dict) list \<Rightarrow> 'u taped connection \<Rightarrow> bool" where
  "wire_ok J D c \<longleftrightarrow> truthful_texts J D (cn_conversation c) (tape (cn_sock c))
     \<and> (case cn_phase c of Responding res \<Rightarrow> truthful D (cn_conversation c) (response res) | _ \<Rightarrow> True)"

lemma truthful_mono: "truthful D cid d \<Longrightarrow> truthful (D @ xs) cid d"
  by (auto simp: truthful_def)

lemma truthful_texts_mono: "truthful_texts J D cid texts \<Longrightarrow> truthful_texts J (D @ xs) cid texts"
  unfolding truthful_texts_def list_all_iff using truthful_mono by blast

lemma wire_ok_mono: "wire_ok J D c \<Longrightarrow> wire_ok J (D @ xs) c"
  by (auto simp: wire_ok_def intro: truthful_texts_mono truthful_mono split: loop_phase.splits)

lemma truthful_texts_snoc: "truthful_texts J D cid (texts @ [t]) \<longleftrightarrow>
    truthful_texts J D cid texts \<and> (\<exists>d. dumps J (JObj d) = Inr t \<and> truthful D cid d)"
  by (auto simp: truthful_texts_def)

lemma truthful_error: "build_response sc now cid d = Inr f \<Longrightarrow> truthful D c f"
  using build_response_frame [of sc d now cid] build_response_error_iff [of sc now cid d]
  by (auto simp: truthful_def acknowledges_def error_frame_def build_error_def meta_event_type_def dict_get_def)

lemma error_close_truthful:
  assumes "truthful_texts J D cid (tape c)"
  shows "truthful_texts J D cid (tape (send_error_and_close (taping W) J conv sc d c))"
proof -
  have closed: "tape (snd (ws_close (taping W) code u)) = tape u" for code u
    using taping_close [of W code u] by (metis prod.collapse)
  have frame: "\<exists>e. dumps J (JObj e) = Inr t \<and> truthful D cid e"
    if "build_response sc now conv d = Inr f" "dumps J (JObj f) = Inr t" for now f t
    using that truthful_error by blast
  show ?thesis
    using assms frame
    by (auto simp: send_error_and_close_def closed truthful_texts_snoc split: sum.splits prod.splits dest!: taping_send)
qed

lemma reject_truthful:
  "truthful_texts J D cid (tape (sock st)) \<Longrightarrow> truthful_texts J D cid (tape (sock (reject_frame (taping W) J conv sc d st)))"
  by (simp add: reject_frame_def error_close_truthful split: sum.splits)

lemma receive_truthful:
  assumes "truthful_texts J D cid (tape (sock st))"
  shows "truthful_texts J D cid (tape (sock (receive_step (taping W) J deferred conv st)))"
proof -
  obtain r u where r: "ws_receive_text (taping W) (sock st) = (r, u)" by fastforce
  have u: "truthful_texts J D cid (tape (sock (st\<lparr>sock := u\<rparr>)))" using assms taping_receive [OF r] by simp
  have dispatch: "sock (dispatch_frame (taping W) J deferred conv raw st') = sock st'" for raw st'
    by (simp add: dispatch_frame_def split: prod.splits sum.splits)
  show ?thesis
    using u reject_truthful [OF u]
    by (auto simp: receive_step_def r dispatch Let_def format_details_mismatch split: sum.splits exn.splits option.splits)
qed

lemma processing_ms_truthful: "truthful D cid d \<Longrightarrow> truthful D cid (with_processing_ms ms d)"
proof -
  have "acknowledges d c x" if "acknowledges (with_processing_ms ms d) c x" for c x
  proof (cases "meta_event_type d \<in> {JStr ''TRANSCRIPT_ACK'', JStr ''EOL_ACK''}")
    case False
    then show ?thesis using that by (simp add: with_processing_ms_def)
  next
    case True
    show ?thesis
    proof (cases "dict_get d ''payload''")
      case (JObj p)
      then show ?thesis
        using that True by (simp add: with_processing_ms_def acknowledges_def meta_event_type_def message_conversation_def message_seq_def)
    qed (use that True in \<open>simp_all add: with_processing_ms_def\<close>)
  qed
  then show "truthful D cid d \<Longrightarrow> truthful D cid (with_processing_ms ms d)" by (auto simp: truthful_def)
qed

lemma respond_truthful:
  assumes "truthful_texts J D cid (tape (sock st))" and "truthful D cid (response res)"
  shows "truthful_texts J D cid (tape (sock (respond_step (taping W) J res st)))"
proof -
  have said: "\<exists>d. dumps J (JObj d) = Inr t \<and> truthful D cid d"
    if "dumps J (JObj (with_processing_ms ms (response res))) = Inr t" for ms t
    using that processing_ms_truthful [OF assms(2)] by blast
  show ?thesis
    using assms(1) said unfolding respond_step_def Let_def
    by (auto simp: truthful_texts_snoc split: sum.splits prod.splits dest!: taping_send taping_close)
qed

lemma refresh_truthful:
  assumes "truthful_texts J D cid (tape (sock st))"
  shows "truthful_texts J D cid (tape (sock (refresh_step (taping W) J G conv tok st)))"
  using error_close_truthful [OF assms]
  by (simp add: assms refresh_step_def close_for_ownership_guard_unavailable_def close_for_active_sender_conflict_def
      split: sum.splits prod.splits)

section \<open>Every connection is truthful\<close>

lemma wire_ok_taken:
  assumes "truthful_texts J D (cn_conversation c) (tape (sock st))" and "\<And>res. phase st \<noteq> Responding res"
  shows "wire_ok J D (take_session st c)"
  using assms by (auto simp: wire_ok_def take_session_def split: loop_phase.splits)

lemma wire_ok_sock:
  assumes "wire_ok J D c" and "cn_conversation c' = cn_conversation c" "cn_phase c' = cn_phase c \<or> cn_phase c' = Receiving"
    and "truthful_texts J D (cn_conversation c) (tape (cn_sock c'))"
  shows "wire_ok J D c'"
  using assms by (auto simp: wire_ok_def split: loop_phase.splits)

lemma wire_ok_texts: "wire_ok J D c \<Longrightarrow> truthful_texts J D (cn_conversation c) (tape (cn_sock c))"
  by (simp add: wire_ok_def)

text \<open>The connection that an event is about, and what the event makes of it; the others stay.\<close>

fun event_connection :: "'u service_event \<Rightarrow> nat option" where
  "event_connection (Connects i cid tok u) = None"
| "event_connection (Claims j) = Some j"
| "event_connection (Opens j) = Some j"
| "event_connection (Runs j) = Some j"
| "event_connection (Renews j) = Some j"
| "event_connection (Leaves j) = Some j"
| "event_connection (Gives_up j) = Some j"

lemma step_others:
  assumes "event_connection e = Some j"
  shows "\<exists>c. w_connections (composed_step W J P C A ts e w) = (w_connections w)[j := c]"
proof -
  have same: "\<exists>c. w_connections w = (w_connections w)[j := c]" by (metis list_update_id)
  show ?thesis
    using assms same
    by (cases e) (auto simp: claim_step_def open_step_def run_step_def handle_step_def renew_step_def leave_step_def give_up_step_def Let_def
        split: prod.splits sum.splits stage.splits loop_phase.splits option.splits phase.splits)
qed

locale taped_service = composed_service R C db sha up loaded A J records inflight P "taping W" ts p q tpc
  for R :: "'d redis_ops" and C :: "'w redis_client" and db :: "'w \<Rightarrow> 'd" and sha :: "lua_script \<Rightarrow> string"
    and up :: "'w \<Rightarrow> bool" and loaded :: "'w \<Rightarrow> lua_script set"
    and A :: "'k aiokafka" and J :: orjson and records :: "'k \<Rightarrow> kafka_record list" and inflight :: "'k \<Rightarrow> kafka_record set"
    and P :: pydantic and W :: "'u ws_ops" and ts :: "string \<Rightarrow> string" and p :: string and q :: string and tpc :: string
begin

text \<open>The texts of one connection under an event about it.\<close>

lemma run_step_truthful:
  assumes inv: "composed_inv keep w0 n w" and start: "composed_start R db sha J records inflight p q tpc w0"
    and small: "int n < exact_limit" and j: "j < length (w_connections w)"
    and old: "wire_ok J D (w_connections w ! j)" and D: "D = fleet_delivered J records tpc (kafka_world w)"
  shows "wire_ok J D (w_connections (run_step (taping W) J P C A ts j w) ! j)"
proof (cases "cn_stage (w_connections w ! j) = Open")
  case False
  then show ?thesis using old by (simp add: run_step_def Let_def)
next
  case stage: True
  let ?c = "w_connections w ! j"
  note texts = wire_ok_texts [OF old]
  have c: "connection_ok ?c" using inv j by (simp add: composed_inv_def connections_ok_nth)
  show ?thesis
  proof (cases "cn_handling ?c")
    case (Some h)
    then obtain rq ph where h: "cn_handling ?c = Some (rq, ph)" by force
    show ?thesis
    proof (cases "\<exists>r. ph = Answered r")
      case False
      then have "run_step (taping W) J P C A ts j w = handle_step J P C A j rq ph w" using run_step_handling [OF stage h] by blast
      then show ?thesis
        using j texts by (auto simp: handle_step_def Let_def split: prod.splits intro!: wire_ok_sock [OF old])
    next
      case True
      then obtain r where r: "ph = Answered r" by blast
      have "tracked keep w0 n w" using inv by (simp add: composed_inv_def)
      from tracked_invariant(2) [OF this start small j h] have "phase_ok (int n) D (Answered r)" by (simp only: r D)
      moreover have "own_phase (cn_conversation ?c) (Answered r)"
        using connection_handling(3) [OF c h] r by (simp add: own_handling_def)
      ultimately have "wire_ok J D (resume r ?c)"
        using texts by (auto simp: wire_ok_def resume_def truthful_def split: sum.splits)
      then show ?thesis using stage h r j by (simp add: run_step_def Let_def)
    qed
  next
    case none: None
    show ?thesis
    proof (cases "cn_phase ?c")
      case Receiving
      define st where "st = receive_step (taping W) J deferred (cn_conversation ?c) (cn_session ?c None ())"
      have t: "truthful_texts J D (cn_conversation ?c) (tape (sock st))"
        unfolding st_def by (rule receive_truthful) (use texts in \<open>simp add: cn_session_def\<close>)
      show ?thesis
      proof (cases "orch st")
        case None
        have "phase st \<noteq> Responding res" for res using deferred_phase None unfolding st_def by blast
        then show ?thesis
          using wire_ok_taken [OF t] stage none Receiving None j
          by (simp add: run_step_def Let_def receive_or_dispatch_def st_def [symmetric])
      next
        case (Some call)
        then obtain now raw cid where s: "orch st = Some (now, raw, cid)" by (metis prod_cases3)
        show ?thesis
          using t stage none Receiving s j
          by (simp add: run_step_def Let_def receive_or_dispatch_def st_def [symmetric] wire_ok_def)
      qed
    next
      case (Responding result)
      have "truthful_texts J D (cn_conversation ?c) (tape (sock (respond_step (taping W) J result (cn_session ?c () ()))))"
        using old Responding by (intro respond_truthful) (simp_all add: cn_session_def wire_ok_def)
      from wire_ok_taken [OF this respond_phase] show ?thesis
        using stage none Responding j by (simp add: run_step_def Let_def)
    next
      case (Finished r)
      then show ?thesis using stage none old by (simp add: run_step_def Let_def)
    qed
  qed
qed

lemma step_truthful:
  assumes inv: "composed_inv keep w0 n w" and start: "composed_start R db sha J records inflight p q tpc w0"
    and small: "int n < exact_limit" and e: "event_ok (\<lambda>u. tape u = []) e w" "event_connection e = Some j"
    and old: "wire_ok J D (w_connections w ! j)" and D: "D = fleet_delivered J records tpc (kafka_world w)"
  shows "wire_ok J D (w_connections (step e w) ! j)"
proof -
  let ?c = "w_connections w ! j"
  note texts = wire_ok_texts [OF old]
  have j: "j < length (w_connections w)" using e by (cases e) auto
  show ?thesis
  proof (cases e)
    case (Claims l)
    then show ?thesis
      using old j e(2) texts by (auto simp: claim_step_def Let_def split: prod.splits intro!: wire_ok_sock [OF old])
  next
    case (Opens l)
    have "tape u = tape (cn_sock ?c)" if "ws_accept (taping W) (cn_sock ?c) = (r, u)" for r u
      using that taping_accept by blast
    then show ?thesis
      using Opens j e(2) old texts
      by (auto simp: open_step_def Let_def split: prod.splits sum.splits intro!: wire_ok_sock [OF old])
  next
    case (Runs l)
    then show ?thesis using run_step_truthful [OF inv start small j old D] e(2) by simp
  next
    case (Renews l)
    have "truthful_texts J D (cn_conversation ?c) (tape (sock (refresh_step (taping W) J (fleet_guard C (cn_instance ?c)) (cn_conversation ?c)
        (cn_token ?c) (cn_session ?c () (guard_world w)))))"
      by (rule refresh_truthful) (use texts in \<open>simp add: cn_session_def\<close>)
    then have "wire_ok J D (take_session (refresh_step (taping W) J (fleet_guard C (cn_instance ?c)) (cn_conversation ?c)
        (cn_token ?c) (cn_session ?c () (guard_world w))) ?c)"
      by (intro wire_ok_sock [OF old]) (simp_all add: take_session_def cn_session_def)
    then show ?thesis
      using Renews j e(2) old by (auto simp: renew_step_def Let_def split: loop_phase.splits)
  next
    case (Leaves l)
    have "truthful_texts J D (cn_conversation ?c) (tape (send_error_and_close (taping W) J (cn_conversation ?c) sc d (cn_sock ?c)))" for sc d
      by (rule error_close_truthful) (rule texts)
    then show ?thesis
      using Leaves j e(2) old texts
      by (auto simp: leave_step_def Let_def split: stage.splits loop_phase.splits option.splits exn.splits intro!: wire_ok_sock [OF old])
  next
    case (Gives_up l)
    then show ?thesis using old j e(2) texts by (auto simp: give_up_step_def Let_def intro!: wire_ok_sock [OF old])
  qed (use e in auto)
qed

lemma run_truthful:
  assumes run: "run keep (\<lambda>u. tape u = []) w0 n w"
    and start: "composed_start R db sha J records inflight p q tpc w0" and small: "int n < exact_limit"
  shows "\<forall>c \<in> set (w_connections w). wire_ok J (fleet_delivered J records tpc (kafka_world w)) c"
  using run small
proof (induction rule: composed_run.induct)
  case starts
  then show ?case using start by (simp add: composed_start_def)
next
  case (acts n w e)
  have lim: "int n < exact_limit" using acts.prems by simp
  note inv = run_inv [OF acts.hyps(1) start lim]
  obtain xs where xs: "fleet_delivered J records tpc (kafka_world (step e w)) = fleet_delivered J records tpc (kafka_world w) @ xs"
    using delivered_grows [OF inv start lim acts.hyps(2)] by blast
  have "\<forall>c \<in> set (w_connections (step e w)). wire_ok J (fleet_delivered J records tpc (kafka_world w)) c"
  proof (cases "event_connection e")
    case None
    then obtain i cid tok u where "e = Connects i cid tok u" by (cases e) auto
    then show ?thesis using acts lim by (auto simp: wire_ok_def truthful_texts_def)
  next
    case (Some j)
    have j: "j < length (w_connections w)" using acts.hyps(2) Some by (cases e) auto
    obtain c where c: "w_connections (step e w) = (w_connections w)[j := c]" using step_others [OF Some] by blast
    have "wire_ok J (fleet_delivered J records tpc (kafka_world w)) (w_connections (step e w) ! j)"
      by (rule step_truthful [OF inv start lim acts.hyps(2) Some _ refl]) (use acts lim j in simp)
    then show ?thesis using acts.IH lim j c set_update_subset_insert [of "w_connections w" j c] by auto
  qed
  then show ?case unfolding xs using wire_ok_mono by blast
next
  case (time_passes n w redis seconds)
  then show ?case by simp
next
  case (arrives_late n w kafka late)
  then show ?case by (auto intro: wire_ok_mono)
qed

end

end
