(* ===== verification/Open_Connections.thy ===== *)
theory Open_Connections
  imports Composition
begin

text \<open>
  The registries of the instances (\<open>transport/registry.py\<close>) in runs of the whole service: each holds exactly the connections that
  are open at its instance, under their conversations, and the count that the handshake compares with the limit is
  their number.
\<close>

definition open_at :: "nat \<Rightarrow> 'u connection list \<Rightarrow> nat set" where
  "open_at i cs = {j. j < length cs \<and> cn_stage (cs ! j) = Open \<and> cn_instance (cs ! j) = i}"

definition open_in :: "nat \<Rightarrow> string \<Rightarrow> 'u connection list \<Rightarrow> nat set" where
  "open_in i cid cs = {j \<in> open_at i cs. cn_conversation (cs ! j) = cid}"

definition registries_ok :: "(nat \<Rightarrow> registry) \<Rightarrow> 'u connection list \<Rightarrow> bool" where
  "registries_ok rs cs \<longleftrightarrow> (\<forall>i. registry_ok (rs i) \<and> active_count (rs i) = int (card (open_at i cs))
     \<and> (\<forall>cid. distinct (sockets (rs i) cid) \<and> set (sockets (rs i) cid) = open_in i cid cs))"

lemma open_at_finite [simp]: "finite (open_at i cs)"
  by (simp add: open_at_def)

lemma registries_ok_start: "registries_ok (\<lambda>_. empty_registry) []"
  using registry_ok_empty by (simp add: registries_ok_def open_at_def open_in_def sockets_empty) (simp add: empty_registry_def)

lemma registries_ok_connect:
  assumes ok: "registries_ok rs cs" and c: "cn_stage c \<noteq> Open"
  shows "registries_ok rs (cs @ [c])"
proof -
  have "open_at i (cs @ [c]) = open_at i cs" for i
    using c by (auto simp: open_at_def nth_append less_Suc_eq)
  moreover have "(cs @ [c]) ! j = cs ! j" if "j \<in> open_at i cs" for i j
    using that by (simp add: open_at_def nth_append)
  ultimately show ?thesis using ok by (auto simp: registries_ok_def open_in_def)
qed

text \<open>A step that neither opens nor ends a connection.\<close>

lemma registries_ok_same:
  assumes ok: "registries_ok rs cs" and c: "cn_instance c = cn_instance (cs ! j)" "cn_conversation c = cn_conversation (cs ! j)"
    "cn_stage c = Open \<longleftrightarrow> cn_stage (cs ! j) = Open"
  shows "registries_ok rs (cs[j := c])"
proof -
  have at: "l < length cs \<Longrightarrow> cs[j := c] ! l = (if l = j then c else cs ! l)" for l by simp
  have "open_at i (cs[j := c]) = open_at i cs" for i
    using c by (auto simp: open_at_def at split: if_splits)
  moreover have "cn_conversation (cs[j := c] ! l) = cn_conversation (cs ! l)" if "l \<in> open_at i cs" for i l
    using that c(2) by (auto simp: open_at_def at)
  ultimately have "open_at i (cs[j := c]) = open_at i cs" "open_in i cid (cs[j := c]) = open_in i cid cs" for i cid
    by (auto simp: open_in_def)
  then show ?thesis using ok unfolding registries_ok_def by simp
qed

lemma registries_ok_opened:
  assumes ok: "registries_ok rs cs" and j: "j < length cs" "cn_stage (cs ! j) \<noteq> Open"
    and c: "cn_instance c = i" "cn_conversation c = cid" "cn_stage c = Open"
  shows "registries_ok (rs(i := registry_add cid j (rs i))) (cs[j := c])"
proof -
  have new: "j \<notin> open_at l cs" for l using j(2) by (simp add: open_at_def)
  have at: "open_at l (cs[j := c]) = (if l = i then insert j (open_at i cs) else open_at l cs)" for l
    using j c by (auto simp: open_at_def nth_list_update)
  have conv: "open_in l d (cs[j := c]) = (if l = i \<and> d = cid then insert j (open_in i cid cs) else open_in l d cs)" for l d
    using j c new unfolding open_in_def at by (auto simp: nth_list_update)
  have "sockets (registry_add cid j (rs i)) = (sockets (rs i))(cid := sockets (rs i) cid @ [j])"
    using sockets_step [of "rs i" "Added cid j"] ok by (simp add: registries_ok_def)
  moreover have "j \<notin> set (sockets (rs i) cid)" using ok new unfolding registries_ok_def open_in_def by auto
  ultimately show ?thesis
    using ok new unfolding registries_ok_def at conv by (auto simp: registry_ok_add count_add)
qed

lemma registries_ok_left:
  assumes ok: "registries_ok rs cs" and j: "j < length cs" "cn_stage (cs ! j) = Open"
    and i: "i = cn_instance (cs ! j)" "cid = cn_conversation (cs ! j)"
    and c: "cn_instance c = i" "cn_conversation c = cid" "cn_stage c \<noteq> Open"
  shows "registries_ok (rs(i := registry_remove cid (Some j) (rs i))) (cs[j := c])"
proof -
  have old: "j \<in> open_at i cs" using j i by (simp add: open_at_def)
  have at: "open_at l (cs[j := c]) = (if l = i then open_at i cs - {j} else open_at l cs)" for l
    using j i c by (auto simp: open_at_def nth_list_update)
  have conv: "open_in l d (cs[j := c]) = (if l = i \<and> d = cid then open_in i cid cs - {j} else open_in l d cs)" for l d
    using j i c unfolding open_in_def at by (auto simp: nth_list_update open_at_def)
  let ?s = "sockets (rs i) cid"
  have s: "distinct ?s" "j \<in> set ?s" using ok old i(2) unfolding registries_ok_def open_in_def by auto
  have sock: "sockets (registry_remove cid (Some j) (rs i)) = (sockets (rs i))(cid := filter (\<lambda>x. x \<noteq> j) ?s)"
    using sockets_step [of "rs i" "Removed cid (Some j)"] ok by (simp add: registries_ok_def)
  have "(\<lambda>x. x \<noteq> j) = (\<lambda>x. j \<noteq> x)" by auto
  then have "filter (\<lambda>x. x \<noteq> j) ?s = remove1 j ?s"
    using distinct_remove1_removeAll [OF s(1), of j] by (simp add: removeAll_filter_not_eq)
  then have "length (filter (\<lambda>x. x \<noteq> j) ?s) = length ?s - 1" using s(2) by (simp add: length_remove1)
  moreover have "0 < length ?s" using s(2) by auto
  ultimately have "length (filter (\<lambda>x. x \<noteq> j) ?s) + 1 = length ?s" by simp
  then have "active_count (registry_remove cid (Some j) (rs i)) = active_count (rs i) - 1"
    by (simp add: count_remove)
  moreover have "int (card (open_at i cs)) = int (card (open_at i cs - {j})) + 1"
    using card_Suc_Diff1 [OF open_at_finite old] by simp
  ultimately show ?thesis
    using ok s unfolding registries_ok_def at conv by (auto simp: registry_ok_remove sock)
qed

lemma registries_ok_step:
  assumes ok: "registries_ok (w_registries w) (w_connections w)" and e: "event_ok fresh e w"
  shows "registries_ok (w_registries (composed_step W J P C A ts e w)) (w_connections (composed_step W J P C A ts e w))"
proof -
  have same: "registries_ok (w_registries w) ((w_connections w)[j := c])"
    if "cn_instance c = cn_instance (w_connections w ! j)" "cn_conversation c = cn_conversation (w_connections w ! j)"
      "cn_stage c = Open \<longleftrightarrow> cn_stage (w_connections w ! j) = Open" for j c
    using registries_ok_same [OF ok that] .
  show ?thesis
  proof (cases e)
    case (Connects i cid tok u)
    then show ?thesis using registries_ok_connect [OF ok] by simp
  next
    case (Claims j)
    then show ?thesis using ok same by (auto simp: claim_step_def Let_def split: prod.splits)
  next
    case (Opens j)
    then show ?thesis
      using ok e same registries_ok_opened [OF ok, of j]
      by (auto simp: open_step_def Let_def split: prod.splits sum.splits)
  next
    case (Runs j)
    then show ?thesis
      using ok same by (auto simp: run_step_def handle_step_def receive_or_dispatch_def take_session_def resume_def Let_def
          split: prod.splits option.splits loop_phase.splits phase.splits)
  next
    case (Renews j)
    then show ?thesis
      using ok same by (auto simp: renew_step_def take_session_def Let_def split: loop_phase.splits)
  next
    case (Leaves j)
    then show ?thesis
      using ok e registries_ok_left [OF ok, of j] by (auto simp: leave_step_def Let_def split: stage.splits loop_phase.splits)
  next
    case (Gives_up j)
    then show ?thesis using ok same by (auto simp: give_up_step_def Let_def)
  qed
qed

lemma registries_ok_run:
  assumes "composed_run keep fresh R db records inflight W J P C A ts p q tpc w0 n w"
    and "composed_start R db sha J records inflight p q tpc w0"
  shows "registries_ok (w_registries w) (w_connections w)"
  using assms
proof (induction rule: composed_run.induct)
  case starts
  then show ?case using registries_ok_start by (simp add: composed_start_def)
next
  case (acts n w e)
  then show ?case using registries_ok_step by blast
qed simp_all

end
