(* ===== verification/Whole_Service.thy ===== *)
theory Whole_Service
  imports Wire Open_Connections
begin

text \<open>
  The properties of the service as a whole: its runs refine those of the handlers, what clients are told is true, leases that
  are kept give a conversation to one connection and let its counter only count up, registries are the open
  connections, and uninterrupted steps are the session of \<open>Session\<close> with the handler of \<open>Orchestrator\<close>.
\<close>

section \<open>Counters under events\<close>

context composed_service
begin

text \<open>Only a step of a handler moves a counter.\<close>

lemma step_counters:
  assumes inv: "composed_inv keep w0 n w" and start: "composed_start R db sha J records inflight p q tpc w0" and small: "int n < exact_limit"
    and e: "event_ok fresh e w"
    and idle: "\<And>j rq ph. e = Runs j \<Longrightarrow> cn_handling (w_connections w ! j) = Some (rq, ph) \<Longrightarrow> \<exists>r. ph = Answered r"
  shows "fleet_expected R db p c (seq_world (step e w)) = fleet_expected R db p c (seq_world w)"
proof -
  have ok: "fleet_ok R db sha p (seq_world w)" and guards: "fleet_guards_ok sha q (guard_world w)"
    using inv tracked_invariant(1) [OF _ start small] by (auto simp: composed_inv_def)
  have claim: "fleet_expected R db p c (w_sequence w, snd g) = fleet_expected R db p c (seq_world w)"
    if "g_claim_or_refresh (fleet_guard C i) cid tok (guard_world w) = (r, g)" for i cid tok r g
    using guard_ops_counters [OF ok guards separate] that by (metis prod.collapse)
  have release: "fleet_expected R db p c (w_sequence w, snd (snd (g_release (fleet_guard C i) cid tok (guard_world w))))
      = fleet_expected R db p c (seq_world w)" for i cid tok
    using guard_ops_counters [OF ok guards separate] by (metis prod.collapse)
  show ?thesis
  proof (cases e)
    case (Claims j)
    then show ?thesis using claim by (auto simp: claim_step_def Let_def split: prod.splits)
  next
    case (Opens j)
    then show ?thesis using release by (auto simp: open_step_def release_ownership_guard_def Let_def split: prod.splits sum.splits)
  next
    case (Runs j)
    then show ?thesis using idle by (auto simp: run_step_def Let_def split: option.splits loop_phase.splits phase.splits)
  next
    case (Renews j)
    let ?c = "w_connections w ! j"
    have "fleet_expected R db p c (w_sequence w, snd (own (refresh_step W J (fleet_guard C (cn_instance ?c)) (cn_conversation ?c)
        (cn_token ?c) (cn_session ?c () (guard_world w))))) = fleet_expected R db p c (seq_world w)"
      using claim by (auto simp: refresh_step_def cn_session_def split: prod.splits sum.splits)
    then show ?thesis using Renews by (auto simp: renew_step_def Let_def split: loop_phase.splits)
  next
    case (Leaves j)
    then show ?thesis by (auto simp: leave_step_def Let_def split: stage.splits loop_phase.splits)
  next
    case (Gives_up j)
    then show ?thesis using release by (simp add: give_up_step_def release_ownership_guard_def Let_def)
  qed simp
qed

lemma kept_counts_up:
  assumes run: "run True fresh w0 n w" and start: "composed_start R db sha J records inflight p q tpc w0" and small: "int n < exact_limit"
    and e: "event_ok fresh e w"
  shows "fleet_expected R db p c (seq_world (step e w)) \<in> {fleet_expected R db p c (seq_world w), fleet_expected R db p c (seq_world w) + 1}"
proof (cases "\<exists>j rq ph. e = Runs j \<and> cn_handling (w_connections w ! j) = Some (rq, ph) \<and> (\<nexists>r. ph = Answered r)")
  case False
  then have "fleet_expected R db p c (seq_world (step e w)) = fleet_expected R db p c (seq_world w)"
    by (intro step_counters [OF run_inv [OF run start small] start small e]) blast
  then show ?thesis by simp
next
  case True
  then obtain j rq ph where j: "e = Runs j" "cn_handling (w_connections w ! j) = Some (rq, ph)" "\<And>r. ph \<noteq> Answered r" by blast
  let ?c = "w_connections w ! j"
  have len: "j < length (w_connections w)" using e j(1) by simp
  note inv = run_inv [OF run start small]
  have t: "tracked True w0 n w" and cn: "connections_ok (w_connections w)" and own: "owners_kept R db q w"
    using inv by (simp_all add: composed_inv_def)
  obtain m tsk f where m: "m \<le> n" "fleet True w0 m w tsk" "tracks tsk (w_connections w) f" using t unfolding tracked_def by blast
  have lim: "int m < exact_limit" using m(1) small by simp
  note fl = fleet_invariant [OF deployment_axioms _ m(2) lim] and fj = tracksD(1) [OF m(3) len j(2)]
  have fs: "fleet_start R db sha J records inflight p tpc (seq_world w0) (kafka_world w0)" using start by (simp add: composed_start_def)
  obtain ph' sms redis ps kafka where h: "handler_step P (fleet_sequence C (cn_instance ?c)) (fleet_producer A J (cn_instance ?c)) rq ph
      (seq_world w, kafka_world w) = (ph', (sms, redis), (ps, kafka))" by (metis prod_cases5 surj_pair)
  have task: "tk_instance (tsk ! f j) = cn_instance ?c" "tk_request (tsk ! f j) = rq" "tk_phase (tsk ! f j) = ph"
    using fj by (simp_all add: task_of_def)
  have h': "handler_step P (fleet_sequence C (tk_instance (tsk ! f j))) (fleet_producer A J (tk_instance (tsk ! f j)))
      (tk_request (tsk ! f j)) (tk_phase (tsk ! f j)) (seq_world w, kafka_world w) = (ph', (sms, redis), (ps, kafka))"
    using h task by simp
  have "exclusive_ok (fleet_expected R db p) (seq_world w) tsk"
    by (rule shared.exclusive_inv [OF m(2) [unfolded Fleet.fleet_run_def]]) (use fs lim in \<open>auto simp: fleet_start_def\<close>)
  then have "fleet_expected R db p c (sms, redis) \<in> {fleet_expected R db p c (seq_world w), fleet_expected R db p c (seq_world w) + 1}"
    using shared.exclusive_step [OF h' _ _ _ _ lim] fl [OF fs] fj handler_alone [OF m(3) cn own len j(2)] nth_mem by blast
  moreover have "seq_world (step e w) = (sms, redis)"
    using j(1) run_step_handling [OF connection_handling(1) [OF connections_ok_nth [OF cn len] j(2)] j(2,3)] h
    by (simp add: handle_step_def)
  ultimately show ?thesis by simp
qed

lemma one_owner:
  assumes run: "run True fresh w0 n w" and start: "composed_start R db sha J records inflight p q tpc w0" and small: "int n < exact_limit"
    and j: "j < length (w_connections w)" "owning (w_connections w ! j)" and l: "l < length (w_connections w)" "owning (w_connections w ! l)"
    and same: "cn_conversation (w_connections w ! j) = cn_conversation (w_connections w ! l)"
  shows "j = l"
proof -
  have own: "owners_kept R db q w" and cn: "connections_ok (w_connections w)"
    using run_inv [OF run start small] by (simp_all add: composed_inv_def)
  have "Some (cn_token (w_connections w ! j)) = Some (cn_token (w_connections w ! l))"
    using own j l same unfolding owners_kept_def by metis
  then show ?thesis using connections_ok_token [OF cn j(1) l(1)] by simp
qed

end

section \<open>Uninterrupted steps\<close>

text \<open>The world after a step of the connection's session.\<close>

definition put_session ::
  "nat \<Rightarrow> ('u, ((nat \<Rightarrow> seq_sm) \<times> 'w) \<times> ((nat \<Rightarrow> kafka_producer) \<times> 'k), unit) session \<Rightarrow> ('u, 'w, 'k) world \<Rightarrow> ('u, 'w, 'k) world" where
  "put_session j st w = set_connection j (take_session st (w_connections w ! j))
     (w\<lparr>w_sequence := fst (fst (orch st)), w_redis := snd (fst (orch st)), w_producers := fst (snd (orch st)), w_kafka := snd (snd (orch st))\<rparr>)"

lemma respond_parts:
  "respond_step W J res st = st\<lparr>
     sock := sock (respond_step W J res \<lparr>sock = sock st, orch = (), own = (), phase = phase st, refreshing = refreshing st\<rparr>),
     phase := phase (respond_step W J res \<lparr>sock = sock st, orch = (), own = (), phase = phase st, refreshing = refreshing st\<rparr>)\<rparr>"
proof -
  obtain x u where sent: "(if ws_connected W (sock st)
             then (case dumps J (JObj (with_processing_ms (ws_elapsed_ms W (sock st)) (response res))) of
                 Inl e \<Rightarrow> (Inl e, sock st)
               | Inr body \<Rightarrow> ws_send_text W body (sock st))
             else (Inr (), sock st)) = (x, u)" by (rule prod.exhaust)
  obtain y v where closed: "ws_close W (close_code res) u = (y, v)" by (rule prod.exhaust)
  show ?thesis
    unfolding respond_step_def Let_def session.select_convs sent prod.case
    by (cases x; cases y) (simp_all add: closed)
qed

lemma receive_refreshing [simp]: "refreshing (receive_step W J handle cid st) = refreshing st"
  by (simp add: receive_step_def reject_frame_def dispatch_frame_def Let_def
      split: prod.splits sum.splits option.splits exn.splits)

lemma handler_to_answer:
  assumes "j < length (w_connections w)" and "cn_stage (w_connections w ! j) = Open" and "cn_handling (w_connections w ! j) = Some (rq, ph)"
    and "handler_run P (fleet_sequence C (cn_instance (w_connections w ! j))) (fleet_producer A J (cn_instance (w_connections w ! j))) rq m
      (ph, (seq_world w, kafka_world w)) = (Answered r, ((sms, redis), (ps, kafka)))"
  shows "\<exists>k \<le> m. (composed_step W J P C A ts (Runs j) ^^ k) w =
    set_connection j ((w_connections w ! j)\<lparr>cn_handling := Some (rq, Answered r)\<rparr>)
      (w\<lparr>w_sequence := sms, w_redis := redis, w_producers := ps, w_kafka := kafka\<rparr>)"
  using assms
proof (induction m arbitrary: w ph)
  case 0
  then have "w = set_connection j ((w_connections w ! j)\<lparr>cn_handling := Some (rq, Answered r)\<rparr>)
      (w\<lparr>w_sequence := sms, w_redis := redis, w_producers := ps, w_kafka := kafka\<rparr>)"
    by (auto simp: set_connection_def)
  then show ?case by (intro exI [of _ 0]) simp
next
  case (Suc m)
  let ?c = "w_connections w ! j"
  show ?case
  proof (cases "\<exists>x. ph = Answered x")
    case True
    then show ?thesis using Suc.prems by (intro exI [of _ 0]) (auto simp: set_connection_def)
  next
    case False
    obtain ph1 sms1 redis1 ps1 kafka1 where h: "handler_step P (fleet_sequence C (cn_instance ?c)) (fleet_producer A J (cn_instance ?c)) rq ph
      (seq_world w, kafka_world w) = (ph1, (sms1, redis1), (ps1, kafka1))" by (metis prod_cases5 surj_pair)
    define w1 where "w1 = set_connection j (?c\<lparr>cn_handling := Some (rq, ph1)\<rparr>)
      (w\<lparr>w_sequence := sms1, w_redis := redis1, w_producers := ps1, w_kafka := kafka1\<rparr>)"
    have w1: "composed_step W J P C A ts (Runs j) w = w1"
      using run_step_handling [OF Suc.prems(2,3)] False h by (simp add: handle_step_def w1_def)
    have "\<exists>k \<le> m. (composed_step W J P C A ts (Runs j) ^^ k) w1 =
        set_connection j ((w_connections w1 ! j)\<lparr>cn_handling := Some (rq, Answered r)\<rparr>)
          (w1\<lparr>w_sequence := sms, w_redis := redis, w_producers := ps, w_kafka := kafka\<rparr>)"
      using Suc.prems h by (intro Suc.IH [of w1 ph1]) (simp_all add: w1_def)
    moreover have "set_connection j ((w_connections w1 ! j)\<lparr>cn_handling := Some (rq, Answered r)\<rparr>)
          (w1\<lparr>w_sequence := sms, w_redis := redis, w_producers := ps, w_kafka := kafka\<rparr>)
      = set_connection j (?c\<lparr>cn_handling := Some (rq, Answered r)\<rparr>)
          (w\<lparr>w_sequence := sms, w_redis := redis, w_producers := ps, w_kafka := kafka\<rparr>)"
      using Suc.prems(1) by (simp add: w1_def set_connection_def)
    ultimately obtain k where "k \<le> m" "(composed_step W J P C A ts (Runs j) ^^ k) w1 =
        set_connection j (?c\<lparr>cn_handling := Some (rq, Answered r)\<rparr>)
          (w\<lparr>w_sequence := sms, w_redis := redis, w_producers := ps, w_kafka := kafka\<rparr>)" by auto
    moreover have "(composed_step W J P C A ts (Runs j) ^^ Suc k) w = (composed_step W J P C A ts (Runs j) ^^ k) w1"
      by (simp only: funpow_Suc_right o_apply w1)
    ultimately show ?thesis by (intro exI [of _ "Suc k"]) (simp only: Suc_le_mono simp_thms)
  qed
qed

lemma uninterrupted:
  assumes j: "j < length (w_connections w)" and stage: "cn_stage (w_connections w ! j) = Open" "cn_handling (w_connections w ! j) = None"
  defines "c \<equiv> w_connections w ! j"
  shows "\<exists>k \<le> 6. (composed_step W J P C A ts (Runs j) ^^ k) w =
    put_session j (loop_step W J (\<lambda>now raw cid. handle_message P (fleet_sequence C (cn_instance c)) (fleet_producer A J (cn_instance c))
      now (ts now) raw cid) (cn_conversation c) (cn_session c (seq_world w, kafka_world w) ())) w"
proof -
  have one: ?thesis
    if "put_session j (loop_step W J (\<lambda>now raw cid. handle_message P (fleet_sequence C (cn_instance c)) (fleet_producer A J (cn_instance c))
      now (ts now) raw cid) (cn_conversation c) (cn_session c (seq_world w, kafka_world w) ())) w = composed_step W J P C A ts (Runs j) w"
    using that by (intro exI [of _ "1"]) simp
  show ?thesis
  proof (cases "cn_phase c")
    case (Finished r)
    then show ?thesis
      using stage by (intro one) (simp add: run_step_def Let_def c_def loop_step_def put_session_def cn_session_def take_session_def set_connection_def)
  next
    case (Responding result)
    have "respond_step W J result (cn_session c (seq_world w, kafka_world w) ())
        = cn_session (take_session (respond_step W J result (cn_session c () ())) c) (seq_world w, kafka_world w) ()"
      by (subst (1 2) respond_parts) (simp add: cn_session_def take_session_def)
    then show ?thesis
      using stage Responding
      by (intro one) (simp add: run_step_def Let_def c_def loop_step_def put_session_def, simp add: cn_session_def take_session_def set_connection_def)
  next
    case Receiving
    define e where "e = receive_step W J deferred (cn_conversation c) (cn_session c None ())"
    define h where "h = (\<lambda>now raw cid. handle_message P (fleet_sequence C (cn_instance c)) (fleet_producer A J (cn_instance c)) now (ts now) raw cid)"
    define st where "st = cn_session c (seq_world w, kafka_world w) ()"
    have e': "e = receive_step W J deferred (cn_conversation c)
        \<lparr>sock = sock st, orch = None, own = (), phase = phase st, refreshing = refreshing st\<rparr>"
      by (simp add: e_def st_def cn_session_def)
    note split = receive_step_deferred [of W J h "cn_conversation c" st, folded e']
    have loop: "loop_step W J h (cn_conversation c) st = receive_step W J h (cn_conversation c) st"
      by (simp add: loop_step_def st_def cn_session_def Receiving)
    have e_ref: "refreshing e = cn_refreshing c" by (simp add: e_def cn_session_def)
    show ?thesis
    proof (cases "orch e")
      case None
      have "put_session j (loop_step W J h (cn_conversation c) st) w = composed_step W J P C A ts (Runs j) w"
        using stage Receiving None e_ref
        unfolding loop split Let_def
        by (simp add: run_step_def receive_or_dispatch_def Let_def c_def [symmetric] e_def [symmetric] put_session_def take_session_def)
          (simp add: st_def cn_session_def set_connection_def)
      then show ?thesis by (intro one) (simp add: h_def st_def)
    next
      case (Some call)
      then obtain now raw cid where s: "orch e = Some (now, raw, cid)" by (metis prod_cases3)
      define rq where "rq = \<lparr>rq_now = now, rq_produced_at = ts now, rq_raw = raw, rq_conversation = cid\<rparr>"
      define c1 where "c1 = c\<lparr>cn_sock := sock e, cn_handling := Some (rq, Arrived)\<rparr>"
      have w1: "composed_step W J P C A ts (Runs j) w = set_connection j c1 w"
        using stage Receiving s by (simp add: run_step_def receive_or_dispatch_def Let_def c_def [symmetric] e_def [symmetric] c1_def rq_def)
      obtain r sms redis ps kafka where hm: "h now raw cid (seq_world w, kafka_world w) = (r, (sms, redis), (ps, kafka))"
        by (metis prod_cases5 surj_pair)
      have "handler_run P (fleet_sequence C (cn_instance c)) (fleet_producer A J (cn_instance c)) rq 4 (Arrived, (seq_world w, kafka_world w))
          = (Answered r, ((sms, redis), (ps, kafka)))"
        using hm by (simp only: handler_steps_compose) (simp add: rq_def h_def)
      then obtain k where k: "k \<le> 4" "(composed_step W J P C A ts (Runs j) ^^ k) (set_connection j c1 w) =
          set_connection j (c1\<lparr>cn_handling := Some (rq, Answered r)\<rparr>)
            ((set_connection j c1 w)\<lparr>w_sequence := sms, w_redis := redis, w_producers := ps, w_kafka := kafka\<rparr>)"
        using handler_to_answer [of j "set_connection j c1 w" rq Arrived P C A J 4 r sms redis ps kafka W ts] j stage
        by (auto simp: c1_def c_def)
      have last: "composed_step W J P C A ts (Runs j) (set_connection j (c1\<lparr>cn_handling := Some (rq, Answered r)\<rparr>)
            ((set_connection j c1 w)\<lparr>w_sequence := sms, w_redis := redis, w_producers := ps, w_kafka := kafka\<rparr>))
          = put_session j (loop_step W J h (cn_conversation c) st) w"
        unfolding loop split Let_def
        using j stage s hm
        by (simp add: run_step_def Let_def c1_def resume_def put_session_def c_def [symmetric] split: sum.splits)
          (simp add: st_def cn_session_def take_session_def set_connection_def)
      have "(composed_step W J P C A ts (Runs j) ^^ Suc (Suc k)) w = composed_step W J P C A ts (Runs j)
          ((composed_step W J P C A ts (Runs j) ^^ k) (composed_step W J P C A ts (Runs j) w))"
        by (simp only: funpow.simps(2) o_apply funpow_swap1)
      also have "\<dots> = put_session j (loop_step W J h (cn_conversation c) st) w" unfolding w1 k(2) by (rule last)
      finally have "(composed_step W J P C A ts (Runs j) ^^ Suc (Suc k)) w = put_session j (loop_step W J h (cn_conversation c) st) w" .
      then show ?thesis using k(1) by (intro exI [of _ "Suc (Suc k)"]) (simp add: h_def st_def)
    qed
  qed
qed

section \<open>A concrete service\<close>

definition sample_world :: "(scripted_client taped, redis_server, kafka_server) world" where
  "sample_world = \<lparr>w_sequence = (\<lambda>_. sample_sm), w_guards = (\<lambda>_. sample_guard), w_producers = (\<lambda>_. sample_producer),
     w_registries = (\<lambda>_. empty_registry), w_redis = empty_redis [], w_kafka = empty_kafka [], w_connections = []\<rparr>"

definition taped_client :: "json list \<Rightarrow> scripted_client taped" where
  "taped_client js = \<lparr>tape_inner = client_of js, tape = []\<rparr>"

abbreviation sample_step where
  "sample_step \<equiv> composed_step (taping scripted_ws) numbering_orjson strict_pydantic server_client server_kafka (\<lambda>now. now)"

abbreviation sample_run where
  "sample_run keep \<equiv> composed_run keep (\<lambda>u. tape u = []) clock_redis_ops rs_db ks_records (\<lambda>k. set (ks_inflight k))
     (taping scripted_ws) numbering_orjson strict_pydantic server_client server_kafka (\<lambda>now. now) ''seq'' ''own'' ''transcripts'' sample_world"

lemma sample_prefixes: "separate_prefixes ''seq'' ''own''"
  by (simp add: separate_prefixes_def)

lemma sample_start:
  "composed_start clock_redis_ops rs_db script_sha numbering_orjson ks_records (\<lambda>k. set (ks_inflight k)) ''seq'' ''own'' ''transcripts'' sample_world"
  using concrete_fleet_start sample_guard_ok
  by (simp add: composed_start_def sample_world_def start_fleet_def fleet_guards_ok_def sample_guard_def)

text \<open>A list of events, one after the other.\<close>

fun events_ok :: "('u \<Rightarrow> bool) \<Rightarrow> ('u service_event \<Rightarrow> ('u, 'w, 'k) world \<Rightarrow> ('u, 'w, 'k) world) \<Rightarrow> 'u service_event list
    \<Rightarrow> ('u, 'w, 'k) world \<Rightarrow> bool" where
  "events_ok fresh step [] w \<longleftrightarrow> True"
| "events_ok fresh step (e # es) w \<longleftrightarrow> event_ok fresh e w \<and> events_ok fresh step es (step e w)"

lemma events_run:
  assumes "composed_run keep fresh R db records inflight W J P C A ts p q tpc w0 n w"
    and "events_ok fresh (composed_step W J P C A ts) es w"
  shows "composed_run keep fresh R db records inflight W J P C A ts p q tpc w0 (n + length es) (fold (composed_step W J P C A ts) es w)"
  using assms
proof (induction es arbitrary: n w)
  case (Cons e es)
  show ?case
    using Cons.IH [OF composed_run.acts [OF Cons.prems(1), of e]] Cons.prems(2) by simp
qed simp

lemma sample_events:
  "events_ok (\<lambda>u. tape u = []) sample_step es sample_world \<Longrightarrow> sample_run keep (length es) (fold sample_step es sample_world)"
  using events_run [OF composed_run.starts] by fastforce

text \<open>One client that sends a transcript; another one that comes for the same conversation is refused.\<close>

definition one_client :: "scripted_client taped service_event list" where
  "one_client = [Connects 0 ''c1'' ''a'' (taped_client [sample_ongoing ''c1'' 0]), Claims 0, Opens 0,
     Runs 0, Runs 0, Runs 0, Runs 0, Runs 0, Runs 0, Connects 1 ''c1'' ''b'' (taped_client []), Claims 1]"

lemma sample_body: "0 \<le> n \<Longrightarrow> body_conversation (sample_ongoing ''c1'' n) = Some ''c1''"
  using body_conversation_valid [OF strict_pydantic_ok sample_ongoing_valid [of "''c1''" n]] by (simp add: ongoing_message_def)

lemmas step_simps = claim_step_def open_step_def run_step_def handle_step_def receive_or_dispatch_def resume_def take_session_def
  cn_session_def set_connection_def set_guards_def fleet_guard_def claim_or_refresh.simps lua_claim_or_refresh_def guard_key_def
  sample_guard_def taped_client_def client_of_def taping_def tape_io_def scripted_ws_def receive_step_def dispatch_frame_def
  deferred_def sample_body respond_step_def ensure_script_def eval_reload_def get_client_def

lemma one_client_ok: "events_ok (\<lambda>u. tape u = []) sample_step one_client sample_world"
  by (simp add: one_client_def sample_world_def step_simps schedule_simps Let_def double_of_int_small)

definition first_ack :: string where
  "first_ack = str_of_nat (to_nat (JObj (with_processing_ms 1 (build_success_ack ''now'' ''c1'' 0 SESSION_ONGOING))))"

definition served_world :: "(scripted_client taped, redis_server, kafka_server) world" where
  "served_world = fold sample_step one_client sample_world"

lemma served_run: "sample_run keep 11 served_world"
proof -
  have "length one_client = 11" by (simp add: one_client_def)
  then show ?thesis using sample_events [OF one_client_ok, of keep] by (simp only: served_world_def)
qed

lemma served:
  "length (w_connections served_world) = 2" "cn_stage (w_connections served_world ! 0) = Open" "cn_stage (w_connections served_world ! 1) = Closed"
  "tape (cn_sock (w_connections served_world ! 0)) = [first_ack]"
  "cn_conversation (w_connections served_world ! 0) = ''c1''" "cn_conversation (w_connections served_world ! 1) = ''c1''"
  "cn_instance (w_connections served_world ! 0) = 0"
  "fleet_expected clock_redis_ops rs_db ''seq'' ''c1'' (seq_world served_world) = 1"
  unfolding served_world_def
  by (simp_all add: one_client_def sample_world_def step_simps schedule_simps Let_def double_of_int_small first_ack_def ongoing_result_def)

section \<open>Properties\<close>

lemma deployment_composed:
  assumes "deployment R C db sha up loaded A J records inflight P" and "separate_prefixes p q"
  shows "composed_service R C db sha up loaded A J records inflight P p q" "taped_service R C db sha up loaded A J records inflight P p q"
  using assms by (simp_all add: composed_service_def composed_service_axioms_def taped_service_def)

interpretation sample: taped_service clock_redis_ops server_client rs_db script_sha "\<lambda>w. rs_faults w = []" "\<lambda>w. set (rs_scripts w)"
  server_kafka numbering_orjson ks_records "\<lambda>k. set (ks_inflight k)" strict_pydantic scripted_ws "\<lambda>now. now" "''seq''" "''own''" "''transcripts''"
  by (rule deployment_composed(2) [OF concrete.deployment_axioms sample_prefixes])

interpretation sample_untaped: composed_service clock_redis_ops server_client rs_db script_sha "\<lambda>w. rs_faults w = []" "\<lambda>w. set (rs_scripts w)"
  server_kafka numbering_orjson ks_records "\<lambda>k. set (ks_inflight k)" strict_pydantic scripted_ws "\<lambda>now. now" "''seq''" "''own''" "''transcripts''"
  by (rule deployment_composed(1) [OF concrete.deployment_axioms sample_prefixes])

lemmas sample_deployment = concrete.deployment_axioms sample_prefixes sample_start

text \<open>
  C2. What a client is told is true: in every run of the whole service (any number of instances and connections, claims, refreshes
  and releases in the same Redis, backends that fail in any way, expiring leases and counters, handlers that stall), a text that
  was handed to a connection for sending and that reads as an acknowledgement names the connection's own conversation
  and a number that is in the topic.
\<close>

theorem acknowledged_on_the_wire:
  assumes dep: "deployment R C db sha up loaded A J records inflight P" and sep: "separate_prefixes p q"
    and start: "composed_start R db sha J records inflight p q tpc w0"
    and run: "composed_run keep (\<lambda>u. tape u = []) R db records inflight (taping W) J P C A ts p q tpc w0 n w"
    and small: "int n < exact_limit"
    and sent: "j < length (w_connections w)" "t \<in> set (tape (cn_sock (w_connections w ! j)))" "loads J t = Inr (JObj d)"
    and ack: "acknowledges d c x"
  shows "c = cn_conversation (w_connections w ! j) \<and> x \<in> set (conversation_log c (fleet_delivered J records tpc (kafka_world w)))"
proof -
  have "wire_ok J (fleet_delivered J records tpc (kafka_world w)) (w_connections w ! j)"
    using taped_service.run_truthful [OF deployment_composed(2) [OF dep sep] run start small] sent(1) by simp
  then obtain e where e: "dumps J (JObj e) = Inr t" "truthful (fleet_delivered J records tpc (kafka_world w)) (cn_conversation (w_connections w ! j)) e"
    using sent(2) by (auto simp: wire_ok_def truthful_texts_def list_all_iff)
  have "kafka_cluster A J records inflight" using dep by (rule deployment.axioms)
  then have "e = d" using kafka_cluster.loads_dumps e(1) sent(3) by fastforce
  then show ?thesis using e(2) ack by (auto simp: truthful_def)
qed

theorem acknowledged_on_the_wire_witness:
  "0 \<in> set (conversation_log ''c1'' (fleet_delivered numbering_orjson ks_records ''transcripts'' (kafka_world served_world)))"
proof -
  let ?d = "with_processing_ms 1 (build_success_ack ''now'' ''c1'' 0 SESSION_ONGOING)"
  have l: "loads numbering_orjson first_ack = Inr (JObj ?d)" by (simp add: first_ack_def)
  have a: "acknowledges ?d ''c1'' 0"
    by (simp add: acknowledges_def with_processing_ms_def build_success_ack_def build_transcript_ack_def build_success_response_def
        meta_event_type_def message_conversation_def message_seq_def dict_get_def)
  show ?thesis
    using acknowledged_on_the_wire [OF sample_deployment served_run [of False] _ _ _ l a, of 0] served(1,4,5) by (simp add: exact_limit_def)
qed

text \<open>
  C3. One sender per conversation: while leases are renewed in time, two connections that have claimed the same conversation
  and not given it up are the same connection, at whatever instances, and whatever becomes of the other connections.
\<close>

theorem one_sender_per_conversation:
  assumes dep: "deployment R C db sha up loaded A J records inflight P" and sep: "separate_prefixes p q"
    and start: "composed_start R db sha J records inflight p q tpc w0"
    and run: "composed_run True fresh R db records inflight W J P C A ts p q tpc w0 n w" and small: "int n < exact_limit"
    and j: "j < length (w_connections w)" "owning (w_connections w ! j)" and l: "l < length (w_connections w)" "owning (w_connections w ! l)"
    and same: "cn_conversation (w_connections w ! j) = cn_conversation (w_connections w ! l)"
  shows "j = l"
  by (rule composed_service.one_owner [OF deployment_composed(1) [OF dep sep] run start small j l same])

theorem one_sender_per_conversation_witness:
  "owning (w_connections served_world ! 0) \<and> \<not> owning (w_connections served_world ! 1)"
proof -
  have o: "owning (w_connections served_world ! 0)" using served(2) by (simp add: owning_def)
  have "0 = (1 :: nat)" if "owning (w_connections served_world ! 1)"
    by (rule one_sender_per_conversation [OF sample_deployment served_run _ _ o _ that])
      (use served in \<open>simp_all add: exact_limit_def\<close>)
  then show ?thesis using o by auto
qed

text \<open>
  C4. Kept leases keep the counters: while leases are renewed in time, no event of the whole service lowers the counter of
  a conversation, or raises it by more than one; so the overtaking commit that moves a counter back needs a lost lease.
\<close>

theorem kept_leases_count_up:
  assumes dep: "deployment R C db sha up loaded A J records inflight P" and sep: "separate_prefixes p q"
    and start: "composed_start R db sha J records inflight p q tpc w0"
    and run: "composed_run True fresh R db records inflight W J P C A ts p q tpc w0 n w" and small: "int n < exact_limit"
    and e: "event_ok fresh e w"
  shows "fleet_expected R db p c (seq_world (composed_step W J P C A ts e w))
    \<in> {fleet_expected R db p c (seq_world w), fleet_expected R db p c (seq_world w) + 1}"
  by (rule composed_service.kept_counts_up [OF deployment_composed(1) [OF dep sep] run start small e])

theorem kept_leases_count_up_witness:
  "fleet_expected clock_redis_ops rs_db ''seq'' ''c1'' (seq_world (sample_step (Runs 0) served_world)) \<in> {1, 2}"
  using kept_leases_count_up [OF sample_deployment served_run, of "Runs 0" "''c1''"] served(1,8)
  by (simp add: exact_limit_def del: composed_step.simps)

text \<open>
  C5. The whole refines its handlers: every run of the service, with its connections, claims, refreshes, releases and registries,
  is a run of interleaved handlers as in \<open>Fleet\<close> with the same counters and the same topic, in which every handler
  that a connection awaits is a task of its own, and no other task is between its pre-check and its commit.
\<close>

theorem service_refines_handlers:
  assumes dep: "deployment R C db sha up loaded A J records inflight P" and sep: "separate_prefixes p q"
    and start: "composed_start R db sha J records inflight p q tpc w0"
    and run: "composed_run keep fresh R db records inflight W J P C A ts p q tpc w0 n w" and small: "int n < exact_limit"
  shows "\<exists>m tsk f. m \<le> n \<and> tracks tsk (w_connections w) f
    \<and> Fleet.fleet_run keep R C db sha A J records inflight P p tpc (seq_world w0) (kafka_world w0) m (seq_world w) (kafka_world w) tsk"
  using composed_service.run_inv [OF deployment_composed(1) [OF dep sep] run start small]
  by (auto simp: composed_service.composed_inv_def [OF deployment_composed(1) [OF dep sep]]
      composed_service.tracked_def [OF deployment_composed(1) [OF dep sep]])

theorem service_refines_handlers_witness:
  "\<exists>m s k tsk f. concrete_fleet_run False m s k tsk \<and> tracks tsk (w_connections served_world) f
    \<and> fleet_expected clock_redis_ops rs_db ''seq'' ''c1'' s = 1"
proof -
  have w: "seq_world sample_world = fst start_fleet" "kafka_world sample_world = snd start_fleet"
    by (simp_all add: sample_world_def start_fleet_def)
  have "int 11 < exact_limit" by (simp add: exact_limit_def)
  from service_refines_handlers [OF sample_deployment served_run [of False] this, unfolded w] show ?thesis
    using served(8) by blast
qed




definition opened_world :: "(scripted_client taped, redis_server, kafka_server) world" where
  "opened_world = fold sample_step (take 3 one_client) sample_world"


end
