(* ===== verification/Auth.thy ===== *)
theory Auth
  imports Errors
begin

text \<open>
  Authentication of the handshake, \<open>auth/jwt_bearer.py\<close>, \<open>auth/protocols.py\<close> and \<open>auth/runtime.py\<close>. PyJWT's
  \<open>jwt.decode\<close> is a parameter: from a token, a key, the accepted algorithms and the required claims it
  gives the claims or an error.
\<close>

datatype jwt_error = ExpiredSignatureError string | InvalidTokenError string | OtherJwtError exn

type_synonym jwt_decode = "string \<Rightarrow> string \<Rightarrow> string list \<Rightarrow> string list \<Rightarrow> jwt_error + dict"

record AuthPrincipal =
  subject :: "string option"
  claims :: dict

datatype auth_error = AuthenticationError string | AuthUncaught exn

text \<open>\<open>s.partition(" ")\<close>: the part before the first space, and the part after it.\<close>

definition partition_space :: "string \<Rightarrow> string \<times> string" where
  "partition_space s = (takeWhile (\<lambda>c. c \<noteq> CHR '' '') s, drop 1 (dropWhile (\<lambda>c. c \<noteq> CHR '' '') s))"

definition extract_bearer_token :: "string option \<Rightarrow> auth_error + string" where
  "extract_bearer_token authorization_header =
     (case authorization_header of
        None \<Rightarrow> Inl (AuthenticationError ''Authorization header with Bearer token is required'')
      | Some h \<Rightarrow>
          (if strip h = [] then Inl (AuthenticationError ''Authorization header with Bearer token is required'')
           else (case partition_space (strip h) of
               (scheme, token) \<Rightarrow>
                 if lower scheme \<noteq> ''bearer'' \<or> strip token = []
                 then Inl (AuthenticationError ''Authorization header must use the Bearer scheme'')
                 else Inr (strip token))))"

record jwt_bearer =
  signing_material :: string
  algorithm :: string

definition authenticate :: "jwt_decode \<Rightarrow> jwt_bearer \<Rightarrow> string option \<Rightarrow> auth_error + AuthPrincipal" where
  "authenticate D b authorization_header =
     (case extract_bearer_token authorization_header of
        Inl e \<Rightarrow> Inl e
      | Inr token \<Rightarrow>
          (case D token (signing_material b) [algorithm b] [''exp''] of
             Inl (ExpiredSignatureError _) \<Rightarrow> Inl (AuthenticationError ''Bearer token has expired'')
           | Inl (InvalidTokenError _) \<Rightarrow> Inl (AuthenticationError ''Bearer token is invalid'')
           | Inl (OtherJwtError e) \<Rightarrow> Inl (AuthUncaught e)
           | Inr cs \<Rightarrow> Inr \<lparr>subject = (case dict_get cs ''sub'' of JStr s \<Rightarrow> Some s | _ \<Rightarrow> None), claims = cs\<rparr>))"

text \<open>\<open>create_auth_backend\<close>: authentication is optional; the algorithm is the configured one.\<close>

definition create_auth_backend :: "bool \<Rightarrow> string option \<Rightarrow> string \<Rightarrow> jwt_bearer option" where
  "create_auth_backend auth_enabled auth_jwt_signing_material auth_jwt_algorithm =
     (if \<not> auth_enabled then None
      else Some \<lparr>signing_material = (case auth_jwt_signing_material of None \<Rightarrow> [] | Some s \<Rightarrow> s),
        algorithm = auth_jwt_algorithm\<rparr>)"

section \<open>Headers\<close>

text \<open>What a header must look like: a scheme that is \<open>bearer\<close> in any case, a space, a token.\<close>

definition bearer_header :: "string \<Rightarrow> string \<Rightarrow> bool" where
  "bearer_header h tok \<longleftrightarrow> (\<exists>scheme rest. strip h = scheme @ CHR '' '' # rest \<and> CHR '' '' \<notin> set scheme
     \<and> lower scheme = ''bearer'' \<and> strip rest = tok \<and> tok \<noteq> [])"

lemma partition_space_split:
  "CHR '' '' \<notin> set a \<Longrightarrow> partition_space (a @ CHR '' '' # b) = (a, b)"
  by (induction a) (auto simp: partition_space_def)

lemma partition_space_rest:
  "snd (partition_space s) \<noteq> [] \<Longrightarrow>
    \<exists>a b. s = a @ CHR '' '' # b \<and> CHR '' '' \<notin> set a \<and> partition_space s = (a, b)"
proof -
  assume r: "snd (partition_space s) \<noteq> []"
  have "CHR '' '' \<in> set s"
  proof (rule ccontr)
    assume "CHR '' '' \<notin> set s"
    then have "dropWhile (\<lambda>c. c \<noteq> CHR '' '') s = []" by (auto simp: dropWhile_eq_Nil_conv)
    then show False using r unfolding partition_space_def by (simp only: list.size drop_Nil snd_conv simp_thms)
  qed
  then obtain a b where "s = a @ CHR '' '' # b" "CHR '' '' \<notin> set a" by (metis split_list_first)
  then show ?thesis using partition_space_split by blast
qed

lemma extract_bearer_iff:
  "extract_bearer_token (Some h) = Inr tok \<longleftrightarrow> bearer_header h tok"
proof
  assume e: "extract_bearer_token (Some h) = Inr tok"
  obtain scheme rest where p: "partition_space (strip h) = (scheme, rest)" by fastforce
  then have t: "lower scheme = ''bearer''" "strip rest = tok" "tok \<noteq> []"
    using e by (auto simp: extract_bearer_token_def split: if_splits)
  have "rest \<noteq> []" using t(2,3) by (auto simp: strip_def lstrip_def rstrip_def)
  then show "bearer_header h tok"
    using partition_space_rest [of "strip h"] p t by (auto simp: bearer_header_def)
next
  assume "bearer_header h tok"
  then obtain scheme rest where h: "strip h = scheme @ CHR '' '' # rest" "CHR '' '' \<notin> set scheme"
    "lower scheme = ''bearer''" "strip rest = tok" "tok \<noteq> []" by (auto simp: bearer_header_def)
  then show "extract_bearer_token (Some h) = Inr tok"
    by (simp add: extract_bearer_token_def partition_space_split)
qed

section \<open>Properties\<close>

text \<open>
  C32. A caller is authenticated exactly when the Authorization header is a bearer scheme in any case with a
  token, and that token verifies under the configured key with the configured algorithm only and with
  an expiry required. The principal carries the verified claims.
\<close>

theorem authenticated_iff:
  "authenticate D b hdr = Inr p \<longleftrightarrow>
    (\<exists>h tok cs. hdr = Some h \<and> bearer_header h tok
      \<and> D tok (signing_material b) [algorithm b] [''exp''] = Inr cs
      \<and> p = \<lparr>subject = (case dict_get cs ''sub'' of JStr s \<Rightarrow> Some s | _ \<Rightarrow> None), claims = cs\<rparr>)"
proof (cases "\<exists>tok. extract_bearer_token hdr = Inr tok")
  case True
  then obtain h tok where h: "hdr = Some h" "extract_bearer_token (Some h) = Inr tok"
    by (cases hdr) (auto simp: extract_bearer_token_def)
  have one: "bearer_header h t \<longleftrightarrow> t = tok" for t
    using h(2) by (auto simp flip: extract_bearer_iff)
  show ?thesis using h
    by (auto simp: authenticate_def one split: sum.splits jwt_error.splits)
next
  case False
  then have "\<not> bearer_header h t" if "hdr = Some h" for h t using that by (auto simp flip: extract_bearer_iff)
  then show ?thesis using False
    by (auto simp: authenticate_def split: sum.splits)
qed

end
