(* ===== verification/Url_Prefix.thy ===== *)
theory Url_Prefix
  imports Prelude "HOL-Library.While_Combinator"
begin

text \<open>
  The mount prefix of the application, \<open>normalize_url_path_prefix_str\<close> of \<open>config/settings.py\<close>. Its loop
  replaces double slashes until there are none; the specification is the list of the path's non-empty
  segments, each behind one slash.
\<close>

section \<open>The code\<close>

lemma str_replace_le: "length b < length a \<Longrightarrow> length (str_replace a b s) \<le> length s"
proof (induction a b s rule: str_replace.induct)
  case (2 a b c cs)
  show ?case
  proof (cases "a \<noteq> [] \<and> startswith (c # cs) a")
    case True
    then have "length a \<le> length (c # cs)" by (metis length_append le_add1 startswith_iff)
    then show ?thesis using 2(1) [OF True 2(3)] 2(3) True by simp
  next
    case False
    then show ?thesis using 2(2) [OF False 2(3)] by auto
  qed
qed simp

lemma str_replace_shorter: "length b < length a \<Longrightarrow> str_in a s \<Longrightarrow> length (str_replace a b s) < length s"
proof (induction s)
  case (Cons c cs)
  have a: "a \<noteq> []" using Cons.prems(1) by auto
  show ?case
  proof (cases "startswith (c # cs) a")
    case True
    then have "length a \<le> length (c # cs)" by (metis length_append le_add1 startswith_iff)
    then show ?thesis using str_replace_le [OF Cons.prems(1), of "drop (length a) (c # cs)"] Cons.prems(1) True a by simp
  next
    case False
    then show ?thesis using Cons by auto
  qed
qed auto

text \<open>\<open>while "//" in s: s = s.replace("//", "/")\<close>\<close>

function collapse_slashes :: "string \<Rightarrow> string" where
  "collapse_slashes s = (if str_in ''//'' s then collapse_slashes (str_replace ''//'' ''/'' s) else s)"
  by pat_completeness auto
termination by (relation "measure length") (simp_all add: str_replace_shorter)

declare collapse_slashes.simps [simp del]

text \<open>The loop as a loop: it ends, with the value of the recursion.\<close>

lemma collapse_slashes_loop:
  "while_option (str_in ''//'') (\<lambda>s. str_replace ''//'' ''/'' s) s = Some (collapse_slashes s)"
proof (induction s rule: collapse_slashes.induct)
  case (1 s)
  then show ?case by (subst while_option_unfold, subst collapse_slashes.simps) simp
qed

definition normalize_url_path_prefix_str :: "string \<Rightarrow> string res" where
  "normalize_url_path_prefix_str raw =
     (let s = strip raw in
      if s = [] then Inr []
      else if CHR 0x0A \<in> set s \<or> CHR 0x0D \<in> set s \<or> str_in ''..'' s
      then Inl (ValueError ''URL_PATH_PREFIX must not contain '..' or newline characters'')
      else Inr (rstrip_char CHR ''/'' (collapse_slashes (if startswith s ''/'' then s else CHR ''/'' # s))))"

section \<open>Segments\<close>

fun str_split :: "char \<Rightarrow> string \<Rightarrow> string list" where
  "str_split c [] = [[]]"
| "str_split c (x # s) = (if x = c then [] # str_split c s
     else (case str_split c s of [] \<Rightarrow> [[x]] | p # ps \<Rightarrow> (x # p) # ps))"

definition segments :: "string \<Rightarrow> string list" where
  "segments s = filter (\<lambda>p. p \<noteq> []) (str_split CHR ''/'' s)"

definition slash_path :: "string \<Rightarrow> string" where
  "slash_path s = concat (map (\<lambda>p. CHR ''/'' # p) (segments s))"

lemma str_split_Cons: "\<exists>p ps. str_split c s = p # ps"
  by (induction s) (auto split: list.splits)

lemma str_split_free: "c \<notin> set s \<Longrightarrow> str_split c s = [s]"
  by (induction s) auto

lemma str_split_sep: "c \<notin> set s \<Longrightarrow> str_split c (s @ c # t) = s # str_split c t"
  by (induction s) auto

lemma str_split_hd: "str_split c s = p # ps \<Longrightarrow> \<exists>v. s = p @ v"
proof (induction s arbitrary: p ps)
  case (Cons x s)
  obtain q qs where q: "str_split c s = q # qs" using str_split_Cons by blast
  then show ?case using Cons by (auto split: if_splits)
qed simp

lemma str_split_join: "c # s = concat (map (\<lambda>p. c # p) (str_split c s))"
proof (induction s)
  case (Cons x s)
  obtain p ps where "str_split c s = p # ps" using str_split_Cons by blast
  then show ?case using Cons by auto
qed simp

lemma segments_slash [simp]: "segments (CHR ''/'' # s) = segments s" "segments [] = []"
  by (simp_all add: segments_def)

lemma str_split_snoc: "str_split c (s @ [c]) = str_split c s @ [[]]"
  by (induction s) (auto split: list.splits, metis append_Cons list.distinct(1) list.inject str_split_Cons)

lemma segments_snoc [simp]: "segments (s @ [CHR ''/'']) = segments s"
  by (simp add: segments_def str_split_snoc)

lemma segments_rstrip: "segments (rstrip_char CHR ''/'' s) = segments s"
proof (induction s rule: rev_induct)
  case (snoc x s)
  then show ?case by (cases "x = CHR ''/''") (simp_all add: rstrip_char_def)
qed (simp add: rstrip_char_def)

text \<open>Replacing a double slash keeps the first piece and the non-empty pieces after it.\<close>

lemma split_replace:
  "hd (str_split CHR ''/'' (str_replace ''//'' ''/'' s)) = hd (str_split CHR ''/'' s)
   \<and> filter (\<lambda>p. p \<noteq> []) (tl (str_split CHR ''/'' (str_replace ''//'' ''/'' s))) = filter (\<lambda>p. p \<noteq> []) (tl (str_split CHR ''/'' s))"
proof (induction "length s" arbitrary: s rule: less_induct)
  case less
  have whole: "segments (str_replace ''//'' ''/'' t) = segments t" if "length t < length s" for t
  proof -
    obtain p ps q qs where "str_split CHR ''/'' (str_replace ''//'' ''/'' t) = p # ps" "str_split CHR ''/'' t = q # qs"
      using str_split_Cons by metis
    then show ?thesis using less [OF that] by (simp add: segments_def)
  qed
  show ?case
  proof (cases s)
    case (Cons c cs)
    show ?thesis
    proof (cases "startswith s ''//''")
      case True
      then obtain t where t: "s = CHR ''/'' # CHR ''/'' # t" by (auto simp: startswith_iff)
      then show ?thesis using whole [of t] by (simp add: segments_def startswith_def)
    next
      case False
      then have "str_replace ''//'' ''/'' (c # cs) = c # str_replace ''//'' ''/'' cs" using Cons by (simp del: One_nat_def)
      then have r: "str_replace ''//'' ''/'' s = c # str_replace ''//'' ''/'' cs" using Cons by simp
      obtain p ps q qs where pq: "str_split CHR ''/'' (str_replace ''//'' ''/'' cs) = p # ps" "str_split CHR ''/'' cs = q # qs"
        using str_split_Cons by metis
      show ?thesis
        using whole [of cs] less [of cs] pq Cons unfolding r by (auto simp: segments_def simp del: str_replace.simps)
    qed
  qed simp
qed

lemma segments_replace: "segments (str_replace ''//'' ''/'' s) = segments s"
proof -
  obtain p ps q qs where "str_split CHR ''/'' (str_replace ''//'' ''/'' s) = p # ps" "str_split CHR ''/'' s = q # qs"
    using str_split_Cons by metis
  then show ?thesis using split_replace [of s] by (simp add: segments_def)
qed

lemma collapse_facts:
  "segments (collapse_slashes s) = segments s"
  "\<not> str_in ''//'' (collapse_slashes s)"
  "startswith s ''/'' \<Longrightarrow> startswith (collapse_slashes s) ''/''"
proof (induction s rule: collapse_slashes.induct)
  case (1 s)
  {
    case 1
    then show ?case using "1.IH"(1) by (subst collapse_slashes.simps) (simp add: segments_replace)
  next
    case 2
    then show ?case using "1.IH"(2) by (subst collapse_slashes.simps) simp
  next
    case 3
    then obtain t where t: "s = CHR ''/'' # t" by (auto simp: startswith_iff)
    have "startswith (str_replace ''//'' ''/'' s) ''/''" by (simp add: t startswith_def)
    then show ?case using "1.IH"(3) 3 by (subst collapse_slashes.simps) simp
  }
qed

text \<open>A path without double slashes and without a trailing one is the path of its segments.\<close>

lemma split_nonempty:
  assumes "\<not> str_in ''//'' (CHR ''/'' # s)" and "last (CHR ''/'' # s) \<noteq> CHR ''/''" and "p \<in> set (str_split CHR ''/'' s)"
  shows "p \<noteq> []"
proof
  assume "p = []"
  then obtain us vs where "str_split CHR ''/'' s = us @ [] # vs" using assms(3) by (metis split_list)
  then have e: "CHR ''/'' # s = concat (map (Cons CHR ''/'') us) @ CHR ''/'' # concat (map (Cons CHR ''/'') vs)"
    using str_split_join [of "CHR ''/''" s] by simp
  show False
  proof (cases vs)
    case Nil
    then show ?thesis using assms(2) unfolding e by simp
  next
    case (Cons v vs')
    then have "CHR ''/'' # s = concat (map (Cons CHR ''/'') us) @ ''//'' @ v @ concat (map (Cons CHR ''/'') vs')"
      using e by simp
    then show ?thesis using assms(1) unfolding str_in_iff by blast
  qed
qed

lemma slash_path_id:
  assumes "\<not> str_in ''//'' t" and "startswith t ''/''" and "last t \<noteq> CHR ''/''"
  shows "slash_path t = t"
proof -
  obtain s where t: "t = CHR ''/'' # s" using assms(2) by (auto simp: startswith_iff)
  have "filter (\<lambda>p. p \<noteq> []) (str_split CHR ''/'' s) = str_split CHR ''/'' s"
    using split_nonempty [OF assms(1,3) [unfolded t]] by (intro filter_True) blast
  then have "slash_path t = concat (map (Cons CHR ''/'') (str_split CHR ''/'' s))"
    by (simp add: slash_path_def t) (simp add: segments_def)
  also have "... = t" unfolding t by (rule str_split_join [symmetric])
  finally show ?thesis .
qed

lemma rstrip_char_facts:
  "\<exists>u. s = rstrip_char c s @ u \<and> set u \<subseteq> {c}" "rstrip_char c s \<noteq> [] \<Longrightarrow> last (rstrip_char c s) \<noteq> c"
proof -
  have "rev (takeWhile (\<lambda>d. d = c) (rev s) @ dropWhile (\<lambda>d. d = c) (rev s)) = s"
    by (simp only: takeWhile_dropWhile_id rev_rev_ident)
  then have "s = rstrip_char c s @ rev (takeWhile (\<lambda>d. d = c) (rev s))"
    unfolding rstrip_char_def by (simp only: rev_append)
  moreover have "set (rev (takeWhile (\<lambda>d. d = c) (rev s))) \<subseteq> {c}" by (auto dest: set_takeWhileD)
  ultimately have "s = rstrip_char c s @ rev (takeWhile (\<lambda>d. d = c) (rev s))
      \<and> set (rev (takeWhile (\<lambda>d. d = c) (rev s))) \<subseteq> {c}" ..
  then show "\<exists>u. s = rstrip_char c s @ u \<and> set u \<subseteq> {c}" by (rule exI)
  show "rstrip_char c s \<noteq> [] \<Longrightarrow> last (rstrip_char c s) \<noteq> c"
    using hd_dropWhile [of "\<lambda>d. d = c" "rev s"] by (simp add: rstrip_char_def last_rev)
qed

lemma rstrip_keeps:
  assumes "\<not> str_in ''//'' t" and "startswith t ''/''" and "rstrip_char CHR ''/'' t \<noteq> []"
  shows "\<not> str_in ''//'' (rstrip_char CHR ''/'' t)" and "startswith (rstrip_char CHR ''/'' t) ''/''"
proof -
  obtain u where u: "t = rstrip_char CHR ''/'' t @ u" using rstrip_char_facts(1) by blast
  show "\<not> str_in ''//'' (rstrip_char CHR ''/'' t)"
    using assms(1) u unfolding str_in_iff by (metis append.assoc)
  show "startswith (rstrip_char CHR ''/'' t) ''/''"
  proof -
    obtain c r where r: "rstrip_char CHR ''/'' t = c # r" using assms(3) by (meson neq_Nil_conv)
    then have "startswith (c # r @ u) ''/''" using u assms(2) by (metis append_Cons)
    then show ?thesis unfolding r by (simp add: startswith_def)
  qed
qed

text \<open>The code computes the specification.\<close>

lemma normalized:
  "rstrip_char CHR ''/'' (collapse_slashes (if startswith s ''/'' then s else CHR ''/'' # s)) = slash_path s"
proof -
  let ?s = "if startswith s ''/'' then s else CHR ''/'' # s"
  let ?t = "collapse_slashes ?s" and ?r = "rstrip_char CHR ''/'' (collapse_slashes ?s)"
  have "startswith ?s ''/''" by (simp add: startswith_def)
  note t = collapse_facts(2) [of ?s] collapse_facts(3) [OF this]
  have seg: "segments ?r = segments s" by (simp add: segments_rstrip collapse_facts(1))
  show ?thesis
  proof (cases "?r = []")
    case True
    then show ?thesis using seg by (simp add: slash_path_def)
  next
    case False
    have "slash_path ?r = ?r"
      by (rule slash_path_id [OF rstrip_keeps [OF t False] rstrip_char_facts(2) [OF False]])
    then show ?thesis using seg by (simp add: slash_path_def)
  qed
qed

lemma slash_path_facts:
  "startswith (slash_path s) ''/'' \<or> slash_path s = []"
  "\<not> str_in ''//'' (slash_path s)" "slash_path s \<noteq> [] \<Longrightarrow> last (slash_path s) \<noteq> CHR ''/''"
proof -
  let ?t = "collapse_slashes (if startswith s ''/'' then s else CHR ''/'' # s)"
  have r: "rstrip_char CHR ''/'' ?t = slash_path s" by (rule normalized)
  have start: "startswith (if startswith s ''/'' then s else CHR ''/'' # s) ''/''" by (simp add: startswith_def)
  note t = collapse_facts(2) [of "if startswith s ''/'' then s else CHR ''/'' # s"] collapse_facts(3) [OF start]
  show "startswith (slash_path s) ''/'' \<or> slash_path s = []"
    using rstrip_keeps(2) [OF t] by (auto simp: r)
  show "\<not> str_in ''//'' (slash_path s)"
    using rstrip_keeps(1) [OF t] by (cases "slash_path s = []") (auto simp: r)
  show "last (slash_path s) \<noteq> CHR ''/''" if "slash_path s \<noteq> []"
    using rstrip_char_facts(2) [of "CHR ''/''" ?t] that by (simp add: r)
qed

lemma split_members: "\<Union> (set ` set (str_split c s)) \<subseteq> set s"
proof (induction s)
  case (Cons x s)
  obtain p ps where "str_split c s = p # ps" using str_split_Cons by blast
  then show ?case using Cons by auto
qed simp

lemma slash_path_members: "set (slash_path s) \<subseteq> insert (CHR ''/'') (set s)"
  using split_members [of "CHR ''/''" s] by (auto simp: slash_path_def segments_def)

lemma split_substring: "p \<in> set (str_split c s) \<Longrightarrow> str_in sub p \<Longrightarrow> str_in sub s"
proof (induction s arbitrary: p)
  case (Cons x s)
  obtain q qs where q: "str_split c s = q # qs" using str_split_Cons by blast
  consider "p \<in> set (str_split c s)" | "p = []" | "p = x # q" using Cons.prems(1) q by (auto split: if_splits)
  then show ?case
  proof cases
    case 1
    then show ?thesis using Cons by auto
  next
    case 2
    then show ?thesis using Cons.prems(2) by (simp add: startswith_def)
  next
    case 3
    obtain v where v: "s = q @ v" using str_split_hd [OF q] by blast
    show ?thesis using Cons.prems(2) unfolding 3 v str_in_iff by (metis append.assoc append_Cons)
  qed
qed simp

lemma dots_in_piece:
  "str_in ''..'' (p @ concat (map (Cons CHR ''/'') ps)) \<Longrightarrow> \<exists>q \<in> set (p # ps). str_in ''..'' q"
proof (induction ps arbitrary: p)
  case (Cons q ps)
  from Cons.prems show ?case
  proof (induction p)
    case Nil
    then have "str_in ''..'' (q @ concat (map (Cons CHR ''/'') ps))" by (simp add: startswith_def)
    from Cons.IH [OF this] show ?case by auto
  next
    case (Cons c p)
    show ?case
    proof (cases "startswith (c # p @ CHR ''/'' # q @ concat (map (Cons CHR ''/'') ps)) ''..''")
      case True
      then have "startswith (c # p) ''..''" by (cases p) (auto simp: startswith_def)
      then show ?thesis by simp
    next
      case False
      then show ?thesis using Cons by auto
    qed
  qed
qed simp

lemma slash_path_dots: "str_in ''..'' (slash_path s) \<Longrightarrow> str_in ''..'' s"
  using dots_in_piece [of "[]" "segments s"] split_substring [of _ "CHR ''/''" s "''..''"]
  by (auto simp: slash_path_def segments_def)

lemma normalize_spec:
  "normalize_url_path_prefix_str raw =
     (if CHR 0x0A \<in> set (strip raw) \<or> CHR 0x0D \<in> set (strip raw) \<or> str_in ''..'' (strip raw)
      then Inl (ValueError ''URL_PATH_PREFIX must not contain '..' or newline characters'')
      else Inr (slash_path (strip raw)))"
  by (auto simp: normalize_url_path_prefix_str_def normalized Let_def slash_path_def)

section \<open>Properties\<close>

text \<open>
  C37. The replace loop ends on every text, and the function computes its specification: the mount prefix is the list of the non-empty
  segments of the stripped text, each behind one slash; a text with a newline or with \<open>..\<close> is refused.
\<close>

theorem url_prefix_normal_form:
  "while_option (str_in ''//'') (\<lambda>s. str_replace ''//'' ''/'' s) s = Some (collapse_slashes s)
   \<and> normalize_url_path_prefix_str raw =
     (if CHR 0x0A \<in> set (strip raw) \<or> CHR 0x0D \<in> set (strip raw) \<or> str_in ''..'' (strip raw)
      then Inl (ValueError ''URL_PATH_PREFIX must not contain '..' or newline characters'')
      else Inr (slash_path (strip raw)))"
  using collapse_slashes_loop normalize_spec by (rule conjI)

text \<open>
  A normalised prefix is empty or starts with a slash, has no double slash and does not end with one;
  normalising it again, without surrounding white space, changes nothing.
\<close>

theorem url_prefix_idempotent:
  assumes "normalize_url_path_prefix_str raw = Inr p"
  shows "(p = [] \<or> startswith p ''/'') \<and> \<not> str_in ''//'' p \<and> (p \<noteq> [] \<longrightarrow> last p \<noteq> CHR ''/'')
    \<and> (strip p = p \<longrightarrow> normalize_url_path_prefix_str p = Inr p)"
proof -
  have ok: "CHR 0x0A \<notin> set (strip raw)" "CHR 0x0D \<notin> set (strip raw)" "\<not> str_in ''..'' (strip raw)" and p: "p = slash_path (strip raw)"
    using assms by (auto simp: normalize_spec split: if_splits)
  have "CHR 0x0A \<notin> set p" "CHR 0x0D \<notin> set p" "\<not> str_in ''..'' p"
    using ok slash_path_dots [of "strip raw"] slash_path_members [of "strip raw"] unfolding p by auto
  moreover have "slash_path p = p"
  proof (cases "p = []")
    case False
    then show ?thesis using slash_path_facts [of "strip raw"] by (intro slash_path_id) (auto simp: p)
  qed (simp add: slash_path_def)
  ultimately have "strip p = p \<longrightarrow> normalize_url_path_prefix_str p = Inr p"
    by (auto simp: normalize_spec)
  then show ?thesis using slash_path_facts [of "strip raw"] by (auto simp: p)
qed

theorem url_prefix_idempotent_witness:
  "normalize_url_path_prefix_str ''/abc/def'' = Inr ''/abc/def''"
proof -
  have "normalize_url_path_prefix_str '' //abc///def/ '' = Inr ''/abc/def''"
    by (simp add: normalize_spec slash_path_def segments_def strip_def lstrip_def rstrip_def
        py_isspace_def startswith_def)
  moreover have "strip ''/abc/def'' = ''/abc/def''"
    by (simp add: strip_def lstrip_def rstrip_def py_isspace_def)
  ultimately show ?thesis using url_prefix_idempotent by blast
qed

end
