(* ===== verification/Handshake.thy ===== *)
theory Handshake
  imports Auth Session Url_Prefix
begin

text \<open>
  Admission of WebSocket connections, \<open>_WsGuardMiddleware\<close> of \<open>transport/app.py\<close>, with the drain flag of
  \<open>shutdown/graceful.py\<close>. The ASGI server and the inner application are the record \<open>asgi\<close>. Byte strings of
  the scope are strings; the decoding of percent-encoded UTF-8 is the parameter \<open>utf8\<close>, since a \<open>char\<close> has
  8 bits.
\<close>

section \<open>Shutdown\<close>

text \<open>\<open>_on_signal\<close> and the synchronous handler set the same flags.\<close>

record GracefulShutdown =
  stop_timeout :: rat
  draining :: bool
  shutdown_event :: bool

definition new_shutdown :: "rat \<Rightarrow> GracefulShutdown" where
  "new_shutdown timeout = \<lparr>stop_timeout = timeout, draining = False, shutdown_event = False\<rparr>"

definition on_signal :: "GracefulShutdown \<Rightarrow> GracefulShutdown" where
  "on_signal s = s\<lparr>draining := True, shutdown_event := True\<rparr>"

section \<open>The scope\<close>

record ws_scope =
  sc_type :: string
  sc_path :: string
  sc_root_path :: string
  sc_query_string :: string
  sc_headers :: "(string \<times> string) list"
  sc_auth_subject :: "string option"
  sc_ownership_token :: "string option"
  sc_ownership_acquired :: bool

definition WS_PATH :: string where
  "WS_PATH = ''/ws/v1/realtime-transcriptions''"

definition normalize_ws_path :: "ws_scope \<Rightarrow> string" where
  "normalize_ws_path scope =
     (if sc_root_path scope \<noteq> [] \<and> startswith (sc_path scope) (sc_root_path scope)
      then (let trimmed = drop (length (sc_root_path scope)) (sc_path scope)
            in if trimmed = [] then ''/'' else trimmed)
      else sc_path scope)"

text \<open>\<open>urllib.parse.parse_qs\<close> with its defaults: blank values are dropped.\<close>

definition hex_digit :: "char \<Rightarrow> nat option" where
  "hex_digit c = (let n = of_char c in
     if 48 \<le> n \<and> n \<le> 57 then Some (n - 48)
     else if 65 \<le> n \<and> n \<le> 70 then Some (n - 55)
     else if 97 \<le> n \<and> n \<le> 102 then Some (n - 87) else None)"

fun unquote_to_bytes :: "string \<Rightarrow> string" where
  "unquote_to_bytes [] = []"
| "unquote_to_bytes (c # a # b # s) =
     (if c = CHR ''%''
      then (case (hex_digit a, hex_digit b) of
          (Some x, Some y) \<Rightarrow> char_of (16 * x + y) # unquote_to_bytes s
        | _ \<Rightarrow> c # unquote_to_bytes (a # b # s))
      else c # unquote_to_bytes (a # b # s))"
| "unquote_to_bytes (c # s) = c # unquote_to_bytes s"

text \<open>The maximal runs of ASCII characters are decoded, the other characters are kept.\<close>

function unquote_runs :: "(string \<Rightarrow> string) \<Rightarrow> string \<Rightarrow> string" where
  "unquote_runs utf8 [] = []"
| "unquote_runs utf8 (c # s) =
     (if of_char c < (128 :: nat)
      then utf8 (unquote_to_bytes (takeWhile (\<lambda>x. of_char x < (128 :: nat)) (c # s)))
        @ unquote_runs utf8 (dropWhile (\<lambda>x. of_char x < (128 :: nat)) (c # s))
      else c # unquote_runs utf8 s)"
  by pat_completeness auto
termination by (relation "measure (\<lambda>(u, s). length s)") (auto simp: le_imp_less_Suc length_dropWhile_le)

definition unquote :: "(string \<Rightarrow> string) \<Rightarrow> string \<Rightarrow> string" where
  "unquote utf8 s = (if CHR ''%'' \<notin> set s then s else unquote_runs utf8 s)"

definition query_field :: "(string \<Rightarrow> string) \<Rightarrow> string \<Rightarrow> string" where
  "query_field utf8 s = unquote utf8 (map (\<lambda>c. if c = CHR ''+'' then CHR '' '' else c) s)"

fun parse_pair :: "(string \<Rightarrow> string) \<Rightarrow> string \<Rightarrow> (string \<times> string) list" where
  "parse_pair utf8 s =
     (case dropWhile (\<lambda>c. c \<noteq> CHR ''='') s of
        [] \<Rightarrow> []
      | _ # v \<Rightarrow> if v = [] then [] else [(query_field utf8 (takeWhile (\<lambda>c. c \<noteq> CHR ''='') s), query_field utf8 v)])"

definition parse_qsl :: "(string \<Rightarrow> string) \<Rightarrow> string \<Rightarrow> (string \<times> string) list" where
  "parse_qsl utf8 qs = concat (map (parse_pair utf8) (str_split CHR ''&'' qs))"

text \<open>The first value of the parameter, or the empty string.\<close>

definition extract_conversation_id :: "(string \<Rightarrow> string) \<Rightarrow> ws_scope \<Rightarrow> string" where
  "extract_conversation_id utf8 scope =
     (case map_of (parse_qsl utf8 (sc_query_string scope)) ''conversationId'' of None \<Rightarrow> [] | Some v \<Rightarrow> v)"

text \<open>\<open>bytes.lower\<close>: ASCII letters only.\<close>

definition bytes_lower :: "string \<Rightarrow> string" where
  "bytes_lower s = map (\<lambda>c. if 65 \<le> (of_char c :: nat) \<and> of_char c \<le> (90 :: nat) then char_of (of_char c + 32 :: nat) else c) s"

definition extract_header :: "ws_scope \<Rightarrow> string \<Rightarrow> string option" where
  "extract_header scope header_name =
     map_option snd (find (\<lambda>(raw_name, raw_value). bytes_lower raw_name = header_name) (sc_headers scope))"

section \<open>The middleware\<close>

datatype asgi_message = ResponseStart int "(string \<times> string) list" | ResponseBody string

record ('a, 'g) asgi =
  asgi_receive :: "('a, unit) io"
  asgi_send :: "asgi_message \<Rightarrow> ('a, unit) io"
  inner_app :: "ws_scope \<Rightarrow> ('a \<times> 'g, unit) io"

text \<open>\<open>_deny_websocket\<close>: the status and the error frame as the HTTP answer to the upgrade request.\<close>

definition deny_websocket :: "('a, 'g) asgi \<Rightarrow> orjson \<Rightarrow> int \<Rightarrow> dict \<Rightarrow> ('a, unit) io" where
  "deny_websocket A J status_code error_response a =
     (case dumps J (JObj error_response) of
        Inl e \<Rightarrow> (Inl e, a)
      | Inr body \<Rightarrow>
          bindE (asgi_receive A) (\<lambda>_.
          bindE (asgi_send A (ResponseStart status_code
            [(''content-type'', ''application/json''), (''retry-after'', ''5'')])) (\<lambda>_.
          asgi_send A (ResponseBody body))) a)"

definition reject ::
  "('a, 'g) asgi \<Rightarrow> orjson \<Rightarrow> string \<Rightarrow> ProtocolErrorScenario \<Rightarrow> string option \<Rightarrow> string \<Rightarrow> string option
    \<Rightarrow> ('a \<times> 'g, unit) io" where
  "reject A J now scenario reason conversation_id details ag =
     (case require_http_status scenario of
        Inl e \<Rightarrow> (Inl e, ag)
      | Inr status_code \<Rightarrow>
          (case build_response scenario now conversation_id details of
             Inl e \<Rightarrow> (Inl e, ag)
           | Inr error_response \<Rightarrow>
               (case (case reason of None \<Rightarrow> default_log_reason scenario | Some t \<Rightarrow> Some t) of
                  None \<Rightarrow> (Inl (AssertionError []), ag)
                | Some _ \<Rightarrow>
                    (case deny_websocket A J status_code error_response (fst ag) of
                       (r, a) \<Rightarrow> (r, a, snd ag)))))"

record 'g ws_guard =
  guard_max_connections :: int
  guard_auth :: "(string option \<Rightarrow> auth_error + AuthPrincipal) option"
  guard_ownership :: "'g guard_ops option"

text \<open>
  \<open>__call__\<close>, in the order of its checks. \<open>new_token\<close> is \<open>uuid.uuid4().hex\<close>; the drain flag and the
  count of connections are read between two awaits, so they are one value each.
\<close>

definition claim_and_forward ::
  "('a, 'g) asgi \<Rightarrow> orjson \<Rightarrow> 'g ws_guard \<Rightarrow> string \<Rightarrow> string \<Rightarrow> string \<Rightarrow> ws_scope \<Rightarrow> ('a \<times> 'g, unit) io" where
  "claim_and_forward A J cfg now new_token cid scope ag =
     (case guard_ownership cfg of
        None \<Rightarrow> inner_app A scope ag
      | Some G \<Rightarrow>
          (case g_claim_or_refresh G cid new_token (snd ag) of
             (Inl e, g) \<Rightarrow>
               reject A J now DOWNSTREAM_UNAVAILABLE
                 (Some ''Transport: Failed to acquire conversation ownership guard, rejecting connection'') cid
                 (Some ''Conversation ownership guard store unavailable'') (fst ag, g)
           | (Inr owned, g) \<Rightarrow>
               if \<not> owned then reject A J now ACTIVE_SENDER_CONFLICT None cid None (fst ag, g)
               else inner_app A (scope\<lparr>sc_ownership_token := Some new_token, sc_ownership_acquired := True\<rparr>) (fst ag, g)))"

definition admit_capacity ::
  "('a, 'g) asgi \<Rightarrow> orjson \<Rightarrow> 'g ws_guard \<Rightarrow> bool \<Rightarrow> int \<Rightarrow> string \<Rightarrow> string \<Rightarrow> string \<Rightarrow> ws_scope \<Rightarrow> ('a \<times> 'g, unit) io" where
  "admit_capacity A J cfg is_draining active now new_token cid scope ag =
     (if is_draining then reject A J now SERVICE_DRAINING None cid None ag
      else if guard_max_connections cfg > 0 \<and> active \<ge> guard_max_connections cfg
      then (case format_details CONNECTION_LIMIT_EXCEEDED
               [(''active'', FInt active), (''max_connections'', FInt (guard_max_connections cfg))] of
          Inl e \<Rightarrow> (Inl e, ag)
        | Inr details \<Rightarrow> reject A J now CONNECTION_LIMIT_EXCEEDED None cid details ag)
      else claim_and_forward A J cfg now new_token cid scope ag)"

definition ws_guard_call ::
  "(string \<Rightarrow> string) \<Rightarrow> ('a, 'g) asgi \<Rightarrow> orjson \<Rightarrow> 'g ws_guard \<Rightarrow> bool \<Rightarrow> int \<Rightarrow> string \<Rightarrow> string \<Rightarrow> ws_scope
    \<Rightarrow> ('a \<times> 'g, unit) io" where
  "ws_guard_call utf8 A J cfg is_draining active now new_token scope ag =
     (if sc_type scope \<noteq> ''websocket'' then inner_app A scope ag
      else if normalize_ws_path scope \<noteq> WS_PATH then inner_app A scope ag
      else
        (let cid = extract_conversation_id utf8 scope in
         if cid = [] then reject A J now MISSING_QUERY_CONVERSATION_ID None [] None ag
         else (case guard_auth cfg of
             None \<Rightarrow> admit_capacity A J cfg is_draining active now new_token cid scope ag
           | Some auth \<Rightarrow>
               (case auth (extract_header scope ''authorization'') of
                  Inl (AuthenticationError details) \<Rightarrow> reject A J now AUTHENTICATION_FAILED None cid (Some details) ag
                | Inl (AuthUncaught e) \<Rightarrow> (Inl e, ag)
                | Inr who \<Rightarrow>
                    admit_capacity A J cfg is_draining active now new_token cid
                      (scope\<lparr>sc_auth_subject := subject who\<rparr>) ag))))"

section \<open>What the server sees\<close>

text \<open>An ASGI server that records what happens, with any outcome of the inner application.\<close>

datatype asgi_event = Received | Sent asgi_message | Forwarded ws_scope

definition recording :: "(ws_scope \<Rightarrow> ('g, unit) io) \<Rightarrow> (asgi_event list, 'g) asgi" where
  "recording app = \<lparr>asgi_receive = (\<lambda>tr. (Inr (), tr @ [Received])), asgi_send = (\<lambda>m tr. (Inr (), tr @ [Sent m])),
     inner_app = (\<lambda>scope (tr, g). case app scope g of (r, g') \<Rightarrow> (r, tr @ [Forwarded scope], g'))\<rparr>"

lemma recording_simps [simp]:
  "asgi_receive (recording app) tr = (Inr (), tr @ [Received])"
  "asgi_send (recording app) m tr = (Inr (), tr @ [Sent m])"
  "inner_app (recording app) scope (tr, g) = (fst (app scope g), tr @ [Forwarded scope], snd (app scope g))"
  by (simp_all add: recording_def split: prod.splits)

text \<open>The refusals of the handshake and their statuses.\<close>

definition refusal_status :: "ProtocolErrorScenario \<Rightarrow> int option" where
  "refusal_status sc = map_of [(MISSING_QUERY_CONVERSATION_ID, 400), (AUTHENTICATION_FAILED, 401), (ACTIVE_SENDER_CONFLICT, 403),
     (SERVICE_DRAINING, 503), (CONNECTION_LIMIT_EXCEEDED, 429), (DOWNSTREAM_UNAVAILABLE, 503)] sc"

text \<open>The events of a refusal: one answer with the status and the error frame, if the frame can be encoded.\<close>

definition refusal_events :: "orjson \<Rightarrow> string \<Rightarrow> ProtocolErrorScenario \<Rightarrow> int \<Rightarrow> string \<Rightarrow> string option \<Rightarrow> asgi_event list" where
  "refusal_events J now sc http cid details =
     (case dumps J (JObj (error_frame sc now cid details)) of
        Inl _ \<Rightarrow> []
      | Inr body \<Rightarrow> [Received, Sent (ResponseStart http [(''content-type'', ''application/json''), (''retry-after'', ''5'')]),
          Sent (ResponseBody body)])"

lemma reject_events:
  assumes "refusal_status sc = Some http" and "needs_arguments sc \<longrightarrow> details \<noteq> None"
    and "reason \<noteq> None \<or> default_log_reason sc \<noteq> None"
    and run: "reject (recording app) J now sc reason cid details (tr, g) = (r, tr', g')"
  shows "tr' = tr @ refusal_events J now sc http cid details \<and> g' = g"
proof -
  have "require_http_status sc = Inr http"
    using assms(1) by (auto simp: refusal_status_def require_http_status_def split: if_splits)
  moreover obtain t where "(case reason of None \<Rightarrow> default_log_reason sc | Some t \<Rightarrow> Some t) = Some t"
    using assms(3) by (cases reason) auto
  ultimately show ?thesis
    using run assms(2)
    by (auto simp: reject_def build_response_frame deny_websocket_def refusal_events_def bindE_def
        split: sum.splits)
qed

text \<open>
  The ways through the middleware, for the recording server: forwarded, refused, or an exception of the
  authentication other than its own.
\<close>

lemma admission_cases [consumes 3, case_names forwarded refused uncaught]:
  assumes ws: "sc_type scope = ''websocket''" "normalize_ws_path scope = WS_PATH"
    and run: "ws_guard_call utf8 (recording app) J cfg drains active now tok scope ([], g) = (r, tr, g')"
  obtains
    (forwarded) sc g1 where "tr = [Forwarded sc]" "g' = snd (app sc g1)"
      "extract_conversation_id utf8 scope \<noteq> []" "\<not> drains"
      "guard_max_connections cfg \<le> 0 \<or> active < guard_max_connections cfg"
      "case guard_auth cfg of None \<Rightarrow> sc_auth_subject sc = sc_auth_subject scope
        | Some auth \<Rightarrow> \<exists>who. auth (extract_header scope ''authorization'') = Inr who \<and> sc_auth_subject sc = subject who"
      "case guard_ownership cfg of None \<Rightarrow> g1 = g
        | Some G \<Rightarrow> g_claim_or_refresh G (extract_conversation_id utf8 scope) tok g = (Inr True, g1)
            \<and> sc_ownership_token sc = Some tok \<and> sc_ownership_acquired sc"
  | (refused) sc http details cid where "refusal_status sc = Some http" "tr = refusal_events J now sc http cid details"
      "cid = extract_conversation_id utf8 scope"
      "sc = MISSING_QUERY_CONVERSATION_ID \<longleftrightarrow> cid = []"
      "sc = AUTHENTICATION_FAILED \<Longrightarrow> \<exists>auth d. guard_auth cfg = Some auth
         \<and> auth (extract_header scope ''authorization'') = Inl (AuthenticationError d) \<and> details = Some d"
      "sc = SERVICE_DRAINING \<Longrightarrow> drains"
      "sc = CONNECTION_LIMIT_EXCEEDED \<Longrightarrow> 0 < guard_max_connections cfg \<and> guard_max_connections cfg \<le> active"
      "sc \<in> {DOWNSTREAM_UNAVAILABLE, ACTIVE_SENDER_CONFLICT} \<Longrightarrow> \<exists>G rc. guard_ownership cfg = Some G
         \<and> g_claim_or_refresh G cid tok g = (rc, g') \<and> (if sc = ACTIVE_SENDER_CONFLICT then rc = Inr False else is_error rc)"
      "sc \<notin> {DOWNSTREAM_UNAVAILABLE, ACTIVE_SENDER_CONFLICT} \<Longrightarrow> g' = g"
  | (uncaught) auth e where "guard_auth cfg = Some auth" "tr = []" "g' = g" "r = Inl e"
      "auth (extract_header scope ''authorization'') = Inl (AuthUncaught e)"
proof -
  let ?A = "recording app" and ?cid = "extract_conversation_id utf8 scope"
  note refuse = reject_events [where tr = "[]", unfolded append_Nil]
  have claim: thesis
    if c: "claim_and_forward ?A J cfg now tok ?cid sc0 ([], g) = (r, tr, g')" and cid: "?cid \<noteq> []" and d: "\<not> drains"
      and lim: "guard_max_connections cfg \<le> 0 \<or> active < guard_max_connections cfg"
      and auth: "case guard_auth cfg of None \<Rightarrow> sc_auth_subject sc0 = sc_auth_subject scope
        | Some auth \<Rightarrow> \<exists>who. auth (extract_header scope ''authorization'') = Inr who \<and> sc_auth_subject sc0 = subject who"
    for sc0
  proof (cases "guard_ownership cfg")
    case None
    then show thesis using c cid d lim auth by (intro forwarded [of sc0 g]) (auto simp: claim_and_forward_def)
  next
    case (Some G)
    obtain rc g1 where g1: "g_claim_or_refresh G ?cid tok g = (rc, g1)" by fastforce
    show thesis
    proof (cases rc)
      case (Inl e)
      then have "reject ?A J now DOWNSTREAM_UNAVAILABLE
                 (Some ''Transport: Failed to acquire conversation ownership guard, rejecting connection'') ?cid
                 (Some ''Conversation ownership guard store unavailable'') ([], g1) = (r, tr, g')"
        using c Some g1 by (simp add: claim_and_forward_def)
      from refuse [OF _ _ _ this, of 503] show thesis
        using Some g1 Inl cid
        by (intro refused [of DOWNSTREAM_UNAVAILABLE 503]) (auto simp: refusal_status_def)
    next
      case (Inr owned)
      show thesis
      proof (cases owned)
        case True
        then show thesis using c cid d lim auth Some g1 Inr
          by (intro forwarded [of "sc0\<lparr>sc_ownership_token := Some tok, sc_ownership_acquired := True\<rparr>" g1])
            (auto simp: claim_and_forward_def split: option.splits)
      next
        case False
        then have "reject ?A J now ACTIVE_SENDER_CONFLICT None ?cid None ([], g1) = (r, tr, g')"
          using c Some g1 Inr by (simp add: claim_and_forward_def)
        from refuse [OF _ _ _ this, of 403] show thesis
          using Some g1 Inr False cid
          by (intro refused [of ACTIVE_SENDER_CONFLICT 403])
            (auto simp: refusal_status_def needs_arguments_def default_log_reason_def)
      qed
    qed
  qed
  have capacity: thesis
    if c: "admit_capacity ?A J cfg drains active now tok ?cid sc0 ([], g) = (r, tr, g')" and cid: "?cid \<noteq> []"
      and auth: "case guard_auth cfg of None \<Rightarrow> sc_auth_subject sc0 = sc_auth_subject scope
        | Some auth \<Rightarrow> \<exists>who. auth (extract_header scope ''authorization'') = Inr who \<and> sc_auth_subject sc0 = subject who"
    for sc0
  proof (cases drains)
    case True
    then have "reject ?A J now SERVICE_DRAINING None ?cid None ([], g) = (r, tr, g')"
      using c by (simp add: admit_capacity_def)
    from refuse [OF _ _ _ this, of 503] show thesis
      using True cid
      by (intro refused [of SERVICE_DRAINING 503])
        (auto simp: refusal_status_def needs_arguments_def default_log_reason_def)
  next
    case False
    show thesis
    proof (cases "guard_max_connections cfg > 0 \<and> active \<ge> guard_max_connections cfg")
      case True
      then have "reject ?A J now CONNECTION_LIMIT_EXCEEDED None ?cid (Some (''Active '' @ str_of_int active @ '' >= limit ''
          @ str_of_int (guard_max_connections cfg))) ([], g) = (r, tr, g')"
        using c False by (simp add: admit_capacity_def format_details_limit)
      from refuse [OF _ _ _ this, of 429] show thesis
        using True cid
        by (intro refused [of CONNECTION_LIMIT_EXCEEDED 429])
          (auto simp: refusal_status_def default_log_reason_def)
    next
      case lim: False
      then show thesis using c cid auth False by (intro claim [of sc0]) (auto simp: admit_capacity_def)
    qed
  qed
  show thesis
  proof (cases "?cid = []")
    case True
    then have "reject ?A J now MISSING_QUERY_CONVERSATION_ID None ?cid None ([], g) = (r, tr, g')"
      using run ws by (simp add: ws_guard_call_def)
    from refuse [OF _ _ _ this, of 400] show thesis
      using True
      by (intro refused [of MISSING_QUERY_CONVERSATION_ID 400])
        (auto simp: refusal_status_def needs_arguments_def default_log_reason_def)
  next
    case cid: False
    show thesis
    proof (cases "guard_auth cfg")
      case None
      then show thesis using run ws cid by (intro capacity [of scope]) (auto simp: ws_guard_call_def Let_def)
    next
      case (Some auth)
      show thesis
      proof (cases "auth (extract_header scope ''authorization'')")
        case (Inr who)
        then show thesis using run ws cid Some
          by (intro capacity [of "scope\<lparr>sc_auth_subject := subject who\<rparr>"]) (auto simp: ws_guard_call_def Let_def)
      next
        case (Inl ae)
        show thesis
        proof (cases ae)
          case (AuthenticationError d)
          then have "reject ?A J now AUTHENTICATION_FAILED None ?cid (Some d) ([], g) = (r, tr, g')"
            using run ws cid Some Inl by (simp add: ws_guard_call_def Let_def)
          from refuse [OF _ _ _ this, of 401] show thesis
            using cid Some Inl AuthenticationError
            by (intro refused [of AUTHENTICATION_FAILED 401])
              (auto simp: refusal_status_def default_log_reason_def)
        next
          case (AuthUncaught e)
          then show thesis using run ws cid Some Inl by (intro uncaught [of auth e]) (auto simp: ws_guard_call_def Let_def)
        qed
      qed
    qed
  qed
qed

section \<open>Query strings\<close>

text \<open>A value that needs no decoding.\<close>

definition plain_value :: "string \<Rightarrow> bool" where
  "plain_value v \<longleftrightarrow> set v \<inter> {CHR ''&'', CHR ''+'', CHR ''%''} = {}"

lemma query_field_plain: "plain_value v \<Longrightarrow> query_field utf8 v = v"
proof -
  assume p: "plain_value v"
  then have "map (\<lambda>c. if c = CHR ''+'' then CHR '' '' else c) v = v" by (intro map_idI) (auto simp: plain_value_def)
  then show ?thesis using p by (simp add: query_field_def unquote_def plain_value_def)
qed

lemma parse_pair_plain:
  "plain_value n \<Longrightarrow> CHR ''='' \<notin> set n \<Longrightarrow> plain_value v \<Longrightarrow> v \<noteq> [] \<Longrightarrow> parse_pair utf8 (n @ CHR ''='' # v) = [(n, v)]"
proof -
  assume h: "plain_value n" "CHR ''='' \<notin> set n" "plain_value v" "v \<noteq> []"
  have "dropWhile (\<lambda>c. c \<noteq> CHR ''='') (n @ CHR ''='' # v) = CHR ''='' # v"
    and "takeWhile (\<lambda>c. c \<noteq> CHR ''='') (n @ CHR ''='' # v) = n"
    using h(2) by (induction n) auto
  then show ?thesis using h by (simp add: query_field_plain)
qed

lemma extract_first:
  assumes "sc_query_string scope = ''conversationId='' @ v @ rest" and "rest = [] \<or> (\<exists>t. rest = CHR ''&'' # t)"
    and "plain_value v" "v \<noteq> []"
  shows "extract_conversation_id utf8 scope = v"
proof -
  have n: "plain_value ''conversationId''" "CHR ''='' \<notin> set ''conversationId''" by (simp_all add: plain_value_def)
  let ?p = "''conversationId'' @ CHR ''='' # v"
  have pair: "parse_pair utf8 ?p = [(''conversationId'', v)]" by (rule parse_pair_plain [OF n assms(3,4)])
  have free: "CHR ''&'' \<notin> set ?p" using assms(3) by (auto simp: plain_value_def)
  have q: "sc_query_string scope = ?p @ rest" using assms(1) by simp
  have "\<exists>ps. str_split CHR ''&'' (?p @ rest) = ?p # ps"
    using assms(2)
  proof
    assume "rest = []"
    then show ?thesis using str_split_free [OF free] by (simp only: append_Nil2) blast
  next
    assume "\<exists>t. rest = CHR ''&'' # t"
    then show ?thesis using str_split_sep [OF free] by (elim exE) (simp only:, blast)
  qed
  then obtain ps where ps: "str_split CHR ''&'' (sc_query_string scope) = ?p # ps" unfolding q by blast
  have "parse_qsl utf8 (sc_query_string scope) = (''conversationId'', v) # concat (map (parse_pair utf8) ps)"
    by (simp only: parse_qsl_def ps list.map concat.simps pair) simp
  then show ?thesis by (simp add: extract_conversation_id_def)
qed

lemma drop_prefix: "startswith p r \<Longrightarrow> drop (length r) p = t \<longleftrightarrow> p = r @ t"
  by (auto simp: startswith_iff)

section \<open>Properties\<close>


text \<open>
  C23. A WebSocket connection that does not reach the application is refused with one HTTP answer (or an
  exception of the authentication backend passes through): its status and error frame are those of the check that
  failed, 400 without a conversation, 401, 403 when another token owns the conversation, 429 at the
  limit, 503 when draining or without Redis. No ownership of another token has changed; only when Redis
  failed may the conversation now belong to the refused connection's token.
\<close>

theorem refused_by_failed_check:
  assumes redis: "redis_backend R C db sha up loaded" and ok: "guard_ok sha g"
    and ws: "sc_type scope = ''websocket''" "normalize_ws_path scope = WS_PATH"
    and own: "guard_ownership cfg = Some (redis_guard C)"
    and auth: "\<And>auth e. guard_auth cfg = Some auth \<Longrightarrow> auth (extract_header scope ''authorization'') \<noteq> Inl (AuthUncaught e)"
    and run: "ws_guard_call utf8 (recording app) J cfg drains active now tok scope ([], g) = (r, tr, g')"
    and refused: "\<And>sc. Forwarded sc \<notin> set tr"
  defines "cid \<equiv> extract_conversation_id utf8 scope"
  shows "\<exists>sc http details. (sc, http) \<in> {(MISSING_QUERY_CONVERSATION_ID, 400), (AUTHENTICATION_FAILED, 401),
        (ACTIVE_SENDER_CONFLICT, 403), (CONNECTION_LIMIT_EXCEEDED, 429), (SERVICE_DRAINING, 503), (DOWNSTREAM_UNAVAILABLE, 503)}
    \<and> tr = refusal_events J now sc http cid details
    \<and> (sc = MISSING_QUERY_CONVERSATION_ID \<longleftrightarrow> cid = [])
    \<and> (sc = AUTHENTICATION_FAILED \<longrightarrow> (\<exists>auth d. guard_auth cfg = Some auth
        \<and> auth (extract_header scope ''authorization'') = Inl (AuthenticationError d) \<and> details = Some d))
    \<and> (sc = SERVICE_DRAINING \<longrightarrow> drains)
    \<and> (sc = CONNECTION_LIMIT_EXCEEDED \<longrightarrow> 0 < guard_max_connections cfg \<and> guard_max_connections cfg \<le> active)
    \<and> (sc = ACTIVE_SENDER_CONFLICT \<longrightarrow> guard_owner R db cid g \<notin> {None, Some tok})
    \<and> foreign_owners_kept (guard_owner R db) cid tok g g'
    \<and> (sc \<noteq> DOWNSTREAM_UNAVAILABLE \<longrightarrow> guard_owner R db cid g' = guard_owner R db cid g)"
proof -
  have c: "ownership_backend (redis_guard C) (guard_ok sha) (guard_owner R db)"
    using redis by (rule redis_backend.guard_contract)
  from ws run show ?thesis
  proof (cases rule: admission_cases)
    case (refused sc http details cid')
    have row: "(sc, http) \<in> {(MISSING_QUERY_CONVERSATION_ID, 400), (AUTHENTICATION_FAILED, 401),
        (ACTIVE_SENDER_CONFLICT, 403), (CONNECTION_LIMIT_EXCEEDED, 429), (SERVICE_DRAINING, 503), (DOWNSTREAM_UNAVAILABLE, 503)}"
      using refused(1) by (auto simp: refusal_status_def split: if_splits)
    have kept: "foreign_owners_kept (guard_owner R db) cid tok g g'
        \<and> (sc \<noteq> DOWNSTREAM_UNAVAILABLE \<longrightarrow> guard_owner R db cid g' = guard_owner R db cid g)
        \<and> (sc = ACTIVE_SENDER_CONFLICT \<longrightarrow> guard_owner R db cid g \<notin> {None, Some tok})"
    proof (cases "sc \<in> {DOWNSTREAM_UNAVAILABLE, ACTIVE_SENDER_CONFLICT}")
      case True
      then obtain rc where rc: "g_claim_or_refresh (redis_guard C) cid tok g = (rc, g')" "sc = ACTIVE_SENDER_CONFLICT \<Longrightarrow> rc = Inr False"
        using refused(3,8) own by (auto simp: cid_def split: if_splits)
      show ?thesis
        using ownership_backend.claim_keeps [OF c ok rc(1)] ownership_backend.claim_refused [OF c ok, of cid tok g'] rc True by auto
    next
      case False
      then show ?thesis using refused(9) by auto
    qed
    show ?thesis
      using row kept refused by (intro exI [of _ sc] exI [of _ http] exI [of _ details]) (auto simp: cid_def)
  qed (use assms(8) auth in auto)
qed

text \<open>Concrete handshakes, in front of an application that does nothing.\<close>

definition sample_scope :: "string \<Rightarrow> ws_scope" where
  "sample_scope qs = \<lparr>sc_type = ''websocket'', sc_path = ''/svc/ws/v1/realtime-transcriptions'', sc_root_path = ''/svc'',
     sc_query_string = qs, sc_headers = [], sc_auth_subject = None, sc_ownership_token = None, sc_ownership_acquired = False\<rparr>"

definition sample_ws_guard :: "(ownership_guard \<times> redis_server) ws_guard" where
  "sample_ws_guard = \<lparr>guard_max_connections = 2, guard_auth = None, guard_ownership = Some (redis_guard server_client)\<rparr>"

abbreviation sample_handshake where
  "sample_handshake qs drains tok g \<equiv> ws_guard_call id (recording (\<lambda>sc g. (Inr (), g))) numbering_orjson sample_ws_guard drains 0
     ''now'' tok (sample_scope qs) ([], g)"

lemma sample_scope_facts:
  "sc_type (sample_scope qs) = ''websocket''" "normalize_ws_path (sample_scope qs) = WS_PATH"
  "guard_ownership sample_ws_guard = Some (redis_guard server_client)" "guard_auth sample_ws_guard = None"
  by (simp_all add: sample_scope_def normalize_ws_path_def WS_PATH_def startswith_def sample_ws_guard_def)

lemma sample_cid:
  "extract_conversation_id id (sample_scope ''conversationId=c1'') = ''c1''"
  "extract_conversation_id id (sample_scope ''conversationId=zz&conversationId=c1'') = ''zz''"
  by (rule extract_first [where rest = "[]"], simp_all add: sample_scope_def plain_value_def)
    (rule extract_first [where rest = "''&conversationId=c1''"], simp_all add: plain_value_def)

lemma sample_claims:
  "\<exists>g1. g_claim_or_refresh (redis_guard server_client) ''c1'' ''a'' (sample_guard, redis_owned) = (Inr True, g1)"
  "\<exists>g1. g_claim_or_refresh (redis_guard server_client) ''c1'' ''b'' (sample_guard, redis_owned) = (Inr False, g1)"
  "\<exists>g1. g_claim_or_refresh (redis_guard server_client) ''zz'' ''b'' (sample_guard, redis_owned) = (Inr True, g1)"
proof -
  have zz: "guard_owner clock_redis_ops rs_db ''zz'' (sample_guard, redis_owned) = None"
    by (simp add: redis_owned_def guard_owner_def sample_guard_def server_simps)
  show "\<exists>g1. g_claim_or_refresh (redis_guard server_client) ''c1'' ''a'' (sample_guard, redis_owned) = (Inr True, g1)"
    and "\<exists>g1. g_claim_or_refresh (redis_guard server_client) ''c1'' ''b'' (sample_guard, redis_owned) = (Inr False, g1)"
    and "\<exists>g1. g_claim_or_refresh (redis_guard server_client) ''zz'' ''b'' (sample_guard, redis_owned) = (Inr True, g1)"
    using redis_backend.claim_up [OF server.redis_backend_axioms sample_guard_ok, of redis_owned "''c1''" "''a''"]
      redis_backend.claim_up [OF server.redis_backend_axioms sample_guard_ok, of redis_owned "''c1''" "''b''"]
      redis_backend.claim_up [OF server.redis_backend_axioms sample_guard_ok, of redis_owned "''zz''" "''b''"] zz
    by (simp_all add: redis_guard_def)
qed

lemma sample_forwarded:
  assumes "extract_conversation_id id (sample_scope qs) = cid" "cid \<noteq> []"
    and "g_claim_or_refresh (redis_guard server_client) cid tok g = (Inr True, g1)"
  shows "sample_handshake qs False tok g =
    (Inr (), [Forwarded ((sample_scope qs)\<lparr>sc_ownership_token := Some tok, sc_ownership_acquired := True\<rparr>)], g1)"
  using assms by (simp add: ws_guard_call_def sample_scope_facts admit_capacity_def claim_and_forward_def Let_def)
    (simp add: sample_ws_guard_def)

lemma sample_refused:
  assumes "extract_conversation_id id (sample_scope qs) = cid" "cid \<noteq> []"
    and "g_claim_or_refresh (redis_guard server_client) cid tok g = (Inr False, g1)"
  shows "sample_handshake qs False tok g =
    reject (recording (\<lambda>sc g. (Inr (), g))) numbering_orjson ''now'' ACTIVE_SENDER_CONFLICT None cid None ([], g1)"
  using assms by (simp add: ws_guard_call_def sample_scope_facts admit_capacity_def claim_and_forward_def Let_def)
    (simp add: sample_ws_guard_def)


theorem refused_by_failed_check_witness:
  "\<exists>r tr g'. sample_handshake ''conversationId=c1'' False ''b'' (sample_guard, redis_owned) = (r, tr, g')
    \<and> guard_owner clock_redis_ops rs_db ''c1'' g' = Some ''a''"
proof -
  obtain g1 where g1: "g_claim_or_refresh (redis_guard server_client) ''c1'' ''b'' (sample_guard, redis_owned) = (Inr False, g1)"
    using sample_claims(2) by blast
  obtain r tr g' where run: "sample_handshake ''conversationId=c1'' False ''b'' (sample_guard, redis_owned) = (r, tr, g')"
    by (metis prod_cases3)
  have "tr = [] @ refusal_events numbering_orjson ''now'' ACTIVE_SENDER_CONFLICT 403 ''c1'' None"
    using run sample_refused [OF sample_cid(1) _ g1]
    by (intro reject_events [where r = r and g = g1 and g' = g', THEN conjunct1])
      (auto simp: refusal_status_def needs_arguments_def default_log_reason_def)
  then have "Forwarded sc \<notin> set tr" for sc by (auto simp: refusal_events_def split: sum.splits)
  from refused_by_failed_check [OF server.redis_backend_axioms sample_guard_ok sample_scope_facts(1,2,3) _ run this]
  have "foreign_owners_kept (guard_owner clock_redis_ops rs_db) ''c1'' ''b'' (sample_guard, redis_owned) g'"
    by (auto simp: sample_scope_facts sample_cid)
  then show ?thesis using run by (simp add: foreign_owners_kept_def)
qed

text \<open>
  Wherever the service is mounted, a WebSocket connection to \<open>prefix + WS_PATH\<close> whose query starts with
  \<open>conversationId=v\<close>, for a value that needs no decoding, is checked by the middleware as a connection of
  conversation \<open>v\<close>, whatever follows in the query.
\<close>

theorem guarded_path_and_conversation:
  assumes "sc_path scope = prefix @ WS_PATH" and "sc_root_path scope = prefix"
    and "sc_query_string scope = ''conversationId='' @ v @ rest" and "rest = [] \<or> (\<exists>t. rest = CHR ''&'' # t)"
    and "plain_value v" and "v \<noteq> []"
  shows "normalize_ws_path scope = WS_PATH \<and> extract_conversation_id utf8 scope = v"
  using extract_first [OF assms(3-6)] assms(1,2) by (simp add: normalize_ws_path_def WS_PATH_def)

theorem guarded_path_and_conversation_witness:
  "normalize_ws_path (sample_scope ''conversationId=zz&conversationId=c1'') = WS_PATH
    \<and> extract_conversation_id id (sample_scope ''conversationId=zz&conversationId=c1'') = ''zz''"
  by (rule guarded_path_and_conversation [where prefix = "''/svc''" and rest = "''&conversationId=c1''"])
    (simp_all add: sample_scope_def WS_PATH_def plain_value_def)

text \<open>
  Once a termination signal has arrived no WebSocket connection is admitted any more, and it stays so
  after further signals; the main loop is notified.
\<close>

theorem draining_admits_nobody:
  assumes ws: "sc_type scope = ''websocket''" "normalize_ws_path scope = WS_PATH"
    and run: "ws_guard_call utf8 (recording app) J cfg (draining ((on_signal ^^ Suc n) s)) active now tok scope ([], g) = (r, tr, g')"
  shows "Forwarded sc \<notin> set tr \<and> g' = g \<and> shutdown_event ((on_signal ^^ Suc n) s)"
proof -
  have d: "draining ((on_signal ^^ Suc n) s)" "shutdown_event ((on_signal ^^ Suc n) s)" by (simp_all add: on_signal_def)
  from ws run show ?thesis
  proof (cases rule: admission_cases)
    case (refused sc' http details cid)
    have "g' = g"
      using run ws d refused(8,9) by (auto simp: ws_guard_call_def admit_capacity_def reject_def Let_def
          split: option.splits sum.splits auth_error.splits if_splits prod.splits)
    then show ?thesis using refused(2) d by (auto simp: refusal_events_def split: sum.splits)
  qed (use d in auto)
qed

theorem draining_admits_nobody_witness:
  "\<forall>sc. Forwarded sc \<notin> set (fst (snd (sample_handshake ''conversationId=c1'' (draining ((on_signal ^^ Suc 0) (new_shutdown 120))) ''a''
     (sample_guard, redis_owned))))"
proof -
  obtain r tr g' where run: "sample_handshake ''conversationId=c1'' (draining ((on_signal ^^ Suc 0) (new_shutdown 120))) ''a''
      (sample_guard, redis_owned) = (r, tr, g')" by (metis prod_cases3)
  show ?thesis using draining_admits_nobody [OF sample_scope_facts(1,2) run] run by simp
qed

text \<open>The session of \<open>c1\<close>, over the scope that the handshake has forwarded.\<close>

definition forwarded_session ::
  "ws_scope \<Rightarrow> ownership_guard \<times> redis_server \<Rightarrow> bool \<times> scripted_client \<times> string list \<times> (ownership_guard \<times> redis_server) \<times> registry" where
  "forwarded_session sc g = ws_endpoint scripted_ws numbering_orjson (\<lambda>now raw cid w. (Inl (OtherError ''down''), w @ [cid]))
     (Some (redis_guard server_client)) ''c1'' (sc_ownership_token sc) ''x'' (sc_ownership_acquired sc) 7 [LoopStep] id
     (client_of [sample_ongoing ''c1'' 0]) [] g empty_registry"

lemma forwarded_session_handles:
  assumes "sc_ownership_token sc = Some ''b''" "sc_ownership_acquired sc"
  shows "\<exists>u' g2 reg'. forwarded_session sc g = (True, u', [''c1''], g2, reg')"
proof -
  have body: "body_conversation (sample_ongoing ''c1'' 0) = Some ''c1''"
    using body_conversation_valid [OF strict_pydantic_ok sample_ongoing_valid [of "''c1''" 0]] by (simp add: ongoing_message_def)
  have "fst (forwarded_session sc g) \<and> fst (snd (snd (forwarded_session sc g))) = [''c1'']"
    by (simp add: forwarded_session_def ws_endpoint_def scripted_ws_def client_of_def run_session_def loop_step_def
        receive_step_def body dispatch_frame_def assms)
  then show ?thesis by (cases "forwarded_session sc g") simp
qed

lemma forwarded_session_owners:
  assumes "sc_ownership_token sc = Some ''b''" "sc_ownership_acquired sc" "guard_ok script_sha g"
    and run: "forwarded_session sc g = (True, u', w', g2, reg')"
  shows "foreign_owners_kept (guard_owner clock_redis_ops rs_db) ''c1'' ''b'' g g2"
proof -
  have acq: "sc_ownership_acquired sc = True" using assms(2) by simp
  obtain g3 where g3: "guard_ok script_sha g3" "foreign_owners_kept (guard_owner clock_redis_ops rs_db) ''c1'' ''b'' g g3"
      "g2 = snd (g_release (redis_guard server_client) ''c1'' ''b'' g3)"
    using server.own.endpoint_releases [OF assms(3) run [unfolded forwarded_session_def assms(1) acq]] by blast
  obtain rr where "g_release (redis_guard server_client) ''c1'' ''b'' g3 = (rr, g2)" using g3(3) by (metis prod.collapse)
  from server.own.release_keeps [OF g3(1) this] g3(2) show ?thesis by (blast intro: foreign_owners_trans)
qed

text \<open>
  A query with two conversation ids passes the guard for the first and, since FastAPI's \<open>Query\<close> takes the
  last value, opens the session of the second: although conversation \<open>c1\<close> is owned by another connection, its
  frames reach the orchestrator, and the conversation claimed in the handshake stays owned after
  the session has ended.
\<close>

theorem duplicate_query_bypasses_guard:
  "\<exists>sc g1 u' g2 reg'.
    sample_handshake ''conversationId=zz&conversationId=c1'' False ''b'' (sample_guard, redis_owned) = (Inr (), [Forwarded sc], g1)
    \<and> forwarded_session sc g1 = (True, u', [''c1''], g2, reg')
    \<and> guard_owner clock_redis_ops rs_db ''c1'' g2 = Some ''a'' \<and> guard_owner clock_redis_ops rs_db ''zz'' g2 = Some ''b''"
proof -
  let ?own = "guard_owner clock_redis_ops rs_db" and ?g0 = "(sample_guard, redis_owned)"
  let ?sc = "(sample_scope ''conversationId=zz&conversationId=c1'')\<lparr>sc_ownership_token := Some ''b'', sc_ownership_acquired := True\<rparr>"
  obtain g1 where g1: "g_claim_or_refresh (redis_guard server_client) ''zz'' ''b'' ?g0 = (Inr True, g1)"
    using sample_claims(3) by blast
  have o1: "guard_ok script_sha g1" "?own ''c1'' g1 = Some ''a''" "?own ''zz'' g1 = Some ''b''"
    using server.own.claim_frame [OF sample_guard_ok g1, of "''c1''"] server.own.claim_granted [OF sample_guard_ok g1] by auto
  have sc: "sc_ownership_token ?sc = Some ''b''" "sc_ownership_acquired ?sc" by simp_all
  obtain u' g2 reg' where e: "forwarded_session ?sc g1 = (True, u', [''c1''], g2, reg')"
    using forwarded_session_handles [OF sc, of g1] by blast
  have "?own ''c1'' g2 = Some ''a''" "?own ''zz'' g2 = Some ''b''"
    using forwarded_session_owners [OF sc o1(1) e] o1 by (simp_all add: foreign_owners_kept_def)
  then show ?thesis using sample_forwarded [OF sample_cid(2) _ g1] e by blast
qed

text \<open>
  The limit is checked before a connection is counted: two connections that are admitted before
  either is registered exceed a limit of one.
\<close>

theorem limit_exceeded_by_concurrent_handshakes:
  "let cfg = \<lparr>guard_max_connections = 1, guard_auth = None, guard_ownership = None\<rparr> :: unit ws_guard;
       call = (\<lambda>qs. ws_guard_call id (recording (\<lambda>sc g. (Inr (), g))) numbering_orjson cfg False (active_count empty_registry)
         ''now'' ''tok'' (sample_scope qs) ([], ()));
       reg = registry_add ''zz'' 2 (registry_add ''c1'' 1 empty_registry)
   in fst (snd (call ''conversationId=c1'')) = [Forwarded (sample_scope ''conversationId=c1'')]
      \<and> fst (snd (call ''conversationId=zz&conversationId=c1'')) = [Forwarded (sample_scope ''conversationId=zz&conversationId=c1'')]
      \<and> active_count reg = 2 \<and> guard_max_connections cfg < active_count reg"
  by (simp add: ws_guard_call_def sample_scope_facts sample_cid admit_capacity_def claim_and_forward_def
      empty_registry_def registry_add_def store_list_def Let_def)

end
