(* ===== verification/Settings.thy ===== *)
theory Settings
  imports Request Url_Prefix
begin

text \<open>
  The configuration, \<open>config/settings.py\<close>. pydantic-settings reads the environment (and \<open>.env\<close>) into one raw
  value per field, the parameter \<open>src\<close>; how pydantic parses a raw value of type \<open>str\<close>, \<open>int\<close>, \<open>float\<close> and \<open>bool\<close>
  is the record \<open>settings_types\<close>. The declared fields are translated: defaults (which are validated too), the validators
  before and after parsing, the bounds, and the rules that run on the whole object. Floats are rationals, so
  infinities and NaN are not modelled; of an error its type and text are kept, not its location.
\<close>

section \<open>Fields\<close>

record settings_types =
  st_str :: "json \<Rightarrow> verr + string"
  st_int :: "json \<Rightarrow> verr + int"
  st_float :: "json \<Rightarrow> verr + rat"
  st_bool :: "json \<Rightarrow> verr + bool"

record settings =
  cfg_app_env :: string
  cfg_redis_url :: "string option"
  cfg_redis_username :: "string option"
  cfg_redis_password :: "string option"
  cfg_redis_ssl_check_hostname :: bool
  cfg_redis_max_connections :: int
  cfg_redis_active_ttl_sec :: int
  cfg_redis_final_ttl_sec :: int
  cfg_redis_ownership_guard_ttl_sec :: int
  cfg_redis_sequence_state_key_prefix :: string
  cfg_redis_ownership_guard_key_prefix :: string
  cfg_kafka_bootstrap_servers :: "string option"
  cfg_kafka_mode :: string
  cfg_kafka_topic :: string
  cfg_kafka_compression_type :: string
  cfg_kafka_ssl_ca_file :: "string option"
  cfg_kafka_aws_region :: "string option"
  cfg_kafka_aws_debug_creds :: bool
  cfg_kafka_send_timeout_sec :: rat
  cfg_kafka_linger_ms :: int
  cfg_kafka_batch_size :: int
  cfg_ws_ping_interval :: rat
  cfg_ws_ping_timeout :: rat
  cfg_ws_ownership_guard_refresh_interval_sec :: rat
  cfg_auth_enabled :: bool
  cfg_auth_jwt_signing_material :: "string option"
  cfg_auth_jwt_algorithm :: string
  cfg_http_port :: int
  cfg_http_backlog :: int
  cfg_http_enable_docs :: bool
  cfg_url_path_prefix :: string
  cfg_ws_max_connections :: int
  cfg_kafka_startup_timeout_sec :: rat
  cfg_stop_timeout :: rat
  cfg_log_level :: string
  cfg_log_format :: string
  cfg_suppress_health_access_logs :: bool
  cfg_log_ws_error_frames :: bool
  cfg_log_slow_message_threshold_ms :: rat

definition DEFAULT_REDIS_SEQUENCE_STATE_KEY_PREFIX :: string where
  "DEFAULT_REDIS_SEQUENCE_STATE_KEY_PREFIX = ''realtime-transcribe-service:expect-transcript-seq-num''"

definition DEFAULT_REDIS_OWNERSHIP_GUARD_KEY_PREFIX :: string where
  "DEFAULT_REDIS_OWNERSHIP_GUARD_KEY_PREFIX = ''realtime-transcribe-service:conversation-owner''"

section \<open>Validators\<close>

text \<open>The validators that run before a value is parsed.\<close>

definition optional_redis_username :: "json \<Rightarrow> verr + json" where
  "optional_redis_username v = (case v of
     JStr s \<Rightarrow> Inr (if strip s \<noteq> [] then JStr (strip s) else JNull) | _ \<Rightarrow> Inr v)"

definition optional_redis_password :: "json \<Rightarrow> verr + json" where
  "optional_redis_password v = (case v of
     JStr s \<Rightarrow> Inr (if strip s = [] then JNull else v) | _ \<Rightarrow> Inr v)"

definition strip_lower :: "json \<Rightarrow> verr + json" where
  "strip_lower v = (case v of JStr s \<Rightarrow> Inr (JStr (lower (strip s))) | _ \<Rightarrow> Inr v)"

definition strip_upper :: "json \<Rightarrow> verr + json" where
  "strip_upper v = (case v of JStr s \<Rightarrow> Inr (JStr (upper (strip s))) | _ \<Rightarrow> Inr v)"

definition reject_blank_strings :: "json \<Rightarrow> verr + json" where
  "reject_blank_strings v = (case v of
     JStr s \<Rightarrow> if strip s = [] then Inl (mk_verr ''value_error'' ''Value error, must not be empty'')
       else Inr (JStr (strip s))
   | _ \<Rightarrow> Inr v)"

text \<open>Declared types with their bounds.\<close>

definition bounded :: "(json \<Rightarrow> verr + 'a) \<Rightarrow> ('a \<Rightarrow> bool) \<Rightarrow> string \<Rightarrow> json \<Rightarrow> verr + 'a" where
  "bounded f ok err v = bind_verr (f v) (\<lambda>x. if ok x then Inr x else Inl (mk_verr err []))"

definition optional_value :: "(json \<Rightarrow> verr + 'a) \<Rightarrow> json \<Rightarrow> verr + 'a option" where
  "optional_value f v = (case v of JNull \<Rightarrow> Inr None | _ \<Rightarrow> map_sum id Some (f v))"

definition literal :: "string list \<Rightarrow> json \<Rightarrow> verr + string" where
  "literal xs v = (case v of JStr s \<Rightarrow> if s \<in> set xs then Inr s else Inl (mk_verr ''literal_error'' [])
     | _ \<Rightarrow> Inl (mk_verr ''literal_error'' []))"

text \<open>A field: its raw value or its default, the validator before, the type.\<close>

definition settings_field ::
  "(string \<Rightarrow> json option) \<Rightarrow> string \<Rightarrow> json \<Rightarrow> (json \<Rightarrow> verr + json) \<Rightarrow> (json \<Rightarrow> verr + 'a) \<Rightarrow> verr + 'a" where
  "settings_field src name dflt before parse =
     bind_verr (before (case src name of None \<Rightarrow> dflt | Some v \<Rightarrow> v)) parse"

abbreviation as_is :: "json \<Rightarrow> verr + json" where
  "as_is \<equiv> Inr"

abbreviation int_gt0 :: "settings_types \<Rightarrow> json \<Rightarrow> verr + int" where
  "int_gt0 T \<equiv> bounded (st_int T) (\<lambda>i. 0 < i) ''greater_than''"

abbreviation int_ge0 :: "settings_types \<Rightarrow> json \<Rightarrow> verr + int" where
  "int_ge0 T \<equiv> bounded (st_int T) (\<lambda>i. 0 \<le> i) ''greater_than_equal''"

abbreviation float_gt0 :: "settings_types \<Rightarrow> json \<Rightarrow> verr + rat" where
  "float_gt0 T \<equiv> bounded (st_float T) (\<lambda>x. 0 < x) ''greater_than''"

abbreviation nonempty_str :: "settings_types \<Rightarrow> json \<Rightarrow> verr + string" where
  "nonempty_str T \<equiv> bounded (st_str T) (\<lambda>s. s \<noteq> []) ''string_too_short''"

definition normalized_url_path_prefix :: "settings_types \<Rightarrow> json \<Rightarrow> verr + string" where
  "normalized_url_path_prefix T v =
     bind_verr (bounded (st_str T) (\<lambda>s. length s \<le> 512) ''string_too_long'' v)
       (\<lambda>s. case normalize_url_path_prefix_str s of
          Inl e \<Rightarrow> Inl (mk_verr ''value_error'' (''Value error, '' @ exn_str e)) | Inr p \<Rightarrow> Inr p)"

definition required_app_env :: "(string \<Rightarrow> json option) \<Rightarrow> verr + string" where
  "required_app_env src = (case src ''app_env'' of
     None \<Rightarrow> Inl (mk_verr ''missing'' ''Field required'')
   | Some v \<Rightarrow> bind_verr (strip_lower v) (literal [''local'', ''deployed'']))"

text \<open>All fields are validated; the errors of all of them are reported.\<close>

definition parse_settings :: "settings_types \<Rightarrow> (string \<Rightarrow> json option) \<Rightarrow> verr list + settings" where
  "parse_settings T src =
     (let app_env = required_app_env src;
          redis_url = settings_field src ''redis_url'' JNull reject_blank_strings (optional_value (st_str T));
          redis_username = settings_field src ''redis_username'' JNull optional_redis_username (optional_value (st_str T));
          redis_password = settings_field src ''redis_password'' JNull optional_redis_password (optional_value (st_str T));
          check_hostname = settings_field src ''redis_ssl_check_hostname'' (JBool False) as_is (st_bool T);
          max_conns = settings_field src ''redis_max_connections'' (JInt 100) as_is (int_gt0 T);
          active_ttl = settings_field src ''redis_active_ttl_sec'' (JInt 3600) as_is (int_gt0 T);
          final_ttl = settings_field src ''redis_final_ttl_sec'' (JInt 60) as_is (int_gt0 T);
          guard_ttl = settings_field src ''redis_ownership_guard_ttl_sec'' (JInt 30) as_is (int_gt0 T);
          seq_prefix = settings_field src ''redis_sequence_state_key_prefix'' (JStr DEFAULT_REDIS_SEQUENCE_STATE_KEY_PREFIX)
            reject_blank_strings (nonempty_str T);
          own_prefix = settings_field src ''redis_ownership_guard_key_prefix'' (JStr DEFAULT_REDIS_OWNERSHIP_GUARD_KEY_PREFIX)
            reject_blank_strings (nonempty_str T);
          bootstrap = settings_field src ''kafka_bootstrap_servers'' JNull reject_blank_strings (optional_value (st_str T));
          mode = settings_field src ''kafka_mode'' (JStr ''local'') strip_lower (literal [''local'', ''aws_msk'']);
          topic = settings_field src ''kafka_topic'' (JStr ''AI_STAGING_TRANSCRIPTION'') reject_blank_strings (nonempty_str T);
          compression = settings_field src ''kafka_compression_type'' (JStr ''zstd'') strip_lower
            (literal [''none'', ''gzip'', ''snappy'', ''lz4'', ''zstd'']);
          ca_file = settings_field src ''kafka_ssl_ca_file'' JNull reject_blank_strings (optional_value (st_str T));
          region = settings_field src ''kafka_aws_region'' JNull reject_blank_strings (optional_value (st_str T));
          debug_creds = settings_field src ''kafka_aws_debug_creds'' (JBool False) as_is (st_bool T);
          send_timeout = settings_field src ''kafka_send_timeout_sec'' (JFloat 2) as_is (float_gt0 T);
          linger = settings_field src ''kafka_linger_ms'' (JInt 1) as_is (int_ge0 T);
          batch = settings_field src ''kafka_batch_size'' (JInt 32768) as_is (int_gt0 T);
          ping_interval = settings_field src ''ws_ping_interval'' (JFloat 20) as_is (float_gt0 T);
          ping_timeout = settings_field src ''ws_ping_timeout'' (JFloat 10) as_is (float_gt0 T);
          refresh = settings_field src ''ws_ownership_guard_refresh_interval_sec'' (JFloat 15) as_is (float_gt0 T);
          auth = settings_field src ''auth_enabled'' (JBool False) as_is (st_bool T);
          material = settings_field src ''auth_jwt_signing_material'' JNull reject_blank_strings (optional_value (st_str T));
          algo = settings_field src ''auth_jwt_algorithm'' (JStr ''HS256'') strip_upper (literal [''HS256'']);
          port = settings_field src ''http_port'' (JInt 8080) as_is
            (bounded (bounded (st_int T) (\<lambda>i. 1 \<le> i) ''greater_than_equal'') (\<lambda>i. i \<le> 65535) ''less_than_equal'');
          backlog = settings_field src ''http_backlog'' (JInt 4096) as_is (int_gt0 T);
          docs = settings_field src ''http_enable_docs'' (JBool False) as_is (st_bool T);
          prefix = settings_field src ''url_path_prefix'' (JStr []) as_is (normalized_url_path_prefix T);
          ws_max = settings_field src ''ws_max_connections'' (JInt 0) as_is (int_ge0 T);
          startup = settings_field src ''kafka_startup_timeout_sec'' (JFloat 30) as_is (float_gt0 T);
          stop = settings_field src ''stop_timeout'' (JFloat 120) as_is (float_gt0 T);
          level = settings_field src ''log_level'' (JStr ''INFO'') strip_upper
            (literal [''CRITICAL'', ''ERROR'', ''WARNING'', ''INFO'', ''DEBUG'']);
          format = settings_field src ''log_format'' (JStr ''auto'') strip_lower (literal [''json'', ''console'', ''auto'']);
          suppress = settings_field src ''suppress_health_access_logs'' (JBool False) as_is (st_bool T);
          frames = settings_field src ''log_ws_error_frames'' (JBool False) as_is (st_bool T);
          slow = settings_field src ''log_slow_message_threshold_ms'' (JFloat 0) as_is
            (bounded (st_float T) (\<lambda>x. 0 \<le> x) ''greater_than_equal'');
          es = errs app_env @ errs redis_url @ errs redis_username @ errs redis_password @ errs check_hostname
            @ errs max_conns @ errs active_ttl @ errs final_ttl @ errs guard_ttl @ errs seq_prefix @ errs own_prefix
            @ errs bootstrap @ errs mode @ errs topic @ errs compression @ errs ca_file @ errs region @ errs debug_creds
            @ errs send_timeout @ errs linger @ errs batch @ errs ping_interval @ errs ping_timeout @ errs refresh
            @ errs auth @ errs material @ errs algo @ errs port @ errs backlog @ errs docs @ errs prefix @ errs ws_max
            @ errs startup @ errs stop @ errs level @ errs format @ errs suppress @ errs frames @ errs slow
      in if es \<noteq> [] then Inl es
         else Inr \<lparr>cfg_app_env = projr app_env, cfg_redis_url = projr redis_url, cfg_redis_username = projr redis_username,
           cfg_redis_password = projr redis_password, cfg_redis_ssl_check_hostname = projr check_hostname,
           cfg_redis_max_connections = projr max_conns, cfg_redis_active_ttl_sec = projr active_ttl,
           cfg_redis_final_ttl_sec = projr final_ttl, cfg_redis_ownership_guard_ttl_sec = projr guard_ttl,
           cfg_redis_sequence_state_key_prefix = projr seq_prefix, cfg_redis_ownership_guard_key_prefix = projr own_prefix,
           cfg_kafka_bootstrap_servers = projr bootstrap, cfg_kafka_mode = projr mode, cfg_kafka_topic = projr topic,
           cfg_kafka_compression_type = projr compression, cfg_kafka_ssl_ca_file = projr ca_file,
           cfg_kafka_aws_region = projr region, cfg_kafka_aws_debug_creds = projr debug_creds,
           cfg_kafka_send_timeout_sec = projr send_timeout, cfg_kafka_linger_ms = projr linger,
           cfg_kafka_batch_size = projr batch, cfg_ws_ping_interval = projr ping_interval,
           cfg_ws_ping_timeout = projr ping_timeout, cfg_ws_ownership_guard_refresh_interval_sec = projr refresh,
           cfg_auth_enabled = projr auth, cfg_auth_jwt_signing_material = projr material,
           cfg_auth_jwt_algorithm = projr algo, cfg_http_port = projr port, cfg_http_backlog = projr backlog,
           cfg_http_enable_docs = projr docs, cfg_url_path_prefix = projr prefix, cfg_ws_max_connections = projr ws_max,
           cfg_kafka_startup_timeout_sec = projr startup, cfg_stop_timeout = projr stop, cfg_log_level = projr level,
           cfg_log_format = projr format, cfg_suppress_health_access_logs = projr suppress,
           cfg_log_ws_error_frames = projr frames, cfg_log_slow_message_threshold_ms = projr slow\<rparr>)"

section \<open>Environment rules\<close>

definition env_strip :: "(string \<Rightarrow> string option) \<Rightarrow> string \<Rightarrow> string" where
  "env_strip env k = (case env k of None \<Rightarrow> [] | Some v \<Rightarrow> strip v)"

text \<open>\<open>os.environ.get("AWS_REGION", "").strip() or os.environ.get("AWS_DEFAULT_REGION", "").strip()\<close>\<close>

definition bootstrap_region :: "(string \<Rightarrow> string option) \<Rightarrow> string" where
  "bootstrap_region env =
     (if env_strip env ''AWS_REGION'' \<noteq> [] then env_strip env ''AWS_REGION'' else env_strip env ''AWS_DEFAULT_REGION'')"

text \<open>The first part: defaults of \<open>local\<close>, requirements of \<open>deployed\<close>.\<close>

definition app_env_rules :: "settings \<Rightarrow> string + settings" where
  "app_env_rules s =
     (if cfg_app_env s = ''local''
      then Inr (s\<lparr>cfg_redis_url := (case cfg_redis_url s of None \<Rightarrow> Some ''redis://127.0.0.1:6379/0'' | Some u \<Rightarrow> Some u),
                  cfg_kafka_bootstrap_servers :=
                    (case cfg_kafka_bootstrap_servers s of None \<Rightarrow> Some ''127.0.0.1:9092'' | Some b \<Rightarrow> Some b)\<rparr>)
      else
        (let missing = (if cfg_redis_url s = None then [''REDIS_URL''] else [])
             @ (if cfg_kafka_bootstrap_servers s = None then [''KAFKA_BOOTSTRAP_SERVERS''] else [])
         in if missing \<noteq> []
            then Inl (''Missing required configuration for APP_ENV=deployed: '' @ str_join '', '' missing)
            else if cfg_redis_sequence_state_key_prefix s = DEFAULT_REDIS_SEQUENCE_STATE_KEY_PREFIX
            then Inl (''APP_ENV=deployed requires explicit REDIS_SEQUENCE_STATE_KEY_PREFIX matching your Redis/ElastiCache ''
              @ ''ACL key pattern (defaults are for APP_ENV=local / unscoped Redis only).'')
            else if cfg_redis_ownership_guard_key_prefix s = DEFAULT_REDIS_OWNERSHIP_GUARD_KEY_PREFIX
            then Inl (''APP_ENV=deployed requires explicit REDIS_OWNERSHIP_GUARD_KEY_PREFIX matching your Redis/ElastiCache ''
              @ ''ACL key pattern (defaults are for APP_ENV=local / unscoped Redis only).'')
            else Inr s))"

definition kafka_region_rule :: "(string \<Rightarrow> string option) \<Rightarrow> settings \<Rightarrow> string + settings" where
  "kafka_region_rule env s =
     (if cfg_kafka_mode s = ''aws_msk''
      then (let region = (case cfg_kafka_aws_region s of
                Some x \<Rightarrow> Some x
              | None \<Rightarrow> if bootstrap_region env \<noteq> [] then Some (bootstrap_region env) else None)
            in if region = None
               then Inl (''KAFKA_AWS_REGION must be set, or AWS_REGION/AWS_DEFAULT_REGION must be available, ''
                 @ ''when KAFKA_MODE=aws_msk'')
               else Inr (s\<lparr>cfg_kafka_aws_region := region\<rparr>))
      else Inr s)"

definition apply_environment_rules :: "(string \<Rightarrow> string option) \<Rightarrow> settings \<Rightarrow> string + settings" where
  "apply_environment_rules env s0 =
     (case app_env_rules s0 of
        Inl e \<Rightarrow> Inl e
      | Inr s \<Rightarrow>
          if cfg_redis_final_ttl_sec s > cfg_redis_active_ttl_sec s
          then Inl ''REDIS_FINAL_TTL_SEC must be <= REDIS_ACTIVE_TTL_SEC''
          else if cfg_ws_ownership_guard_refresh_interval_sec s \<ge> of_int (cfg_redis_ownership_guard_ttl_sec s)
          then Inl ''WS_OWNERSHIP_GUARD_REFRESH_INTERVAL_SEC must be < REDIS_OWNERSHIP_GUARD_TTL_SEC''
          else if cfg_auth_enabled s \<and> cfg_auth_jwt_signing_material s = None
          then Inl ''AUTH_JWT_SIGNING_MATERIAL must be set when AUTH_ENABLED=true''
          else if cfg_app_env s = ''deployed'' \<and> cfg_kafka_mode s \<noteq> ''aws_msk''
          then Inl ''APP_ENV=deployed requires KAFKA_MODE=aws_msk (KAFKA_MODE=local is for local docker-compose only)''
          else if cfg_kafka_mode s = ''local'' \<and> cfg_kafka_ssl_ca_file s \<noteq> None
          then Inl (''KAFKA_SSL_CA_FILE is only used when KAFKA_MODE=aws_msk; ''
            @ ''local mode is PLAINTEXT docker-compose only'')
          else kafka_region_rule env s)"

definition validate_settings ::
  "settings_types \<Rightarrow> (string \<Rightarrow> string option) \<Rightarrow> (string \<Rightarrow> json option) \<Rightarrow> verr list + settings" where
  "validate_settings T env src =
     (case parse_settings T src of
        Inl es \<Rightarrow> Inl es
      | Inr s \<Rightarrow> map_sum (\<lambda>m. [mk_verr ''value_error'' (''Value error, '' @ m)]) id (apply_environment_rules env s))"

section \<open>What validation guarantees\<close>

text \<open>The fields alone.\<close>

definition fields_ok :: "settings \<Rightarrow> bool" where
  "fields_ok s \<longleftrightarrow> cfg_app_env s \<in> {''local'', ''deployed''} \<and> cfg_kafka_mode s \<in> {''local'', ''aws_msk''}
     \<and> 0 < cfg_redis_active_ttl_sec s \<and> 0 < cfg_redis_final_ttl_sec s \<and> 0 < cfg_redis_ownership_guard_ttl_sec s
     \<and> 0 < cfg_redis_max_connections s \<and> 0 < cfg_ws_ownership_guard_refresh_interval_sec s
     \<and> cfg_redis_sequence_state_key_prefix s \<noteq> [] \<and> cfg_redis_ownership_guard_key_prefix s \<noteq> []
     \<and> cfg_kafka_topic s \<noteq> [] \<and> 0 < cfg_kafka_send_timeout_sec s \<and> 0 < cfg_kafka_startup_timeout_sec s
     \<and> 0 < cfg_stop_timeout s \<and> 1 \<le> cfg_http_port s \<and> cfg_http_port s \<le> 65535 \<and> 0 \<le> cfg_ws_max_connections s
     \<and> cfg_auth_jwt_algorithm s = ''HS256''
     \<and> (\<exists>raw. normalize_url_path_prefix_str raw = Inr (cfg_url_path_prefix s))"

text \<open>The whole object.\<close>

definition settings_ok :: "settings \<Rightarrow> bool" where
  "settings_ok s \<longleftrightarrow> fields_ok s \<and> cfg_redis_url s \<noteq> None \<and> cfg_kafka_bootstrap_servers s \<noteq> None
     \<and> cfg_redis_final_ttl_sec s \<le> cfg_redis_active_ttl_sec s
     \<and> cfg_ws_ownership_guard_refresh_interval_sec s < of_int (cfg_redis_ownership_guard_ttl_sec s)
     \<and> (cfg_auth_enabled s \<longrightarrow> cfg_auth_jwt_signing_material s \<noteq> None)
     \<and> (cfg_app_env s = ''deployed'' \<longrightarrow> cfg_kafka_mode s = ''aws_msk''
         \<and> cfg_redis_sequence_state_key_prefix s \<noteq> DEFAULT_REDIS_SEQUENCE_STATE_KEY_PREFIX
         \<and> cfg_redis_ownership_guard_key_prefix s \<noteq> DEFAULT_REDIS_OWNERSHIP_GUARD_KEY_PREFIX)
     \<and> (cfg_kafka_mode s = ''aws_msk'' \<longrightarrow> cfg_kafka_aws_region s \<noteq> None)
     \<and> (cfg_kafka_mode s = ''local'' \<longrightarrow> cfg_kafka_ssl_ca_file s = None)"

lemma errs_Nil: "errs f = [] \<longleftrightarrow> (\<exists>x. f = Inr x)"
  by (cases f) auto

lemma field_Inr:
  "settings_field src name dflt before parse = Inr x \<Longrightarrow> \<exists>v. parse v = Inr x"
  by (auto simp: settings_field_def bind_verr_def split: sum.splits)

lemma bounded_Inr: "bounded f ok err v = Inr x \<Longrightarrow> ok x \<and> f v = Inr x"
  by (auto simp: bounded_def bind_verr_def split: sum.splits if_splits)

lemma literal_Inr: "literal xs v = Inr x \<Longrightarrow> x \<in> set xs"
  by (auto simp: literal_def split: json.splits if_splits)

lemma if_errors: "(if es \<noteq> [] then Inl es else Inr x) = Inr s \<longleftrightarrow> es = [] \<and> x = s"
  by auto

lemma errs_projr: "errs f = [] \<Longrightarrow> f = Inr (projr f)"
  by (cases f) simp_all

text \<open>The fields whose values the invariant is about.\<close>

lemma parse_settings_fields:
  assumes "parse_settings T src = Inr s"
  shows "required_app_env src = Inr (cfg_app_env s)
    \<and> settings_field src ''redis_max_connections'' (JInt 100) as_is (int_gt0 T) = Inr (cfg_redis_max_connections s)
    \<and> settings_field src ''redis_active_ttl_sec'' (JInt 3600) as_is (int_gt0 T) = Inr (cfg_redis_active_ttl_sec s)
    \<and> settings_field src ''redis_final_ttl_sec'' (JInt 60) as_is (int_gt0 T) = Inr (cfg_redis_final_ttl_sec s)
    \<and> settings_field src ''redis_ownership_guard_ttl_sec'' (JInt 30) as_is (int_gt0 T) = Inr (cfg_redis_ownership_guard_ttl_sec s)
    \<and> settings_field src ''redis_sequence_state_key_prefix'' (JStr DEFAULT_REDIS_SEQUENCE_STATE_KEY_PREFIX)
      reject_blank_strings (nonempty_str T) = Inr (cfg_redis_sequence_state_key_prefix s)
    \<and> settings_field src ''redis_ownership_guard_key_prefix'' (JStr DEFAULT_REDIS_OWNERSHIP_GUARD_KEY_PREFIX)
      reject_blank_strings (nonempty_str T) = Inr (cfg_redis_ownership_guard_key_prefix s)
    \<and> settings_field src ''kafka_mode'' (JStr ''local'') strip_lower (literal [''local'', ''aws_msk'']) = Inr (cfg_kafka_mode s)
    \<and> settings_field src ''kafka_topic'' (JStr ''AI_STAGING_TRANSCRIPTION'') reject_blank_strings (nonempty_str T) = Inr (cfg_kafka_topic s)
    \<and> settings_field src ''kafka_send_timeout_sec'' (JFloat 2) as_is (float_gt0 T) = Inr (cfg_kafka_send_timeout_sec s)
    \<and> settings_field src ''ws_ownership_guard_refresh_interval_sec'' (JFloat 15) as_is (float_gt0 T) =
      Inr (cfg_ws_ownership_guard_refresh_interval_sec s)
    \<and> settings_field src ''auth_jwt_algorithm'' (JStr ''HS256'') strip_upper (literal [''HS256'']) = Inr (cfg_auth_jwt_algorithm s)
    \<and> settings_field src ''http_port'' (JInt 8080) as_is
      (bounded (bounded (st_int T) (\<lambda>i. 1 \<le> i) ''greater_than_equal'') (\<lambda>i. i \<le> 65535) ''less_than_equal'') = Inr (cfg_http_port s)
    \<and> settings_field src ''url_path_prefix'' (JStr []) as_is (normalized_url_path_prefix T) = Inr (cfg_url_path_prefix s)
    \<and> settings_field src ''ws_max_connections'' (JInt 0) as_is (int_ge0 T) = Inr (cfg_ws_max_connections s)
    \<and> settings_field src ''kafka_startup_timeout_sec'' (JFloat 30) as_is (float_gt0 T) = Inr (cfg_kafka_startup_timeout_sec s)
    \<and> settings_field src ''stop_timeout'' (JFloat 120) as_is (float_gt0 T) = Inr (cfg_stop_timeout s)"
proof -
  note r = assms [unfolded parse_settings_def Let_def, unfolded if_errors, unfolded append_is_Nil_conv]
  note e = r [THEN conjunct1] and s = r [THEN conjunct2, symmetric]
  show ?thesis
    unfolding s settings.select_convs by (intro conjI errs_projr) (simp_all only: e simp_thms)
qed

text \<open>What a field's type says about its value.\<close>

lemma field_bounded: "settings_field src name dflt before (bounded g ok err) = Inr x \<Longrightarrow> ok x"
  using field_Inr bounded_Inr by metis

lemma field_lower_bounded:
  "settings_field src name dflt before (bounded (bounded g ok err) ok' err') = Inr x \<Longrightarrow> ok x \<and> ok' x"
  using field_Inr bounded_Inr by metis

lemma field_literal: "settings_field src name dflt before (literal xs) = Inr x \<Longrightarrow> x \<in> set xs"
  using field_Inr literal_Inr by metis

lemma field_prefix: "settings_field src name dflt before (normalized_url_path_prefix T) = Inr p \<Longrightarrow>
    \<exists>raw. normalize_url_path_prefix_str raw = Inr p"
  by (auto simp: normalized_url_path_prefix_def bind_verr_def split: sum.splits dest!: field_Inr)

lemma app_env_literal: "required_app_env src = Inr x \<Longrightarrow> x \<in> {''local'', ''deployed''}"
  by (auto simp: required_app_env_def bind_verr_def split: option.splits sum.splits dest!: literal_Inr)

lemma parse_settings_ok: "parse_settings T src = Inr s \<Longrightarrow> fields_ok s"
  by (drule parse_settings_fields, elim conjE, drule app_env_literal, drule field_prefix, drule field_lower_bounded,
      (drule field_bounded)+, (drule field_literal)+) (simp add: fields_ok_def)

lemma fields_ok_defaults: "fields_ok (s\<lparr>cfg_redis_url := u, cfg_kafka_bootstrap_servers := b\<rparr>) = fields_ok s"
  by (simp add: fields_ok_def)

lemma app_env_rules_keeps:
  assumes "app_env_rules s = Inr s'" and "fields_ok s"
  shows "fields_ok s' \<and> cfg_redis_url s' \<noteq> None \<and> cfg_kafka_bootstrap_servers s' \<noteq> None
    \<and> (cfg_app_env s' = ''deployed'' \<longrightarrow>
        cfg_redis_sequence_state_key_prefix s' \<noteq> DEFAULT_REDIS_SEQUENCE_STATE_KEY_PREFIX
      \<and> cfg_redis_ownership_guard_key_prefix s' \<noteq> DEFAULT_REDIS_OWNERSHIP_GUARD_KEY_PREFIX)"
proof (cases "cfg_app_env s = ''local''")
  case True
  obtain u b where s': "s' = s\<lparr>cfg_redis_url := Some u, cfg_kafka_bootstrap_servers := Some b\<rparr>"
  proof -
    from assms(1) True have "s' = s\<lparr>cfg_redis_url := Some (case cfg_redis_url s of None \<Rightarrow> ''redis://127.0.0.1:6379/0'' | Some u \<Rightarrow> u),
      cfg_kafka_bootstrap_servers := Some (case cfg_kafka_bootstrap_servers s of None \<Rightarrow> ''127.0.0.1:9092'' | Some b \<Rightarrow> b)\<rparr>"
      by (cases "cfg_redis_url s"; cases "cfg_kafka_bootstrap_servers s") (simp_all add: app_env_rules_def)
    then show ?thesis by (rule that)
  qed
  show ?thesis unfolding s' using assms(2) True by (simp add: fields_ok_defaults)
next
  case False
  have "cfg_redis_url s \<noteq> None" "cfg_kafka_bootstrap_servers s \<noteq> None"
    using assms(1) False by (simp_all add: app_env_rules_def Let_def split: if_splits)
  then have "cfg_redis_sequence_state_key_prefix s \<noteq> DEFAULT_REDIS_SEQUENCE_STATE_KEY_PREFIX
      \<and> cfg_redis_ownership_guard_key_prefix s \<noteq> DEFAULT_REDIS_OWNERSHIP_GUARD_KEY_PREFIX \<and> s' = s"
    using assms(1) False unfolding app_env_rules_def Let_def
    by (simp only: if_False append_Nil simp_thms) (simp split: if_splits)
  then show ?thesis using assms(2) \<open>cfg_redis_url s \<noteq> None\<close> \<open>cfg_kafka_bootstrap_servers s \<noteq> None\<close> by blast
qed

text \<open>Only the region is set by the last rule.\<close>

lemma settings_region:
  "cfg_kafka_aws_region (s\<lparr>cfg_kafka_aws_region := u\<rparr>) = u"
  "cfg_app_env (s\<lparr>cfg_kafka_aws_region := u\<rparr>) = cfg_app_env s"
  "cfg_kafka_mode (s\<lparr>cfg_kafka_aws_region := u\<rparr>) = cfg_kafka_mode s"
  "cfg_redis_url (s\<lparr>cfg_kafka_aws_region := u\<rparr>) = cfg_redis_url s"
  "cfg_kafka_bootstrap_servers (s\<lparr>cfg_kafka_aws_region := u\<rparr>) = cfg_kafka_bootstrap_servers s"
  "cfg_redis_active_ttl_sec (s\<lparr>cfg_kafka_aws_region := u\<rparr>) = cfg_redis_active_ttl_sec s"
  "cfg_redis_final_ttl_sec (s\<lparr>cfg_kafka_aws_region := u\<rparr>) = cfg_redis_final_ttl_sec s"
  "cfg_redis_ownership_guard_ttl_sec (s\<lparr>cfg_kafka_aws_region := u\<rparr>) = cfg_redis_ownership_guard_ttl_sec s"
  "cfg_ws_ownership_guard_refresh_interval_sec (s\<lparr>cfg_kafka_aws_region := u\<rparr>) = cfg_ws_ownership_guard_refresh_interval_sec s"
  "cfg_auth_enabled (s\<lparr>cfg_kafka_aws_region := u\<rparr>) = cfg_auth_enabled s"
  "cfg_auth_jwt_signing_material (s\<lparr>cfg_kafka_aws_region := u\<rparr>) = cfg_auth_jwt_signing_material s"
  "cfg_kafka_ssl_ca_file (s\<lparr>cfg_kafka_aws_region := u\<rparr>) = cfg_kafka_ssl_ca_file s"
  "cfg_redis_sequence_state_key_prefix (s\<lparr>cfg_kafka_aws_region := u\<rparr>) = cfg_redis_sequence_state_key_prefix s"
  "cfg_redis_ownership_guard_key_prefix (s\<lparr>cfg_kafka_aws_region := u\<rparr>) = cfg_redis_ownership_guard_key_prefix s"
  by simp_all

lemma fields_ok_region: "fields_ok (s\<lparr>cfg_kafka_aws_region := u\<rparr>) = fields_ok s"
  by (simp add: fields_ok_def)

lemma region_rule_sets:
  assumes "kafka_region_rule env s1 = Inr s"
  shows "\<exists>u. s = s1\<lparr>cfg_kafka_aws_region := u\<rparr> \<and> (cfg_kafka_mode s1 = ''aws_msk'' \<longrightarrow> u \<noteq> None)"
proof (cases "cfg_kafka_mode s1 = ''aws_msk''")
  case True
  then show ?thesis using assms by (auto simp: kafka_region_rule_def Let_def split: if_splits)
next
  case False
  then have "s = s1\<lparr>cfg_kafka_aws_region := cfg_kafka_aws_region s1\<rparr>" using assms by (simp add: kafka_region_rule_def)
  then show ?thesis using False by blast
qed

lemma rules_ok:
  assumes "apply_environment_rules env s0 = Inr s" and "fields_ok s0"
  shows "settings_ok s"
proof -
  obtain s1 where s1: "app_env_rules s0 = Inr s1" using assms(1) by (auto simp: apply_environment_rules_def split: sum.splits)
  note k = app_env_rules_keeps [OF s1 assms(2)]
  have r: "kafka_region_rule env s1 = Inr s" "cfg_redis_final_ttl_sec s1 \<le> cfg_redis_active_ttl_sec s1"
    "cfg_ws_ownership_guard_refresh_interval_sec s1 < of_int (cfg_redis_ownership_guard_ttl_sec s1)"
    "cfg_auth_enabled s1 \<longrightarrow> cfg_auth_jwt_signing_material s1 \<noteq> None"
    "cfg_app_env s1 = ''deployed'' \<longrightarrow> cfg_kafka_mode s1 = ''aws_msk''"
    "cfg_kafka_mode s1 = ''local'' \<longrightarrow> cfg_kafka_ssl_ca_file s1 = None"
    using assms(1) s1 by (auto simp: apply_environment_rules_def split: if_splits)
  obtain u where u: "s = s1\<lparr>cfg_kafka_aws_region := u\<rparr>" "cfg_kafka_mode s1 = ''aws_msk'' \<longrightarrow> u \<noteq> None"
    using region_rule_sets [OF r(1)] by blast
  have "fields_ok (s1\<lparr>cfg_kafka_aws_region := u\<rparr>)" using k [THEN conjunct1] by (simp only: fields_ok_region)
  moreover note k [THEN conjunct2] r(2-) u(2)
  ultimately show ?thesis unfolding settings_ok_def u(1) settings_region by blast
qed

lemma rules_fixpoint:
  assumes "settings_ok s"
  shows "apply_environment_rules env s = Inr s"
proof -
  have "s\<lparr>cfg_redis_url := cfg_redis_url s, cfg_kafka_bootstrap_servers := cfg_kafka_bootstrap_servers s\<rparr> = s" by simp
  note same = this
  have set: "cfg_redis_url s \<noteq> None" "cfg_kafka_bootstrap_servers s \<noteq> None"
    and deployed: "cfg_app_env s \<noteq> ''local'' \<longrightarrow>
        cfg_redis_sequence_state_key_prefix s \<noteq> DEFAULT_REDIS_SEQUENCE_STATE_KEY_PREFIX
      \<and> cfg_redis_ownership_guard_key_prefix s \<noteq> DEFAULT_REDIS_OWNERSHIP_GUARD_KEY_PREFIX"
    using assms unfolding settings_ok_def fields_ok_def insert_iff empty_iff by blast+
  then obtain u b where ub: "cfg_redis_url s = Some u" "cfg_kafka_bootstrap_servers s = Some b" by blast
  have a: "app_env_rules s = Inr s"
  proof (cases "cfg_app_env s = ''local''")
    case True
    then show ?thesis using same by (simp only: app_env_rules_def ub option.case refl if_True)
  next
    case False
    then show ?thesis using deployed by (simp add: app_env_rules_def ub)
  qed
  have b: "kafka_region_rule env s = Inr s"
  proof (cases "cfg_kafka_mode s = ''aws_msk''")
    case True
    then obtain x where x: "cfg_kafka_aws_region s = Some x" using assms unfolding settings_ok_def by blast
    have "s\<lparr>cfg_kafka_aws_region := cfg_kafka_aws_region s\<rparr> = s" by simp
    then show ?thesis by (simp add: kafka_region_rule_def x)
  qed (simp add: kafka_region_rule_def)
  have "\<not> cfg_redis_final_ttl_sec s > cfg_redis_active_ttl_sec s"
    "\<not> cfg_ws_ownership_guard_refresh_interval_sec s \<ge> of_int (cfg_redis_ownership_guard_ttl_sec s)"
    "\<not> (cfg_auth_enabled s \<and> cfg_auth_jwt_signing_material s = None)"
    "\<not> (cfg_app_env s = ''deployed'' \<and> cfg_kafka_mode s \<noteq> ''aws_msk'')"
    using assms unfolding settings_ok_def not_less not_le by blast+
  moreover have "\<not> (cfg_kafka_mode s = ''local'' \<and> cfg_kafka_ssl_ca_file s \<noteq> None)"
    using assms by (simp add: settings_ok_def)
  ultimately show ?thesis unfolding apply_environment_rules_def a sum.case b by (simp only: if_False)
qed

lemma validated:
  assumes "validate_settings T env src = Inr s"
  shows "\<exists>s0. parse_settings T src = Inr s0 \<and> apply_environment_rules env s0 = Inr s"
proof (cases "parse_settings T src")
  case (Inr s0)
  then show ?thesis using assms by (cases "apply_environment_rules env s0") (auto simp: validate_settings_def)
qed (use assms in \<open>simp add: validate_settings_def\<close>)

lemma validated_ok:
  assumes "validate_settings T env src = Inr s"
  shows "settings_ok s"
proof -
  obtain s0 where s0: "parse_settings T src = Inr s0" "apply_environment_rules env s0 = Inr s"
    using validated [OF assms] by blast
  show ?thesis by (rule rules_ok [OF s0(2) parse_settings_ok [OF s0(1)]])
qed

section \<open>Properties\<close>


text \<open>
  A validated configuration is a fixed point of the environment rules: applying them again, in whatever
  environment, accepts it and changes nothing, so no default and no region is filled in a second time.
\<close>

theorem environment_rules_fixpoint:
  assumes "validate_settings T env src = Inr s"
  shows "apply_environment_rules env' s = Inr s"
  by (rule rules_fixpoint [OF validated_ok [OF assms]])

text \<open>A local configuration from the defaults, with a parser for values that already have their type.\<close>

definition plain_types :: settings_types where
  "plain_types = \<lparr>st_str = (\<lambda>v. case v of JStr s \<Rightarrow> Inr s | _ \<Rightarrow> Inl (mk_verr ''string_type'' [])),
     st_int = (\<lambda>v. case v of JInt i \<Rightarrow> Inr i | _ \<Rightarrow> Inl (mk_verr ''int_type'' [])),
     st_float = (\<lambda>v. case v of JFloat x \<Rightarrow> Inr x | _ \<Rightarrow> Inl (mk_verr ''float_type'' [])),
     st_bool = (\<lambda>v. case v of JBool b \<Rightarrow> Inr b | _ \<Rightarrow> Inl (mk_verr ''bool_type'' []))\<rparr>"

definition local_source :: "string \<Rightarrow> json option" where
  "local_source = [''app_env'' \<mapsto> JStr '' Local '', ''url_path_prefix'' \<mapsto> JStr ''abc/'']"

lemma local_validates: "\<not> isl (validate_settings plain_types Map.empty local_source)"
  by code_simp


theorem environment_rules_fixpoint_witness:
  "\<forall>env. apply_environment_rules env (projr (validate_settings plain_types Map.empty local_source))
    = Inr (projr (validate_settings plain_types Map.empty local_source))"
  using local_validates by (intro allI environment_rules_fixpoint) simp

end
