(* ===== verification/Secrets.thy ===== *)
theory Secrets
  imports Settings
begin

text \<open>
  The loader of the deployed configuration, \<open>config/secrets_loader.py\<close>, and \<open>get_settings\<close> of
  \<open>config/settings.py\<close>. The process state is \<open>os.environ\<close> (an ordered dictionary), the loader's one-shot flag and
  the \<open>lru_cache\<close> of \<open>get_settings\<close>. boto3 and python-dotenv are the record \<open>aws\<close>: whether boto3 is installed, creating the
  client, its \<open>get_secret_value\<close>, and the parsed \<open>.env\<close> file (if any). How \<open>json.loads\<close> and \<open>str\<close> of a float
  behave is part of the same record.
\<close>

section \<open>State\<close>

type_synonym env = "(string \<times> string) list"

record process =
  environ :: env
  secrets_loaded :: bool
  settings_cache :: "settings option"

datatype secret_reply =
    ClientError string
  | Failed exn
  | SecretString "string option"

record aws =
  boto3_present :: bool
  boto3_client :: "string option \<Rightarrow> unit res"
  get_secret_value :: "string option \<Rightarrow> string \<Rightarrow> secret_reply"
  dotenv_file :: "(string \<times> string option) list option"
  json_loads :: "string \<Rightarrow> json option"
  float_str :: "rat \<Rightarrow> string"

definition env_get :: "env \<Rightarrow> string \<Rightarrow> string" where
  "env_get e k = (case map_of e k of None \<Rightarrow> [] | Some v \<Rightarrow> v)"

section \<open>The loader\<close>

definition DEPLOYED_BOOTSTRAP_ENV_KEYS :: "string list" where
  "DEPLOYED_BOOTSTRAP_ENV_KEYS = [''APP_ENV'', ''AWS_SECRETS_MANAGER_SECRET_ID'', ''AWS_REGION'', ''AWS_DEFAULT_REGION'']"

definition bool_str :: "bool \<Rightarrow> string" where
  "bool_str b = (if b then ''true'' else ''false'')"

fun secret_scalar_to_str :: "(rat \<Rightarrow> string) \<Rightarrow> json \<Rightarrow> string res" where
  "secret_scalar_to_str fs JNull = Inr []"
| "secret_scalar_to_str fs (JBool b) = Inr (bool_str b)"
| "secret_scalar_to_str fs (JInt i) = Inr (str_of_int i)"
| "secret_scalar_to_str fs (JFloat x) = Inr (fs x)"
| "secret_scalar_to_str fs (JStr s) = Inr s"
| "secret_scalar_to_str fs (JArr _) =
     Inl (ValueError ''Unsupported JSON value type in secret: list (use string, number, boolean, or null)'')"
| "secret_scalar_to_str fs (JObj _) =
     Inl (ValueError ''Unsupported JSON value type in secret: dict (use string, number, boolean, or null)'')"

definition dotenv_step :: "env \<Rightarrow> string \<times> string option \<Rightarrow> env" where
  "dotenv_step out kv = (case kv of (key, val) \<Rightarrow>
     if strip key = [] then out
     else (case val of None \<Rightarrow> out
       | Some v \<Rightarrow> if strip v = [] then out else dict_set out (upper (strip key)) (strip v)))"

definition load_dotenv_layer :: "(string \<times> string option) list option \<Rightarrow> env" where
  "load_dotenv_layer file = (case file of None \<Rightarrow> [] | Some raw \<Rightarrow> foldl dotenv_step [] raw)"

fun secret_kv_loop :: "(rat \<Rightarrow> string) \<Rightarrow> env \<Rightarrow> dict \<Rightarrow> env res" where
  "secret_kv_loop fs out [] = Inr out"
| "secret_kv_loop fs out ((key, val) # rest) =
     (let name = strip key; env_key = upper name in
      if name = [] then secret_kv_loop fs out rest
      else (case secret_scalar_to_str fs val of
          Inl e \<Rightarrow> Inl (RuntimeError (''Invalid value for secret key '' @ py_repr env_key @ '': '' @ exn_str e))
        | Inr v \<Rightarrow> secret_kv_loop fs (dict_set out env_key v) rest))"

definition secret_json_to_env_kv :: "(rat \<Rightarrow> string) \<Rightarrow> dict \<Rightarrow> env res" where
  "secret_json_to_env_kv fs d = secret_kv_loop fs [] d"

text \<open>Reading the secret and turning it into environment variables.\<close>

definition fetch_secret_kv :: "aws \<Rightarrow> string option \<Rightarrow> string \<Rightarrow> env res" where
  "fetch_secret_kv A region secret_id =
     (case boto3_client A region of
        Inl e \<Rightarrow> Inl e
      | Inr _ \<Rightarrow> (case get_secret_value A region secret_id of
          ClientError m \<Rightarrow>
            Inl (RuntimeError (''Failed to read AWS Secrets Manager secret '' @ py_repr secret_id @ '': '' @ m))
        | Failed e \<Rightarrow> Inl e
        | SecretString None \<Rightarrow>
            Inl (RuntimeError (''Secret '' @ py_repr secret_id
              @ '' has no SecretString (binary-only secrets are not supported)''))
        | SecretString (Some raw) \<Rightarrow>
            (case json_loads A raw of
               None \<Rightarrow> Inl (RuntimeError (''Secret '' @ py_repr secret_id @ '' must contain a JSON object (UTF-8 string)''))
             | Some (JObj d) \<Rightarrow> secret_json_to_env_kv (float_str A) d
             | Some _ \<Rightarrow> Inl (RuntimeError (''Secret '' @ py_repr secret_id
                 @ '' JSON root must be an object, not a list or scalar'')))))"

text \<open>The layers from the lowest to the highest; the bootstrap keys of the process last.\<close>

fun restore_keys :: "env \<Rightarrow> string list \<Rightarrow> env \<Rightarrow> env" where
  "restore_keys initial [] merged = merged"
| "restore_keys initial (bk # bks) merged =
     restore_keys initial bks (case map_of initial bk of None \<Rightarrow> merged | Some v \<Rightarrow> dict_set merged bk v)"

definition merged_layers :: "env \<Rightarrow> env \<Rightarrow> env \<Rightarrow> env" where
  "merged_layers dot_layer initial secret_kv =
     restore_keys initial DEPLOYED_BOOTSTRAP_ENV_KEYS
       (dict_update (dict_update (dict_update [] dot_layer) initial) secret_kv)"

text \<open>\<open>os.environ[k] = v\<close>: a NUL or an equals sign in the name is refused.\<close>

definition legal_variable :: "string \<Rightarrow> string \<Rightarrow> bool" where
  "legal_variable k v \<longleftrightarrow> CHR 0x00 \<notin> set k \<and> CHR 0x00 \<notin> set v \<and> CHR ''='' \<notin> set k"

definition setenv :: "string \<Rightarrow> string \<Rightarrow> (process, unit) io" where
  "setenv k v = (\<lambda>p.
     if CHR 0x00 \<in> set k \<or> CHR 0x00 \<in> set v then (Inl (ValueError ''embedded null byte''), p)
     else if CHR ''='' \<in> set k then (Inl (ValueError ''illegal environment variable name''), p)
     else (Inr (), p\<lparr>environ := dict_set (environ p) k v\<rparr>))"

fun setenv_all :: "env \<Rightarrow> (process, unit) io" where
  "setenv_all [] = returnE ()"
| "setenv_all ((k, v) # kvs) = bindE (setenv k v) (\<lambda>_. setenv_all kvs)"

definition loader_region :: "env \<Rightarrow> string" where
  "loader_region initial =
     strip (if env_get initial ''AWS_REGION'' \<noteq> [] then env_get initial ''AWS_REGION'' else env_get initial ''AWS_DEFAULT_REGION'')"

text \<open>The values of the secret, with the checks before it.\<close>

definition secret_env :: "aws \<Rightarrow> env \<Rightarrow> env res" where
  "secret_env A initial =
     (let secret_id = strip (env_get initial ''AWS_SECRETS_MANAGER_SECRET_ID''); region = loader_region initial in
      if secret_id = []
      then Inl (RuntimeError (''APP_ENV=deployed requires AWS_SECRETS_MANAGER_SECRET_ID ''
        @ ''to load configuration from AWS Secrets Manager''))
      else if \<not> boto3_present A
      then Inl (RuntimeError ''boto3 is required when APP_ENV=deployed (install the runtime dependency)'')
      else fetch_secret_kv A (if region \<noteq> [] then Some region else None) secret_id)"

definition deployed_env :: "env \<Rightarrow> bool" where
  "deployed_env e \<longleftrightarrow> lower (strip (env_get e ''APP_ENV'')) = ''deployed''"

definition merge_deployed_secrets_into_environ :: "aws \<Rightarrow> (process, unit) io" where
  "merge_deployed_secrets_into_environ A = (\<lambda>p.
     if secrets_loaded p then (Inr (), p)
     else if \<not> deployed_env (environ p) then (Inr (), p)
     else (case secret_env A (environ p) of
         Inl e \<Rightarrow> (Inl e, p)
       | Inr secret_kv \<Rightarrow>
           bindE (setenv_all (merged_layers (load_dotenv_layer (dotenv_file A)) (environ p) secret_kv))
             (\<lambda>_ p. (Inr (), p\<lparr>secrets_loaded := True\<rparr>)) p))"

section \<open>\<open>get_settings\<close>\<close>

text \<open>
  pydantic-settings' reading of the raw values: \<open>read_env\<close> from a given environment alone, \<open>read_all\<close> from the environment
  and the \<open>.env\<close> file.
\<close>

record settings_sources =
  read_env :: "env \<Rightarrow> string \<Rightarrow> json option"
  read_all :: "env \<Rightarrow> string \<Rightarrow> json option"

datatype config_error = Raised exn | ValidationError "verr list"

definition get_settings :: "settings_types \<Rightarrow> settings_sources \<Rightarrow> aws \<Rightarrow> process \<Rightarrow> (config_error + settings) \<times> process" where
  "get_settings T R A p =
     (case settings_cache p of
        Some s \<Rightarrow> (Inr s, p)
      | None \<Rightarrow>
          (case merge_deployed_secrets_into_environ A p of
             (Inl e, p') \<Rightarrow> (Inl (Raised e), p')
           | (Inr _, p') \<Rightarrow>
               (case validate_settings T (map_of (environ p'))
                   (if deployed_env (environ p') then read_env R (environ p') else read_all R (environ p')) of
                  Inl es \<Rightarrow> (Inl (ValidationError es), p')
                | Inr s \<Rightarrow> (Inr s, p'\<lparr>settings_cache := Some s\<rparr>))))"

section \<open>What the loader does\<close>

text \<open>A partly executed write: a prefix of the assignments has happened, all of them if nothing was raised.\<close>

lemma setenv_all_prefix:
  assumes "setenv_all kvs p = (r, p')"
  obtains ys zs where "kvs = ys @ zs" and "p' = p\<lparr>environ := dict_update (environ p) ys\<rparr>"
    and "r = Inr () \<Longrightarrow> zs = []" and "\<And>e. r = Inl e \<Longrightarrow> zs \<noteq> [] \<and> \<not> legal_variable (fst (hd zs)) (snd (hd zs))"
  using assms
proof (induction kvs arbitrary: p thesis)
  case Nil
  show ?case by (rule Nil.prems(1) [of "[]" "[]"]) (use Nil.prems(2) in \<open>auto simp: dict_update_def\<close>)
next
  case (Cons kv kvs)
  obtain k v where kv: "kv = (k, v)" by (cases kv)
  show ?case
  proof (cases "legal_variable k v")
    case True
    then have "setenv_all kvs (p\<lparr>environ := dict_set (environ p) k v\<rparr>) = (r, p')"
      using Cons.prems(2) by (simp add: kv setenv_def legal_variable_def bindE_def)
    then obtain ys zs where yz: "kvs = ys @ zs" "r = Inr () \<Longrightarrow> zs = []"
      "p' = p\<lparr>environ := dict_set (environ p) k v, environ := dict_update (dict_set (environ p) k v) ys\<rparr>"
      "\<And>e. r = Inl e \<Longrightarrow> zs \<noteq> [] \<and> \<not> legal_variable (fst (hd zs)) (snd (hd zs))"
      by (rule Cons.IH [rotated]) auto
    show ?thesis
      by (rule Cons.prems(1) [of "kv # ys" zs]) (use yz in \<open>auto simp: kv dict_update_def\<close>)
  next
    case False
    then obtain e where "r = Inl e" "p' = p"
      using Cons.prems(2) by (auto simp: kv setenv_def legal_variable_def bindE_def split: if_splits)
    then show ?thesis using False by (intro Cons.prems(1) [of "[]" "kv # kvs"]) (auto simp: kv dict_update_def)
  qed
qed

lemma dict_update_map: "distinct (map fst e) \<Longrightarrow> map_of (dict_update d e) = map_of d ++ map_of e"
  by (auto simp: fun_eq_iff map_of_dict_update map_of_rev_distinct map_add_def)

lemma secret_kv_loop_distinct: "secret_kv_loop fs out d = Inr kv \<Longrightarrow> distinct (map fst out) \<Longrightarrow> distinct (map fst kv)"
  by (induction fs out d rule: secret_kv_loop.induct)
    (auto simp: Let_def dict_set_distinct split: if_splits sum.splits)

lemma secret_env_distinct:
  assumes "secret_env A e = Inr kv"
  shows "distinct (map fst kv)"
proof -
  obtain d where "secret_json_to_env_kv (float_str A) d = Inr kv"
    using assms by (auto simp: secret_env_def fetch_secret_kv_def Let_def
        split: if_splits sum.splits secret_reply.splits option.splits json.splits)
  then show ?thesis by (auto simp: secret_json_to_env_kv_def dest: secret_kv_loop_distinct)
qed

lemma dotenv_layer_distinct: "distinct (map fst (load_dotenv_layer f))"
proof -
  have "distinct (map fst out) \<Longrightarrow> distinct (map fst (foldl dotenv_step out raw))" for out raw
    by (induction raw arbitrary: out) (auto simp: dotenv_step_def dict_set_distinct split: option.splits)
  then show ?thesis by (auto simp: load_dotenv_layer_def split: option.splits)
qed

lemma restore_keys_map: "map_of (restore_keys initial bks merged) = map_of merged ++ (map_of initial |` set bks)"
  by (induction initial bks merged rule: restore_keys.induct)
    (auto simp: fun_eq_iff map_add_def restrict_map_def split: option.splits)

lemma restore_keys_distinct: "distinct (map fst merged) \<Longrightarrow> distinct (map fst (restore_keys initial bks merged))"
  by (induction initial bks merged rule: restore_keys.induct) (auto simp: dict_set_distinct split: option.splits)

text \<open>The layering: later layers win, and bootstrap keys keep the value of the process, if it has one.\<close>

lemma merged_layers_map:
  assumes "distinct (map fst dot)" and "distinct (map fst initial)" and "distinct (map fst kv)"
  shows "map_of (merged_layers dot initial kv)
    = map_of dot ++ map_of initial ++ map_of kv ++ (map_of initial |` set DEPLOYED_BOOTSTRAP_ENV_KEYS)"
  using assms by (simp add: merged_layers_def restore_keys_map dict_update_map)

lemma merged_layers_distinct: "distinct (map fst (merged_layers dot initial kv))"
  by (simp add: merged_layers_def restore_keys_distinct dict_update_distinct)

text \<open>The successful run.\<close>

lemma merge_success:
  assumes "merge_deployed_secrets_into_environ A p = (Inr (), p')" and "\<not> secrets_loaded p" and "deployed_env (environ p)"
    and "distinct (map fst (environ p))"
  obtains kv where "secret_env A (environ p) = Inr kv" and "secrets_loaded p'" and "settings_cache p' = settings_cache p"
    and "distinct (map fst (environ p'))"
    and "map_of (environ p') = map_of (load_dotenv_layer (dotenv_file A)) ++ map_of (environ p) ++ map_of kv
      ++ (map_of (environ p) |` set DEPLOYED_BOOTSTRAP_ENV_KEYS)"
proof -
  obtain kv where kv: "secret_env A (environ p) = Inr kv"
    using assms(1-3) by (cases "secret_env A (environ p)") (auto simp: merge_deployed_secrets_into_environ_def)
  define m where "m = merged_layers (load_dotenv_layer (dotenv_file A)) (environ p) kv"
  obtain r q where q: "setenv_all m p = (r, q)" by (cases "setenv_all m p")
  have r: "r = Inr ()" and p': "p' = q\<lparr>secrets_loaded := True\<rparr>"
    using assms(1-3) q by (auto simp: merge_deployed_secrets_into_environ_def kv m_def bindE_def split: sum.splits)
  have qe: "q = p\<lparr>environ := dict_update (environ p) m\<rparr>"
    by (rule setenv_all_prefix [OF q]) (use r in auto)
  have "map_of (environ p) ++ map_of m = map_of m"
    by (simp add: m_def merged_layers_map [OF dotenv_layer_distinct assms(4) secret_env_distinct [OF kv]])
      (auto simp: fun_eq_iff map_add_def split: option.splits)
  then have "map_of (environ p') = map_of m" by (simp add: p' qe dict_update_map m_def merged_layers_distinct)
  then have e: "map_of (environ p') = map_of (load_dotenv_layer (dotenv_file A)) ++ map_of (environ p) ++ map_of kv
      ++ (map_of (environ p) |` set DEPLOYED_BOOTSTRAP_ENV_KEYS)"
    by (simp add: m_def merged_layers_map [OF dotenv_layer_distinct assms(4) secret_env_distinct [OF kv]])
  show ?thesis
    by (rule that [OF kv _ _ _ e]) (simp_all add: p' qe dict_update_distinct assms(4))
qed

text \<open>Every other run: what was written is a prefix of the layers.\<close>

lemma merge_cases:
  assumes "merge_deployed_secrets_into_environ A p = (r, p')"
  obtains (nothing) "p' = p" "\<And>e. r = Inl e \<Longrightarrow> \<not> secrets_loaded p"
  | (written) kv ys zs where "merged_layers (load_dotenv_layer (dotenv_file A)) (environ p) kv = ys @ zs"
      "environ p' = dict_update (environ p) ys" "settings_cache p' = settings_cache p"
      "\<not> secrets_loaded p" "secrets_loaded p' = (r = Inr ())"
      "\<And>e. r = Inl e \<Longrightarrow> zs \<noteq> [] \<and> \<not> legal_variable (fst (hd zs)) (snd (hd zs))"
proof (cases "secrets_loaded p \<or> \<not> deployed_env (environ p)")
  case True
  show ?thesis by (rule nothing) (use True assms in \<open>auto simp: merge_deployed_secrets_into_environ_def split: if_splits\<close>)
next
  case False
  show ?thesis
  proof (cases "secret_env A (environ p)")
    case (Inl e)
    show ?thesis by (rule nothing) (use Inl assms False in \<open>auto simp: merge_deployed_secrets_into_environ_def\<close>)
  next
    case (Inr kv)
    define m where "m = merged_layers (load_dotenv_layer (dotenv_file A)) (environ p) kv"
    obtain r' q where q: "setenv_all m p = (r', q)" by (cases "setenv_all m p")
    have r: "r = r'" and p': "p' = (if r' = Inr () then q\<lparr>secrets_loaded := True\<rparr> else q)"
      using assms False q by (auto simp: merge_deployed_secrets_into_environ_def Inr m_def bindE_def split: sum.splits)
    obtain ys zs where yz: "m = ys @ zs" "q = p\<lparr>environ := dict_update (environ p) ys\<rparr>"
      "\<And>e. r' = Inl e \<Longrightarrow> zs \<noteq> [] \<and> \<not> legal_variable (fst (hd zs)) (snd (hd zs))"
      using setenv_all_prefix [OF q] by metis
    show ?thesis
      by (rule written [of kv ys zs]) (use yz False in \<open>auto simp: r p' m_def\<close>)
  qed
qed

section \<open>Properties\<close>


text \<open>
  Whatever the secret, the \<open>.env\<close> file and the AWS calls do, and also when the loader fails half-way, a bootstrap key
  that the process environment defines keeps its value.
\<close>

theorem bootstrap_keys_kept:
  assumes "distinct (map fst (environ p))" and "bk \<in> set DEPLOYED_BOOTSTRAP_ENV_KEYS" and "map_of (environ p) bk = Some v"
  shows "map_of (environ (snd (merge_deployed_secrets_into_environ A p))) bk = Some v"
proof -
  obtain r p' where m: "merge_deployed_secrets_into_environ A p = (r, p')" by (cases "merge_deployed_secrets_into_environ A p")
  from m have "map_of (environ p') bk = Some v"
  proof (cases rule: merge_cases)
    case (written kv ys zs)
    have d: "distinct (map fst (ys @ zs))" using written(1) merged_layers_distinct by metis
    have "map_of (ys @ zs) bk = Some v"
      by (simp only: written(1) [symmetric] merged_layers_def restore_keys_map) (use assms(2,3) in \<open>simp add: map_add_def restrict_map_def\<close>)
    then have "map_of ys bk = Some v \<or> map_of ys bk = None" by (auto split: option.splits)
    then show ?thesis using d assms(3) by (auto simp: written(2) dict_update_map map_add_def)
  qed (use assms(3) in simp)
  then show ?thesis by (simp add: m)
qed

text \<open>
  A failed load can be repeated: the flag stays unset and nothing is cached, and the environment is as before unless
  the loader stopped at a variable whose name or value the operating system refuses.
\<close>

theorem failed_load_repeatable:
  assumes "merge_deployed_secrets_into_environ A p = (Inl e, p')"
  shows "\<not> secrets_loaded p' \<and> settings_cache p' = settings_cache p
    \<and> (environ p' = environ p \<or> (\<exists>kv k v. (k, v) \<in> set (merged_layers (load_dotenv_layer (dotenv_file A)) (environ p) kv)
          \<and> \<not> legal_variable k v))"
  using assms
proof (cases rule: merge_cases)
  case (written kv ys zs)
  have zs: "zs \<noteq> [] \<and> \<not> legal_variable (fst (hd zs)) (snd (hd zs))" using written(6) by blast
  then have "hd zs \<in> set (merged_layers (load_dotenv_layer (dotenv_file A)) (environ p) kv)" by (simp add: written(1))
  then show ?thesis using written zs by (metis prod.collapse sum.distinct(1))
qed simp

text \<open>
  \<open>get_settings\<close> returns only consistent configurations, and once it has returned one every later call
  returns the same and changes nothing, whatever AWS then holds.
\<close>

theorem get_settings_consistent_and_stable:
  assumes "get_settings T R A p = (Inr s, p')" and "\<forall>s0. settings_cache p = Some s0 \<longrightarrow> settings_ok s0"
  shows "settings_ok s \<and> (\<forall>A'. get_settings T R A' p' = (Inr s, p'))"
proof (cases "settings_cache p")
  case None
  obtain r q where m: "merge_deployed_secrets_into_environ A p = (r, q)" by (cases "merge_deployed_secrets_into_environ A p")
  have v: "validate_settings T (map_of (environ q))
      (if deployed_env (environ q) then read_env R (environ q) else read_all R (environ q)) = Inr s"
    and p': "p' = q\<lparr>settings_cache := Some s\<rparr>"
    using assms(1) by (auto simp: get_settings_def None m split: sum.splits)
  show ?thesis using validated_ok [OF v] by (simp add: get_settings_def p')
qed (use assms in \<open>auto simp: get_settings_def\<close>)

section \<open>A deployment\<close>

text \<open>A task with its bootstrap variables and one stale value; a secret that also tries to set bootstrap keys.\<close>

definition task_process :: process where
  "task_process = \<lparr>environ = [(''APP_ENV'', ''deployed''), (''AWS_SECRETS_MANAGER_SECRET_ID'', ''rts''), (''AWS_REGION'', ''us-east-1''),
     (''KAFKA_TOPIC'', ''stale'')], secrets_loaded = False, settings_cache = None\<rparr>"

definition task_aws :: aws where
  "task_aws = \<lparr>boto3_present = True, boto3_client = (\<lambda>_. Inr ()), get_secret_value = (\<lambda>_ _. SecretString (Some ''body'')),
     dotenv_file = Some [(''log_level'', Some ''debug''), (''kafka_topic'', Some ''unused''), (''EMPTY'', None)],
     json_loads = (\<lambda>_. Some (JObj [(''APP_ENV'', JStr ''local''), (''redis_url'', JStr ''rediss://r:6379''),
       (''KAFKA_BOOTSTRAP_SERVERS'', JStr ''b:9098''), (''KAFKA_MODE'', JStr ''aws_msk''), (''KAFKA_TOPIC'', JStr ''calls''),
       (''REDIS_SEQUENCE_STATE_KEY_PREFIX'', JStr ''dev:seq''), (''REDIS_OWNERSHIP_GUARD_KEY_PREFIX'', JStr ''dev:own'')])),
     float_str = (\<lambda>_. [])\<rparr>"

definition variable_of_field :: "(string \<times> string) list" where
  "variable_of_field = [(''app_env'', ''APP_ENV''), (''redis_url'', ''REDIS_URL''), (''kafka_mode'', ''KAFKA_MODE''),
     (''kafka_topic'', ''KAFKA_TOPIC''), (''kafka_bootstrap_servers'', ''KAFKA_BOOTSTRAP_SERVERS''), (''log_level'', ''LOG_LEVEL''),
     (''redis_sequence_state_key_prefix'', ''REDIS_SEQUENCE_STATE_KEY_PREFIX''),
     (''redis_ownership_guard_key_prefix'', ''REDIS_OWNERSHIP_GUARD_KEY_PREFIX'')]"

definition plain_source :: "env \<Rightarrow> string \<Rightarrow> json option" where
  "plain_source e f = (case map_of variable_of_field f of None \<Rightarrow> None | Some k \<Rightarrow> map_option JStr (map_of e k))"

definition plain_sources :: settings_sources where
  "plain_sources = \<lparr>read_env = plain_source, read_all = plain_source\<rparr>"

abbreviation task_loaded :: process where
  "task_loaded \<equiv> snd (merge_deployed_secrets_into_environ task_aws task_process)"

lemma task_loads: "fst (merge_deployed_secrets_into_environ task_aws task_process) = Inr ()"
  by code_simp

lemma task_start: "\<not> secrets_loaded task_process \<and> deployed_env (environ task_process) \<and> distinct (map fst (environ task_process))"
  by code_simp

lemma no_boto3_fails: "isl (fst (merge_deployed_secrets_into_environ (task_aws\<lparr>boto3_present := False\<rparr>) task_process))"
  by code_simp

lemma task_secret: "map_of (projr (secret_env task_aws (environ task_process))) ''KAFKA_TOPIC'' = Some ''calls''"
  by code_simp


theorem bootstrap_keys_kept_witness: "map_of (environ task_loaded) ''APP_ENV'' = Some ''deployed''"
  by (rule bootstrap_keys_kept) (simp_all add: task_process_def DEPLOYED_BOOTSTRAP_ENV_KEYS_def)

theorem failed_load_repeatable_witness:
  "\<not> secrets_loaded (snd (merge_deployed_secrets_into_environ (task_aws\<lparr>boto3_present := False\<rparr>) task_process))"
proof -
  obtain e where "fst (merge_deployed_secrets_into_environ (task_aws\<lparr>boto3_present := False\<rparr>) task_process) = Inl e"
    using no_boto3_fails by (auto simp: isl_def)
  then show ?thesis by (intro failed_load_repeatable [THEN conjunct1]) (simp add: prod_eq_iff)
qed

lemma task_settings: "\<not> isl (fst (get_settings plain_types plain_sources task_aws task_process))"
  by code_simp

theorem get_settings_consistent_and_stable_witness:
  "settings_ok (projr (fst (get_settings plain_types plain_sources task_aws task_process)))"
proof -
  have "get_settings plain_types plain_sources task_aws task_process
    = (Inr (projr (fst (get_settings plain_types plain_sources task_aws task_process))),
       snd (get_settings plain_types plain_sources task_aws task_process))"
    using task_settings by (simp add: prod_eq_iff)
  moreover have "settings_cache task_process = None" by (simp add: task_process_def)
  ultimately show ?thesis using get_settings_consistent_and_stable by (metis option.distinct(1))
qed

text \<open>
  A bootstrap key that the process environment does not define is taken from the secret (or \<open>.env\<close>): the comments of
  the loader say that these keys always keep their initial values and are never taken from there.
\<close>

theorem region_taken_from_secret:
  "\<exists>A. map_of (environ task_process) ''AWS_DEFAULT_REGION'' = None
    \<and> map_of (environ (snd (merge_deployed_secrets_into_environ A task_process))) ''AWS_DEFAULT_REGION'' = Some ''eu-west-1''"
  by (rule exI [of _ "task_aws\<lparr>json_loads := (\<lambda>_. Some (JObj [(''AWS_DEFAULT_REGION'', JStr ''eu-west-1'')]))\<rparr>"]) code_simp

end
