(* ===== verification/Log_Setup.thy ===== *)
theory Log_Setup
  imports Logging
begin

text \<open>
  The processors and handlers that \<open>config/logging_config.py\<close> installs. The processors of structlog are parameters, functions on the
  event dictionary; the loggers of the standard library are a table of handlers, levels and propagation. Rendering a
  finished event is not modelled.
\<close>

section \<open>Processors\<close>

record structlog_processors =
  merge_contextvars :: "dict \<Rightarrow> dict"
  add_logger_name :: "dict \<Rightarrow> dict"
  add_log_level :: "dict \<Rightarrow> dict"
  time_stamper :: "dict \<Rightarrow> dict"
  stack_info_renderer :: "dict \<Rightarrow> dict"
  format_exc_info :: "dict \<Rightarrow> dict"
  unicode_decoder :: "dict \<Rightarrow> dict"

definition shared_processors :: "structlog_processors \<Rightarrow> (string \<Rightarrow> bool) \<Rightarrow> (json \<Rightarrow> string) \<Rightarrow> string \<Rightarrow> (dict \<Rightarrow> dict) list" where
  "shared_processors S ip_host py_str version =
     [add_service_context version, mask_sensitive_processor ip_host py_str, merge_contextvars S, ensure_conversation_id,
      add_logger_name S, add_log_level S, time_stamper S, stack_info_renderer S, format_exc_info S, unicode_decoder S,
      group_identity]"

definition process_event :: "structlog_processors \<Rightarrow> (string \<Rightarrow> bool) \<Rightarrow> (json \<Rightarrow> string) \<Rightarrow> string \<Rightarrow> dict \<Rightarrow> dict" where
  "process_event S ip_host py_str version d = fold (\<lambda>f d. f d) (shared_processors S ip_host py_str version) d"

section \<open>Handlers of the standard library\<close>

record log_handler =
  handler_level :: nat
  handler_json :: bool
  handler_suppresses_probes :: bool

record logger =
  lg_handlers :: "log_handler list"
  lg_propagate :: bool
  lg_level :: nat

text \<open>All loggers by name; the root logger has the empty name, and a logger nobody has touched is \<open>new_logger\<close>.\<close>

type_synonym loggers = "string \<Rightarrow> logger"

definition new_logger :: logger where
  "new_logger = \<lparr>lg_handlers = [], lg_propagate = True, lg_level = 0\<rparr>"

definition ROUTED_LOGGERS :: "string list" where
  "ROUTED_LOGGERS = [''uvicorn'', ''uvicorn.error'', ''uvicorn.access'', ''fastapi'', ''starlette'']"

definition configure_stdlib_logging :: "nat \<Rightarrow> bool \<Rightarrow> bool \<Rightarrow> loggers \<Rightarrow> loggers" where
  "configure_stdlib_logging level json suppress L =
     (let handler = \<lparr>handler_level = level, handler_json = json, handler_suppresses_probes = suppress\<rparr>;
          L1 = L([] := (L [])\<lparr>lg_handlers := [handler], lg_level := level\<rparr>)
      in fold (\<lambda>name M. M(name := (M name)\<lparr>lg_handlers := [], lg_propagate := True, lg_level := level\<rparr>)) ROUTED_LOGGERS L1)"

definition configure_logging ::
  "(string \<Rightarrow> string option) \<Rightarrow> bool \<Rightarrow> string option \<Rightarrow> string option \<Rightarrow> bool option \<Rightarrow> loggers \<Rightarrow> loggers" where
  "configure_logging env isatty level fmt suppress L =
     (let s = resolve_logging env isatty level fmt suppress;
          M = configure_stdlib_logging (log_level_number s) (use_json s) (suppress_probes s) L
      in M(''aiokafka'' := (M ''aiokafka'')\<lparr>lg_level := aiokafka_level s\<rparr>))"

section \<open>What is written\<close>

text \<open>The ancestors of a logger, itself first and the root last: the prefixes of its name up to a dot.\<close>

fun dotted_prefixes :: "string \<Rightarrow> string list" where
  "dotted_prefixes [] = []"
| "dotted_prefixes (c # s) = (if c = CHR ''.'' then [] # map ((#) c) (dotted_prefixes s) else map ((#) c) (dotted_prefixes s))"

definition ancestors :: "string \<Rightarrow> string list" where
  "ancestors name = (if name = [] then [[]] else name # rev (filter (\<lambda>p. p \<noteq> []) (dotted_prefixes name)) @ [[]])"

fun effective_level :: "loggers \<Rightarrow> string list \<Rightarrow> nat" where
  "effective_level L [] = 0"
| "effective_level L (n # ns) = (if lg_level (L n) \<noteq> 0 then lg_level (L n) else effective_level L ns)"

fun reached_handlers :: "loggers \<Rightarrow> string list \<Rightarrow> log_handler list" where
  "reached_handlers L [] = []"
| "reached_handlers L (n # ns) = lg_handlers (L n) @ (if lg_propagate (L n) then reached_handlers L ns else [])"

text \<open>The handlers that write a record of a level.\<close>

definition writing_handlers :: "loggers \<Rightarrow> log_record \<Rightarrow> nat \<Rightarrow> log_handler list" where
  "writing_handlers L r level =
     (if level < effective_level L (ancestors (lr_name r)) then []
      else filter (\<lambda>h. handler_level h \<le> level \<and> (handler_suppresses_probes h \<longrightarrow> health_access_filter r))
        (reached_handlers L (ancestors (lr_name r))))"

lemma routed_ancestors:
  "ancestors ''uvicorn'' = [''uvicorn'', []]" "ancestors ''uvicorn.error'' = [''uvicorn.error'', ''uvicorn'', []]"
  "ancestors ''uvicorn.access'' = [''uvicorn.access'', ''uvicorn'', []]" "ancestors ''fastapi'' = [''fastapi'', []]"
  "ancestors ''starlette'' = [''starlette'', []]" "ancestors [] = [[]]"
  by (simp_all add: ancestors_def)

text \<open>The table after configuring, for the outcome \<open>s\<close> of the arguments and the environment.\<close>

definition configured :: "log_setup \<Rightarrow> loggers \<Rightarrow> loggers" where
  "configured s L = (\<lambda>name.
     if name = [] then (L [])\<lparr>lg_handlers := [\<lparr>handler_level = log_level_number s, handler_json = use_json s,
         handler_suppresses_probes = suppress_probes s\<rparr>], lg_level := log_level_number s\<rparr>
     else if name \<in> set ROUTED_LOGGERS then \<lparr>lg_handlers = [], lg_propagate = True, lg_level = log_level_number s\<rparr>
     else if name = ''aiokafka'' then (L name)\<lparr>lg_level := aiokafka_level s\<rparr> else L name)"

lemma configure_logging_table:
  "configure_logging env isatty level fmt suppress L = configured (resolve_logging env isatty level fmt suppress) L"
proof (rule ext)
  fix name
  show "configure_logging env isatty level fmt suppress L name = configured (resolve_logging env isatty level fmt suppress) L name"
    by (auto simp: configure_logging_def configure_stdlib_logging_def configured_def ROUTED_LOGGERS_def Let_def)
qed

lemma configured_idem: "configured s (configured s L) = configured s L"
  by (rule ext) (auto simp: configured_def)

lemma configured_routed:
  "name \<in> set ROUTED_LOGGERS \<Longrightarrow> configured s L name = \<lparr>lg_handlers = [], lg_propagate = True, lg_level = log_level_number s\<rparr>"
  by (auto simp: configured_def ROUTED_LOGGERS_def)

lemma configured_reached:
  assumes "name \<in> set ROUTED_LOGGERS"
  shows "effective_level (configured s L) (ancestors name) = log_level_number s"
    and "reached_handlers (configured s L) (ancestors name) = [\<lparr>handler_level = log_level_number s, handler_json = use_json s,
      handler_suppresses_probes = suppress_probes s\<rparr>]"
  using assms routed_ancestors unfolding ROUTED_LOGGERS_def
  by (auto simp: configured_def ROUTED_LOGGERS_def)

text \<open>
  However logging was configured before, afterwards a record of the server or the frameworks is written exactly once, by the one
  handler of the root logger, when it reaches the configured level; only access lines of the health probes are left out, and
  only when they are to be suppressed. Configuring twice is configuring once.
\<close>

theorem configured_writes_once:
  assumes "lr_name r \<in> set ROUTED_LOGGERS" and "s = resolve_logging env isatty level fmt suppress"
  shows "writing_handlers (configure_logging env isatty level fmt suppress L) r n =
      (if n < log_level_number s \<or> (suppress_probes s \<and> \<not> health_access_filter r) then []
       else [\<lparr>handler_level = log_level_number s, handler_json = use_json s, handler_suppresses_probes = suppress_probes s\<rparr>])
    \<and> configure_logging env isatty level fmt suppress (configure_logging env isatty level fmt suppress L)
      = configure_logging env isatty level fmt suppress L"
  unfolding configure_logging_table assms(2) [symmetric] writing_handlers_def configured_reached [OF assms(1)]
  using configured_idem [of s L] by auto

text \<open>
  Masking comes before exceptions are rendered: with processors that only add their own keys, the text of a traceback, which
  quotes every chained exception, is in the finished event as it is, whatever secret it holds.
\<close>

theorem traceback_not_masked:
  assumes "\<And>d. dict_get (format_exc_info S d) ''exception'' = JStr trace"
    and "\<And>d. dict_get (unicode_decoder S d) ''exception'' = dict_get d ''exception''"
  shows "dict_get (process_event S ip_host py_str version d) ''exception'' = JStr trace"
proof -
  have pop: "dict_get (dict_pop d k) ''exception'' = dict_get d ''exception''" if "k \<noteq> ''exception''" for d k
  proof -
    have "map_of (filter (\<lambda>(a, v). a \<noteq> k) d) ''exception'' = map_of d ''exception''" using that by (induction d) auto
    then show ?thesis by (simp add: dict_get_def dict_pop_def)
  qed
  have "dict_get (group_identity d) ''exception'' = dict_get d ''exception''" for d
    by (simp add: group_identity_def Let_def pop dict_get_def pop [unfolded dict_get_def])
  then show ?thesis using assms by (simp add: process_event_def shared_processors_def)
qed

end
