(* ===== verification/Timestamp.thy ===== *)
theory Timestamp
  imports Prelude
begin

text \<open>
  UTC timestamps, \<open>utils/timestamp.py\<close>, over the proleptic Gregorian calendar of Python's \<open>datetime\<close>. An aware datetime is
  its fields and its offset from UTC in microseconds. \<open>%Y\<close> is the number of the year without padding, as the C
  library prints it; from the year 1000 on every timestamp has the same length.
\<close>

section \<open>Calendar\<close>

definition is_leap :: "nat \<Rightarrow> bool" where
  "is_leap y \<longleftrightarrow> y mod 4 = 0 \<and> (y mod 100 \<noteq> 0 \<or> y mod 400 = 0)"

text \<open>Days of the years before \<open>y\<close>, for \<open>y\<close> from 1 on.\<close>

definition days_before_year :: "nat \<Rightarrow> nat" where
  "days_before_year y = (let k = y - 1 in k * 365 + k div 4 - k div 100 + k div 400)"

definition month_length :: "bool \<Rightarrow> nat \<Rightarrow> nat" where
  "month_length leap m = (if m = 2 then (if leap then 29 else 28) else if m \<in> {4, 6, 9, 11} then 30 else 31)"

definition days_before_month :: "bool \<Rightarrow> nat \<Rightarrow> nat" where
  "days_before_month leap m = sum_list (map (month_length leap) [1..<m])"

text \<open>The number of a day; the first of January of the year 1 is day 0.\<close>

definition day_number :: "nat \<Rightarrow> nat \<Rightarrow> nat \<Rightarrow> nat" where
  "day_number y m d = days_before_year y + days_before_month (is_leap y) m + (d - 1)"

text \<open>The year of a day and the day in it, over cycles of 400, 100, 4 years and 1 year; then its month.\<close>

definition year_and_day :: "nat \<Rightarrow> nat \<times> nat" where
  "year_and_day n =
     (let a = n div 146097; r = n mod 146097; b = r div 36524; r2 = r mod 36524; c = r2 div 1461; r3 = r2 mod 1461;
          d = r3 div 365; y = 400 * a + 100 * b + 4 * c + d + 1
      in if b = 4 \<or> d = 4 then (y - 1, 365) else (y, r3 mod 365))"

function month_and_day :: "bool \<Rightarrow> nat \<Rightarrow> nat \<Rightarrow> nat \<times> nat" where
  "month_and_day leap m d =
     (if 12 \<le> m \<or> d < month_length leap m then (m, d + 1) else month_and_day leap (m + 1) (d - month_length leap m))"
  by pat_completeness auto
termination
  by (relation "measure (\<lambda>(leap, m, d). 12 - m)") auto

declare month_and_day.simps [simp del]

section \<open>Timestamps\<close>

record py_datetime =
  dt_year :: nat
  dt_month :: nat
  dt_day :: nat
  dt_hour :: nat
  dt_minute :: nat
  dt_second :: nat
  dt_microsecond :: nat
  dt_offset :: int

definition micros_per_day :: nat where
  "micros_per_day = 86400000000"

definition time_of_day :: "py_datetime \<Rightarrow> nat" where
  "time_of_day t = ((dt_hour t * 60 + dt_minute t) * 60 + dt_second t) * 1000000 + dt_microsecond t"

text \<open>The instant, in microseconds since the beginning of the year 1 in UTC.\<close>

definition instant :: "py_datetime \<Rightarrow> int" where
  "instant t = int (day_number (dt_year t) (dt_month t) (dt_day t) * micros_per_day + time_of_day t) - dt_offset t"

definition utc_fields :: "nat \<Rightarrow> py_datetime" where
  "utc_fields i =
     (let day = i div micros_per_day; us = i mod micros_per_day; (y, doy) = year_and_day day;
          (m, d) = month_and_day (is_leap y) 1 doy
      in \<lparr>dt_year = y, dt_month = m, dt_day = d, dt_hour = us div 3600000000, dt_minute = us div 60000000 mod 60,
          dt_second = us div 1000000 mod 60, dt_microsecond = us mod 1000000, dt_offset = 0\<rparr>)"

text \<open>\<open>astimezone(timezone.utc)\<close>: outside the years 1 to 9999 it overflows.\<close>

definition end_of_time :: nat where
  "end_of_time = days_before_year 10000 * micros_per_day"

definition astimezone_utc :: "py_datetime \<Rightarrow> py_datetime res" where
  "astimezone_utc t = (let i = instant t in
     if i < 0 \<or> int end_of_time \<le> i then Inl (OtherError ''date value out of range'') else Inr (utc_fields (nat i)))"

definition zero_pad :: "nat \<Rightarrow> nat \<Rightarrow> string" where
  "zero_pad w n = replicate (w - length (str_of_nat n)) CHR ''0'' @ str_of_nat n"

definition strftime :: "py_datetime \<Rightarrow> string" where
  "strftime t = str_of_nat (dt_year t) @ ''-'' @ zero_pad 2 (dt_month t) @ ''-'' @ zero_pad 2 (dt_day t) @ ''T''
     @ zero_pad 2 (dt_hour t) @ '':'' @ zero_pad 2 (dt_minute t) @ '':'' @ zero_pad 2 (dt_second t) @ ''.''
     @ zero_pad 6 (dt_microsecond t)"

definition format_utc_timestamp :: "py_datetime \<Rightarrow> string res" where
  "format_utc_timestamp t = (case astimezone_utc t of
     Inl e \<Rightarrow> Inl e
   | Inr u \<Rightarrow> (let s = strftime u in Inr (take (length s - 3) s @ ''Z'')))"

section \<open>Calendar facts\<close>

lemma days_before_split:
  assumes "b \<le> 3" "c \<le> 24" "d \<le> 3"
  shows "days_before_year (400 * a + 100 * b + 4 * c + d + 1) = 146097 * a + 36524 * b + 1461 * c + 365 * d"
proof -
  let ?k = "400 * a + 100 * b + 4 * c + d"
  have "?k div 4 = 100 * a + 25 * b + c" by (rule div_nat_eqI) (use assms in \<open>simp_all add: algebra_simps\<close>)
  moreover have "?k div 100 = 4 * a + b" by (rule div_nat_eqI) (use assms in \<open>simp_all add: algebra_simps\<close>)
  moreover have "?k div 400 = a" by (rule div_nat_eqI) (use assms in \<open>simp_all add: algebra_simps\<close>)
  ultimately show ?thesis by (simp add: days_before_year_def Let_def)
qed

lemma leap_fourth:
  assumes "c \<le> 23"
  shows "is_leap (400 * a + 100 * b + 4 * c + 4)"
proof -
  have y: "400 * a + 100 * b + 4 * c + 4 = 100 * (4 * a + b) + 4 * (c + 1)" "400 * a + 100 * b + 4 * c + 4 = 4 * (100 * a + 25 * b + c + 1)"
    by simp_all
  have "(100 * (4 * a + b) + 4 * (c + 1)) mod 100 = 4 * (c + 1)" using assms by (subst mod_mult_self4) simp
  moreover have "(4 * (100 * a + 25 * b + c + 1)) mod 4 = 0" by (rule mod_mult_self1_is_0)
  ultimately show ?thesis unfolding is_leap_def by (metis y zero_neq_numeral mult_eq_0_iff add_eq_0_iff_both_eq_0 one_neq_zero)
qed

lemma year_and_day_number:
  assumes "year_and_day n = (y, doy)"
  shows "days_before_year y + doy = n" and "doy < 365 + (if is_leap y then 1 else 0)" and "1 \<le> y"
proof -
  define a r b r2 c r3 d where v: "a = n div 146097" "r = n mod 146097" "b = r div 36524" "r2 = r mod 36524"
    "c = r2 div 1461" "r3 = r2 mod 1461" "d = r3 div 365"
  have r: "r < 146097" "r = 36524 * b + r2" "r2 < 36524" "r2 = 1461 * c + r3" "r3 < 1461" "r3 = 365 * d + r3 mod 365"
    "n = 146097 * a + r" unfolding v by simp_all
  then have n: "n = 146097 * a + 36524 * b + 1461 * c + r3" by linarith
  have yd: "year_and_day n = (if b = 4 \<or> d = 4 then (400 * a + 100 * b + 4 * c + d, 365) else (400 * a + 100 * b + 4 * c + d + 1, r3 mod 365))"
    unfolding year_and_day_def Let_def v by simp
  have bounds: "b \<le> 4" "c \<le> 24" "d \<le> 4" using r by linarith+
  consider (b4) "b = 4" | (d4) "b \<le> 3" "d = 4" | (usual) "b \<le> 3" "d \<le> 3" using bounds by linarith
  then have "days_before_year y + doy = n \<and> doy < 365 + (if is_leap y then 1 else 0) \<and> 1 \<le> y"
  proof cases
    case b4
    then have z: "c = 0" "d = 0" "r3 = 0" using r bounds by linarith+
    have "y = 400 * a + 400" "doy = 365" using assms yd b4 z by auto
    moreover have "days_before_year (400 * a + 400) = 146097 * a + 36524 * 3 + 1461 * 24 + 365 * 3"
      using days_before_split [of 3 24 3 a] by (simp add: add.commute)
    moreover have "is_leap (400 * (a + 1))" by (simp add: is_leap_def del: mult_Suc_right)
    ultimately show ?thesis using n b4 z by (simp add: algebra_simps)
  next
    case d4
    have c: "c \<le> 23" "r3 = 1460" using r d4 by linarith+
    have y: "y = 400 * a + 100 * b + 4 * c + 4" "doy = 365" using assms yd d4 by auto
    have "days_before_year (400 * a + 100 * b + 4 * c + 3 + 1) = 146097 * a + 36524 * b + 1461 * c + 365 * 3"
      by (rule days_before_split) (use d4 c in auto)
    moreover have "is_leap (400 * a + 100 * b + 4 * c + 4)" using c(1) by (rule leap_fourth)
    ultimately show ?thesis using n c y by (simp add: ac_simps)
  next
    case usual
    have y: "y = 400 * a + 100 * b + 4 * c + d + 1" "doy = r3 mod 365" using assms yd usual by auto
    show ?thesis using n r(6) unfolding y days_before_split [OF usual(1) bounds(2) usual(2)] by simp
  qed
  then show "days_before_year y + doy = n" "doy < 365 + (if is_leap y then 1 else 0)" "1 \<le> y" by blast+
qed

lemma month_length_pos: "0 < month_length leap m" and month_length_le: "month_length leap m \<le> 31"
  by (simp_all add: month_length_def)

lemma days_before_next: "1 \<le> m \<Longrightarrow> days_before_month leap (Suc m) = days_before_month leap m + month_length leap m"
  by (simp add: days_before_month_def)

lemma days_before_december: "days_before_month leap 12 = (if leap then 335 else 334)"
  by (simp add: days_before_month_def month_length_def upt_rec)

lemma month_and_day_number:
  assumes "1 \<le> m" "m \<le> 12" "month_and_day leap m d = (m', d')"
  shows "days_before_month leap m' + (d' - 1) = days_before_month leap m + d \<and> 1 \<le> d' \<and> 1 \<le> m' \<and> m' \<le> 12
    \<and> (days_before_month leap m + d < 365 + (if leap then 1 else 0) \<longrightarrow> d' \<le> month_length leap m')"
  using assms
proof (induction leap m d arbitrary: m' d' rule: month_and_day.induct)
  case (1 leap m d)
  show ?case
  proof (cases "12 \<le> m \<or> d < month_length leap m")
    case True
    then have r: "m' = m" "d' = d + 1" using 1(4) by (simp_all add: month_and_day.simps [of leap m d])
    have "d < 31" if "m = 12" "days_before_month leap m + d < 365 + (if leap then 1 else 0)"
      using that days_before_december [of leap] by (simp split: if_splits)
    then show ?thesis using 1(2,3) True by (auto simp: r month_length_def split: if_splits)
  next
    case False
    then have "month_and_day leap (m + 1) (d - month_length leap m) = (m', d')" "m + 1 \<le> 12"
      using 1(3,4) by (simp_all add: month_and_day.simps [of leap m d])
    from 1(1) [OF False _ this(2,1)] show ?thesis
      using False 1(2) days_before_next [of m leap] by (auto simp: not_less)
  qed
qed

text \<open>The fields of an instant: their ranges, and that they denote it.\<close>

lemma utc_fields_facts:
  assumes "u = utc_fields i"
  shows "instant u = int i" and "1 \<le> dt_month u \<and> dt_month u \<le> 12" and "1 \<le> dt_day u \<and> dt_day u \<le> 31"
    and "dt_hour u < 24" and "dt_minute u < 60" and "dt_second u < 60" and "dt_microsecond u < 1000000" and "dt_offset u = 0"
    and "1 \<le> dt_year u"
proof -
  define us where "us = i mod micros_per_day"
  obtain y doy where yd: "year_and_day (i div micros_per_day) = (y, doy)" by fastforce
  obtain m d where md: "month_and_day (is_leap y) 1 doy = (m, d)" by fastforce
  have u: "u = \<lparr>dt_year = y, dt_month = m, dt_day = d, dt_hour = us div 3600000000, dt_minute = us div 60000000 mod 60,
          dt_second = us div 1000000 mod 60, dt_microsecond = us mod 1000000, dt_offset = 0\<rparr>"
    using assms by (simp add: utc_fields_def Let_def yd md us_def del: One_nat_def)
  note year = year_and_day_number [OF yd]
  have z: "days_before_month leap 1 = 0" for leap by (simp add: days_before_month_def)
  have month: "days_before_month (is_leap y) m + (d - 1) = doy" "1 \<le> d" "1 \<le> m" "m \<le> 12" "d \<le> month_length (is_leap y) m"
    using month_and_day_number [OF _ _ md] year(2) z by simp_all
  have lt: "us < 86400000000" by (simp add: us_def micros_per_day_def)
  have "us = ((us div 3600000000 * 60 + us div 60000000 mod 60) * 60 + us div 1000000 mod 60) * 1000000 + us mod 1000000"
  proof -
    define q where "q = us div 1000000"
    have "us div 60000000 = q div 60" "us div 3600000000 = q div 60 div 60"
      by (simp_all add: q_def div_mult2_eq [symmetric])
    moreover have "q = q div 60 * 60 + q mod 60" "q div 60 = q div 60 div 60 * 60 + q div 60 mod 60" "us = q * 1000000 + us mod 1000000"
      by (simp_all add: q_def)
    ultimately show ?thesis unfolding q_def [symmetric] by simp
  qed
  then have "time_of_day u = us" by (simp add: time_of_day_def u)
  moreover have "day_number y m d = i div micros_per_day" using month year(1) by (simp add: day_number_def)
  ultimately show "instant u = int i" by (simp add: instant_def u us_def)
  show "1 \<le> dt_month u \<and> dt_month u \<le> 12" "1 \<le> dt_day u \<and> dt_day u \<le> 31"
    using month month_length_le [of "is_leap y" m] by (auto simp: u)
  show "dt_hour u < 24" "dt_minute u < 60" "dt_second u < 60" "dt_microsecond u < 1000000" "dt_offset u = 0" "1 \<le> dt_year u"
    using lt year(3) by (simp_all add: u less_mult_imp_div_less)
qed

section \<open>Reading a timestamp back\<close>

definition digits_at :: "nat \<Rightarrow> nat \<Rightarrow> string \<Rightarrow> nat option" where
  "digits_at a n s = nat_of_str (take n (drop a s))"

text \<open>The instant in milliseconds that a timestamp of 24 characters shows.\<close>

definition read_utc_timestamp :: "string \<Rightarrow> nat option" where
  "read_utc_timestamp s =
     (case (digits_at 0 4 s, digits_at 5 2 s, digits_at 8 2 s, digits_at 11 2 s, digits_at 14 2 s, digits_at 17 2 s, digits_at 20 3 s) of
        (Some y, Some mo, Some d, Some h, Some mi, Some sec, Some ms) \<Rightarrow>
          Some (day_number y mo d * 86400000 + ((h * 60 + mi) * 60 + sec) * 1000 + ms)
      | _ \<Rightarrow> None)"

lemma str_of_nat_length: "n < 10 ^ Suc w \<Longrightarrow> length (str_of_nat n) \<le> Suc w"
proof (induction w arbitrary: n)
  case 0
  then show ?case by (simp add: str_of_nat.simps [of n])
next
  case (Suc w)
  have "n div 10 < 10 ^ Suc w" using Suc.prems by (simp add: less_mult_imp_div_less mult.commute)
  then show ?case using Suc.IH [of "n div 10"] by (simp add: str_of_nat.simps [of n])
qed

lemma str_of_nat_length_ge: "10 ^ w \<le> n \<Longrightarrow> w < length (str_of_nat n)"
proof (induction w arbitrary: n)
  case 0
  then show ?case using str_of_nat_digits [of n] by auto
next
  case (Suc w)
  have "10 ^ w \<le> n div 10" using Suc.prems by (simp add: less_eq_div_iff_mult_less_eq mult.commute)
  moreover have "10 * 1 \<le> 10 * (10 :: nat) ^ w" by (rule mult_le_mono2) simp
  then have "\<not> n < 10" using Suc.prems unfolding power_Suc by linarith
  ultimately show ?case using Suc.IH [of "n div 10"] by (simp add: str_of_nat.simps [of n])
qed

lemma zero_pad_length: "n < 10 ^ Suc w \<Longrightarrow> length (zero_pad (Suc w) n) = Suc w"
  using str_of_nat_length [of n w] by (simp add: zero_pad_def)

lemma zero_pad_reads: "nat_of_str (zero_pad w n) = Some n"
proof -
  have "foldl (\<lambda>a c. 10 * a + digit_val c) 0 (replicate k CHR ''0'' @ s) = foldl (\<lambda>a c. 10 * a + digit_val c) 0 s" for k s
    by (induction k) (simp_all add: digit_val_def)
  moreover have "list_all is_digit (replicate k CHR ''0'')" for k by (induction k) (simp_all add: is_digit_def)
  ultimately show ?thesis
    using str_of_nat_digits [of n] by (simp add: zero_pad_def nat_of_str_def foldl_str_of_nat)
qed

lemma zero_pad_snoc:
  assumes "1 \<le> w"
  shows "zero_pad (Suc w) n = zero_pad w (n div 10) @ [digit_char (n mod 10)]"
proof (cases "n < 10")
  case True
  obtain v where w: "w = Suc v" using assms by (cases w) auto
  have "replicate v CHR ''0'' @ [CHR ''0''] = CHR ''0'' # replicate v CHR ''0''" by (simp add: replicate_append_same)
  moreover have "digit_char 0 = CHR ''0''" by code_simp
  ultimately show ?thesis using True by (simp add: zero_pad_def str_of_nat.simps [of n] str_of_nat.simps [of 0] w)
next
  case False
  then show ?thesis by (simp add: zero_pad_def str_of_nat.simps [of n])
qed

lemma zero_pad_6:
  assumes "n < 1000000"
  shows "\<exists>t. zero_pad 6 n = zero_pad 3 (n div 1000) @ t \<and> length t = 3"
proof -
  have "zero_pad 6 n = zero_pad 3 (n div 10 div 10 div 10) @ [digit_char (n div 10 div 10 mod 10), digit_char (n div 10 mod 10), digit_char (n mod 10)]"
  proof -
    have "zero_pad 6 n = zero_pad 5 (n div 10) @ [digit_char (n mod 10)]" using zero_pad_snoc [of 5 n] by simp
    moreover have "zero_pad 5 (n div 10) = zero_pad 4 (n div 10 div 10) @ [digit_char (n div 10 mod 10)]"
      using zero_pad_snoc [of 4 "n div 10"] by simp
    moreover have "zero_pad 4 (n div 10 div 10) = zero_pad 3 (n div 10 div 10 div 10) @ [digit_char (n div 10 div 10 mod 10)]"
      using zero_pad_snoc [of 3 "n div 10 div 10"] by simp
    ultimately show ?thesis by (simp only: append_assoc append.simps)
  qed
  then show ?thesis by (simp add: div_mult2_eq [symmetric] del: append_eq_append_conv)
qed

section \<open>Properties\<close>

text \<open>
  A timestamp has 24 characters, ends with \<open>Z\<close>, and shows the instant to the millisecond, rounded down, whatever the
  offset of the datetime it was made from.
\<close>

theorem timestamp_shows_instant:
  assumes "format_utc_timestamp t = Inr s" and "astimezone_utc t = Inr u" and "1000 \<le> dt_year u" and "dt_year u \<le> 9999"
  shows "length s = 24 \<and> last s = CHR ''Z'' \<and> read_utc_timestamp s = Some (nat (instant t) div 1000)"
proof -
  have u: "u = utc_fields (nat (instant t))" and i: "0 \<le> instant t"
    using assms(2) by (auto simp: astimezone_utc_def Let_def split: if_splits)
  note f = utc_fields_facts [OF u]
  obtain r where r: "zero_pad 6 (dt_microsecond u) = zero_pad 3 (dt_microsecond u div 1000) @ r" "length r = 3"
    using zero_pad_6 [OF f(7)] by blast
  have y: "length (str_of_nat (dt_year u)) = 4"
    using str_of_nat_length [of "dt_year u" 3] str_of_nat_length_ge [of 3 "dt_year u"] assms(3,4) by simp
  define mo d h mi sec ms where p: "mo = zero_pad 2 (dt_month u)" "d = zero_pad 2 (dt_day u)" "h = zero_pad 2 (dt_hour u)"
    "mi = zero_pad 2 (dt_minute u)" "sec = zero_pad 2 (dt_second u)" "ms = zero_pad 3 (dt_microsecond u div 1000)"
  have l: "length mo = 2" "length d = 2" "length h = 2" "length mi = 2" "length sec = 2" "length ms = 3"
    using zero_pad_length [of _ 1] zero_pad_length [of _ 2] f by (simp_all add: p numeral_2_eq_2 numeral_3_eq_3 less_mult_imp_div_less)
  have s: "s = str_of_nat (dt_year u) @ ''-'' @ mo @ ''-'' @ d @ ''T'' @ h @ '':'' @ mi @ '':'' @ sec @ ''.'' @ ms @ ''Z''"
  proof -
    define s0 where "s0 = str_of_nat (dt_year u) @ ''-'' @ mo @ ''-'' @ d @ ''T'' @ h @ '':'' @ mi @ '':'' @ sec @ ''.'' @ ms"
    have "strftime u = s0 @ r" by (simp add: strftime_def r(1) s0_def p)
    then have "s = s0 @ ''Z''" using assms(1) r(2) by (simp add: format_utc_timestamp_def assms(2) Let_def)
    then show ?thesis by (simp add: s0_def)
  qed
  have reads: "digits_at 0 4 s = Some (dt_year u)" "digits_at 5 2 s = Some (dt_month u)" "digits_at 8 2 s = Some (dt_day u)"
    "digits_at 11 2 s = Some (dt_hour u)" "digits_at 14 2 s = Some (dt_minute u)" "digits_at 17 2 s = Some (dt_second u)"
    "digits_at 20 3 s = Some (dt_microsecond u div 1000)"
    using y l by (simp_all add: s digits_at_def zero_pad_reads p)
  have "nat (instant t) div 1000 = day_number (dt_year u) (dt_month u) (dt_day u) * 86400000
      + ((dt_hour u * 60 + dt_minute u) * 60 + dt_second u) * 1000 + dt_microsecond u div 1000"
  proof -
    have "nat (instant t) = day_number (dt_year u) (dt_month u) (dt_day u) * micros_per_day + time_of_day u"
    proof -
      have "int (day_number (dt_year u) (dt_month u) (dt_day u) * micros_per_day + time_of_day u) = instant t"
        using f(1,8) i unfolding instant_def [of u] by simp
      then show ?thesis by (metis nat_int)
    qed
    then show ?thesis by (simp add: micros_per_day_def time_of_day_def)
  qed
  then have "read_utc_timestamp s = Some (nat (instant t) div 1000)" by (simp add: read_utc_timestamp_def reads)
  moreover have "length s = 24 \<and> last s = CHR ''Z''" using y l by (simp add: s)
  ultimately show ?thesis by simp
qed

end
