(* ===== verification/Sync.thy ===== *)
theory Sync
  imports Secrets Logging "HOL-Library.List_Lexorder" "HOL-Library.Char_ord"
begin

text \<open>
  \<open>ci-cd/sync_secret.py\<close>: rendering a deployment's configuration from three TOML files, validating it with the service's own
  \<open>Settings\<close>, and storing it in Secrets Manager. Parameters: the parsed files (\<open>tomllib\<close>), the text of a
  validation error, \<open>json.dumps\<close> and the Secrets Manager client.
\<close>

section \<open>Data\<close>

datatype toml =
    TBool bool
  | TInt int
  | TFloat rat
  | TStr string
  | TTime string
  | TArray "toml list"
  | TTable "(string \<times> toml) list"

type_synonym toml_table = "(string \<times> toml) list"

datatype config_file = Missing | Unreadable exn | Document toml_table

record AwsSecretConfig =
  aws_region :: string
  aws_profile :: string
  aws_secret_name :: string
  aws_kms_key_id :: "string option"

record RenderedSecretBundle =
  bundle_environment :: string
  bundle_aws :: AwsSecretConfig
  app_secret :: dict
  bootstrap_environment :: "(string \<times> string) list"

record toolchain =
  config_dir :: string
  config_file :: "string \<Rightarrow> config_file"
  validation_text :: "verr list \<Rightarrow> string"
  json_dumps :: "dict \<Rightarrow> string"
  num_str :: "rat \<Rightarrow> string"

definition UNSET_SENTINEL :: string where
  "UNSET_SENTINEL = ''__UNSET__''"

definition ALLOWED_AWS_KEYS :: "string list" where
  "ALLOWED_AWS_KEYS = [''region'', ''profile'', ''secret_name'', ''kms_key_id'']"

definition REQUIRED_AWS_KEYS :: "string list" where
  "REQUIRED_AWS_KEYS = [''region'', ''profile'', ''secret_name'']"

definition SENSITIVE_VALUE_KEYS :: "string list" where
  "SENSITIVE_VALUE_KEYS = [''AUTH_JWT_SIGNING_MATERIAL'', ''REDIS_PASSWORD'']"

text \<open>The names of the fields of \<open>Settings\<close>, and the keys a secret may have.\<close>

definition settings_fields :: "string list" where
  "settings_fields = [''app_env'', ''redis_url'', ''redis_username'', ''redis_password'', ''redis_ssl_check_hostname'',
     ''redis_max_connections'', ''redis_active_ttl_sec'', ''redis_final_ttl_sec'', ''redis_ownership_guard_ttl_sec'',
     ''redis_sequence_state_key_prefix'', ''redis_ownership_guard_key_prefix'', ''kafka_bootstrap_servers'', ''kafka_mode'',
     ''kafka_topic'', ''kafka_compression_type'', ''kafka_ssl_ca_file'', ''kafka_aws_region'', ''kafka_aws_debug_creds'',
     ''kafka_send_timeout_sec'', ''kafka_linger_ms'', ''kafka_batch_size'', ''ws_ping_interval'', ''ws_ping_timeout'',
     ''ws_ownership_guard_refresh_interval_sec'', ''auth_enabled'', ''auth_jwt_signing_material'', ''auth_jwt_algorithm'',
     ''http_port'', ''http_backlog'', ''http_enable_docs'', ''url_path_prefix'', ''ws_max_connections'',
     ''kafka_startup_timeout_sec'', ''stop_timeout'', ''log_level'', ''log_format'', ''suppress_health_access_logs'',
     ''log_ws_error_frames'', ''log_slow_message_threshold_ms'']"

definition allowed_secret_app_keys :: "string list" where
  "allowed_secret_app_keys = filter (\<lambda>k. k \<notin> set DEPLOYED_BOOTSTRAP_ENV_KEYS) (map upper settings_fields)"

section \<open>Rendering\<close>

definition config_path :: "toolchain \<Rightarrow> string \<Rightarrow> string" where
  "config_path E name = config_dir E @ ''/'' @ name"

definition is_table :: "toml \<Rightarrow> bool" where
  "is_table t = (case t of TTable _ \<Rightarrow> True | _ \<Rightarrow> False)"

definition not_a_table :: "toml_table \<Rightarrow> string \<Rightarrow> bool" where
  "not_a_table raw k = (case map_of raw k of None \<Rightarrow> False | Some t \<Rightarrow> \<not> is_table t)"

definition load_toml_document :: "toolchain \<Rightarrow> string \<Rightarrow> bool \<Rightarrow> toml_table res" where
  "load_toml_document E name allow_aws =
     (case config_file E name of
        Missing \<Rightarrow> Inl (OtherError (''Missing config file: '' @ config_path E name @ ''. Create it before running the secret sync.''))
      | Unreadable e \<Rightarrow> Inl e
      | Document raw \<Rightarrow>
          (let unknown = sort (filter (\<lambda>k. k \<notin> set (if allow_aws then [''app'', ''aws''] else [''app''])) (map fst raw)) in
           if unknown \<noteq> []
           then Inl (ValueError (config_path E name @ '' contains unsupported top-level sections: '' @ str_join '', '' unknown))
           else if not_a_table raw ''app''
           then Inl (ValueError (config_path E name @ '' section [app] must be a TOML table''))
           else if allow_aws \<and> not_a_table raw ''aws''
           then Inl (ValueError (config_path E name @ '' section [aws] must be a TOML table''))
           else Inr raw))"

definition toml_section :: "toml_table \<Rightarrow> string \<Rightarrow> toml_table" where
  "toml_section raw k = (case map_of raw k of Some (TTable t) \<Rightarrow> t | _ \<Rightarrow> [])"

definition is_non_empty_string :: "toml option \<Rightarrow> bool" where
  "is_non_empty_string v = (case v of Some (TStr s) \<Rightarrow> strip s \<noteq> [] | _ \<Rightarrow> False)"

definition stripped :: "toml option \<Rightarrow> string" where
  "stripped v = (case v of Some (TStr s) \<Rightarrow> strip s | _ \<Rightarrow> [])"

definition load_aws_config :: "toml_table \<Rightarrow> toml_table \<Rightarrow> AwsSecretConfig res" where
  "load_aws_config base_aws env_aws =
     (let merged = dict_update base_aws env_aws;
          unknown_keys = sort (filter (\<lambda>k. k \<notin> set ALLOWED_AWS_KEYS) (map fst merged));
          missing_keys = sort (filter (\<lambda>k. \<not> is_non_empty_string (map_of merged k)) REQUIRED_AWS_KEYS);
          kms = map_of merged ''kms_key_id''
      in if unknown_keys \<noteq> [] then Inl (ValueError (''Unsupported [aws] keys: '' @ str_join '', '' unknown_keys))
         else if missing_keys \<noteq> [] then Inl (ValueError (''Missing required [aws] keys: '' @ str_join '', '' missing_keys))
         else if kms \<noteq> None \<and> \<not> is_non_empty_string kms
         then Inl (ValueError ''[aws].kms_key_id must be a non-empty string when set'')
         else Inr \<lparr>aws_region = stripped (map_of merged ''region''), aws_profile = stripped (map_of merged ''profile''),
           aws_secret_name = stripped (map_of merged ''secret_name''),
           aws_kms_key_id = (if kms = None then None else Some (stripped kms))\<rparr>)"

fun toml_type :: "toml \<Rightarrow> string" where
  "toml_type (TBool _) = ''bool''"
| "toml_type (TInt _) = ''int''"
| "toml_type (TFloat _) = ''float''"
| "toml_type (TStr _) = ''str''"
| "toml_type (TTime t) = t"
| "toml_type (TArray _) = ''list''"
| "toml_type (TTable _) = ''dict''"

fun normalize_app_value :: "string \<Rightarrow> toml \<Rightarrow> json res" where
  "normalize_app_value key (TBool b) = Inr (JBool b)"
| "normalize_app_value key (TStr s) = Inr (JStr s)"
| "normalize_app_value key (TInt i) = Inr (JInt i)"
| "normalize_app_value key (TFloat x) = Inr (JFloat x)"
| "normalize_app_value key v = Inl (ValueError (''Unsupported value type for app key '' @ key @ '': '' @ toml_type v
     @ ''. Use string, integer, float, or boolean values.''))"

fun merge_app_items :: "dict \<Rightarrow> toml_table \<Rightarrow> dict res" where
  "merge_app_items merged [] = Inr merged"
| "merge_app_items merged ((raw_key, raw_value) # rest) =
     (if strip raw_key = [] then Inl (ValueError ''Application config keys must be non-empty strings'')
      else (case normalize_app_value (upper (strip raw_key)) raw_value of
          Inl e \<Rightarrow> Inl e
        | Inr v \<Rightarrow>
            if v = JStr UNSET_SENTINEL then merge_app_items (dict_pop merged (upper (strip raw_key))) rest
            else merge_app_items (dict_set merged (upper (strip raw_key)) v) rest))"

definition merge_app_layers :: "toml_table list \<Rightarrow> dict res" where
  "merge_app_layers layers = merge_app_items [] (concat layers)"

definition validate_secret_app_keys :: "dict \<Rightarrow> unit res" where
  "validate_secret_app_keys secret =
     (let reserved = sort (filter (\<lambda>k. k \<in> set DEPLOYED_BOOTSTRAP_ENV_KEYS) (map fst secret));
          unknown = sort (filter (\<lambda>k. k \<notin> set allowed_secret_app_keys) (map fst secret))
      in if reserved \<noteq> [] then Inl (ValueError (''Bootstrap keys must not appear in the secret body: '' @ str_join '', '' reserved))
         else if unknown \<noteq> []
         then Inl (ValueError (''Unsupported app configuration keys for Secrets Manager payload: '' @ str_join '', '' unknown))
         else Inr ())"

text \<open>\<open>str(v)\<close> of a scalar, booleans in lower case; only scalars reach it.\<close>

definition json_scalar_to_env_str :: "(rat \<Rightarrow> string) \<Rightarrow> json \<Rightarrow> string" where
  "json_scalar_to_env_str fs v = (case v of JBool b \<Rightarrow> bool_str b | JInt i \<Rightarrow> str_of_int i | JFloat x \<Rightarrow> fs x
     | JStr s \<Rightarrow> s | _ \<Rightarrow> [])"

text \<open>
  Running under another environment: cleared, filled, and restored when the body ends in either way. A
  value that cannot be set raises before the body and before the \<open>try\<close>.
\<close>

definition isolated_environ :: "env \<Rightarrow> (process, 'a) io \<Rightarrow> (process, 'a) io" where
  "isolated_environ values body = (\<lambda>p.
     case setenv_all values (p\<lparr>environ := []\<rparr>) of
       (Inl e, p') \<Rightarrow> (Inl e, p')
     | (Inr _, p') \<Rightarrow> (case body p' of (r, p'') \<Rightarrow>
         (case setenv_all (environ p) (p''\<lparr>environ := []\<rparr>) of (Inl e, q) \<Rightarrow> (Inl e, q) | (Inr _, q) \<Rightarrow> (r, q))))"

definition validation_env :: "toolchain \<Rightarrow> dict \<Rightarrow> string \<Rightarrow> env" where
  "validation_env E secret region =
     dict_update [(''APP_ENV'', ''deployed''), (''AWS_REGION'', region)]
       (map (\<lambda>(k, v). (k, json_scalar_to_env_str (num_str E) v)) secret)"

definition settings_body ::
  "settings_types \<Rightarrow> settings_sources \<Rightarrow> (verr list \<Rightarrow> string) \<Rightarrow> (process, settings) io" where
  "settings_body T R text = (\<lambda>p.
     case validate_settings T (map_of (environ p)) (read_env R (environ p)) of
       Inl es \<Rightarrow> (Inl (ValueError (''Invalid deployed application configuration: '' @ text es)), p)
     | Inr s \<Rightarrow> (Inr s, p))"

definition validate_deployed_settings ::
  "toolchain \<Rightarrow> settings_types \<Rightarrow> settings_sources \<Rightarrow> dict \<Rightarrow> string \<Rightarrow> (process, settings) io" where
  "validate_deployed_settings E T R secret region =
     isolated_environ (validation_env E secret region) (settings_body T R (validation_text E))"

definition render_documents :: "toolchain \<Rightarrow> string \<Rightarrow> (toml_table \<times> toml_table \<times> toml_table) res" where
  "render_documents E env_name =
     (case load_toml_document E ''base.toml'' True of Inl e \<Rightarrow> Inl e
      | Inr base_doc \<Rightarrow> (case load_toml_document E (env_name @ ''.toml'') True of Inl e \<Rightarrow> Inl e
        | Inr env_doc \<Rightarrow> (case load_toml_document E (env_name @ ''.secrets.toml'') False of Inl e \<Rightarrow> Inl e
          | Inr secret_doc \<Rightarrow> Inr (base_doc, env_doc, secret_doc))))"

text \<open>Everything that is checked without \<open>Settings\<close>.\<close>

definition render_values :: "toolchain \<Rightarrow> string \<Rightarrow> (AwsSecretConfig \<times> dict) res" where
  "render_values E env_name =
     (case render_documents E env_name of Inl e \<Rightarrow> Inl e
      | Inr (base_doc, env_doc, secret_doc) \<Rightarrow>
          (case load_aws_config (toml_section base_doc ''aws'') (toml_section env_doc ''aws'') of Inl e \<Rightarrow> Inl e
           | Inr aws \<Rightarrow>
               (case merge_app_layers [toml_section base_doc ''app'', toml_section env_doc ''app'', toml_section secret_doc ''app''] of
                  Inl e \<Rightarrow> Inl e
                | Inr secret \<Rightarrow> (case validate_secret_app_keys secret of Inl e \<Rightarrow> Inl e | Inr _ \<Rightarrow> Inr (aws, secret)))))"

definition render_secret_bundle ::
  "toolchain \<Rightarrow> settings_types \<Rightarrow> settings_sources \<Rightarrow> string \<Rightarrow> (process, RenderedSecretBundle) io" where
  "render_secret_bundle E T R environment = (\<lambda>p.
     let env_name = lower (strip environment) in
     if env_name = [] then (Inl (ValueError ''Environment name must not be empty''), p)
     else (case render_values E env_name of Inl e \<Rightarrow> (Inl e, p)
       | Inr (aws, secret) \<Rightarrow>
           bindE (validate_deployed_settings E T R secret (aws_region aws))
             (\<lambda>_. returnE \<lparr>bundle_environment = env_name, bundle_aws = aws, app_secret = secret,
                bootstrap_environment = [(''APP_ENV'', ''deployed''), (''AWS_REGION'', aws_region aws),
                  (''AWS_SECRETS_MANAGER_SECRET_ID'', aws_secret_name aws)]\<rparr>) p))"

definition secret_string :: "toolchain \<Rightarrow> RenderedSecretBundle \<Rightarrow> string" where
  "secret_string E b = json_dumps E (sort_key fst (app_secret b))"

section \<open>Redaction and synchronisation\<close>

definition redact_value_for_output :: "(string \<Rightarrow> bool) \<Rightarrow> string \<Rightarrow> json \<Rightarrow> json" where
  "redact_value_for_output ip_host key v =
     (if key \<in> set SENSITIVE_VALUE_KEYS then JStr ''***''
      else (case v of JStr s \<Rightarrow> if str_in ''redis'' (lower s) then JStr (mask_redis_url ip_host s) else v | _ \<Rightarrow> v))"

definition redacted_app_secret :: "(string \<Rightarrow> bool) \<Rightarrow> RenderedSecretBundle \<Rightarrow> dict" where
  "redacted_app_secret ip_host b =
     map (\<lambda>(k, v). (k, redact_value_for_output ip_host k v)) (sort_key fst (app_secret b))"

text \<open>The client of Secrets Manager, over the state \<open>'w\<close> of the service.\<close>

datatype aws_error = AwsClientError string string | AwsOther exn

record 'w secrets_client =
  open_client :: "string \<Rightarrow> string \<Rightarrow> 'w \<Rightarrow> (aws_error + unit) \<times> 'w"
  describe_secret :: "string \<Rightarrow> 'w \<Rightarrow> (aws_error + unit) \<times> 'w"
  create_secret :: "string \<Rightarrow> string \<Rightarrow> (string \<times> string) list \<Rightarrow> string option \<Rightarrow> 'w \<Rightarrow> (aws_error + unit) \<times> 'w"
  put_secret_value :: "string \<Rightarrow> string \<Rightarrow> 'w \<Rightarrow> (aws_error + unit) \<times> 'w"

datatype sync_action = Created | Updated

definition SERVICE_TAGS :: "(string \<times> string) list" where
  "SERVICE_TAGS = [(''service'', ''realtime-transcribe-service''), (''managed-by'', ''repo-script'')]"

definition truthy :: "string option \<Rightarrow> string option" where
  "truthy v = (if falsy v then None else v)"

definition build_secrets_manager_client :: "'w secrets_client \<Rightarrow> AwsSecretConfig \<Rightarrow> 'w \<Rightarrow> (aws_error + unit) \<times> 'w" where
  "build_secrets_manager_client C aws = open_client C (aws_profile aws) (aws_region aws)"

text \<open>With an open client: create the secret when it does not exist, else store a new version.\<close>

definition store_secret ::
  "toolchain \<Rightarrow> 'w secrets_client \<Rightarrow> RenderedSecretBundle \<Rightarrow> 'w \<Rightarrow> (aws_error + sync_action) \<times> 'w" where
  "store_secret E C b w =
     (let name = aws_secret_name (bundle_aws b); body = secret_string E b in
      case describe_secret C name w of
        (Inl (AwsClientError code m), w1) \<Rightarrow>
          if code \<noteq> ''ResourceNotFoundException'' then (Inl (AwsClientError code m), w1)
          else (case create_secret C name body (SERVICE_TAGS @ [(''environment'', bundle_environment b)])
                  (truthy (aws_kms_key_id (bundle_aws b))) w1 of
              (Inl e, w2) \<Rightarrow> (Inl e, w2) | (Inr _, w2) \<Rightarrow> (Inr Created, w2))
      | (Inl (AwsOther e), w1) \<Rightarrow> (Inl (AwsOther e), w1)
      | (Inr _, w1) \<Rightarrow> (case put_secret_value C name body w1 of
            (Inl e, w2) \<Rightarrow> (Inl e, w2) | (Inr _, w2) \<Rightarrow> (Inr Updated, w2)))"

definition sync_secret_bundle ::
  "toolchain \<Rightarrow> 'w secrets_client \<Rightarrow> RenderedSecretBundle \<Rightarrow> 'w \<Rightarrow> (aws_error + sync_action) \<times> 'w" where
  "sync_secret_bundle E C b w =
     (case build_secrets_manager_client C (bundle_aws b) w of
        (Inl e, w1) \<Rightarrow> (Inl e, w1)
      | (Inr _, w1) \<Rightarrow> store_secret E C b w1)"

section \<open>Lemmas\<close>

lemma dict_set_new: "k \<notin> set (map fst d) \<Longrightarrow> dict_set d k v = d @ [(k, v)]"
  by (induction d k v rule: dict_set.induct) auto

lemma dict_update_disjoint:
  "distinct (map fst (d @ e)) \<Longrightarrow> dict_update d e = d @ e"
proof (induction e arbitrary: d)
  case Nil
  then show ?case by (simp add: dict_update_def)
next
  case (Cons x e)
  obtain k v where x: "x = (k, v)" by (cases x)
  have "dict_set d k v = d @ [(k, v)]" by (rule dict_set_new) (use Cons.prems in \<open>auto simp: x\<close>)
  moreover have "dict_update (d @ [(k, v)]) e = (d @ [(k, v)]) @ e" by (rule Cons.IH) (use Cons.prems in \<open>auto simp: x\<close>)
  ultimately show ?case by (simp add: dict_update_def x)
qed

lemma setenv_all_legal:
  "(\<forall>(k, v)\<in>set kvs. legal_variable k v) \<Longrightarrow> setenv_all kvs p = (Inr (), p\<lparr>environ := dict_update (environ p) kvs\<rparr>)"
proof (induction kvs arbitrary: p)
  case Nil
  then show ?case by (simp add: dict_update_def)
next
  case (Cons kv kvs)
  then show ?case by (cases kv) (auto simp: setenv_def legal_variable_def bindE_def dict_update_def)
qed

lemma setenv_all_ok_legal: "setenv_all kvs p = (Inr (), p') \<Longrightarrow> \<forall>(k, v)\<in>set kvs. legal_variable k v"
proof (induction kvs arbitrary: p)
  case (Cons kv kvs)
  then show ?case by (cases kv) (auto simp: setenv_def legal_variable_def bindE_def split: if_splits)
qed simp

text \<open>A proper environment: distinct names, and everything in it can be set.\<close>

definition proper_env :: "env \<Rightarrow> bool" where
  "proper_env e \<longleftrightarrow> distinct (map fst e) \<and> (\<forall>(k, v)\<in>set e. legal_variable k v)"

lemma setenv_all_fresh: "proper_env e \<Longrightarrow> setenv_all e (p\<lparr>environ := []\<rparr>) = (Inr (), p\<lparr>environ := e\<rparr>)"
  using setenv_all_legal [of e "p\<lparr>environ := []\<rparr>"] dict_update_disjoint [of "[]" e] by (simp add: proper_env_def)

lemma isolated_environ_proper:
  assumes "proper_env values" and "proper_env (environ p)" and "\<And>q. snd (body q) = q"
  shows "isolated_environ values body p = (fst (body (p\<lparr>environ := values\<rparr>)), p)"
proof -
  obtain r where b: "body (p\<lparr>environ := values\<rparr>) = (r, p\<lparr>environ := values\<rparr>)" using assms(3) [of "p\<lparr>environ := values\<rparr>"] by (metis prod.collapse)
  show ?thesis
    using setenv_all_fresh [OF assms(2), of "p\<lparr>environ := values\<rparr>"] by (simp add: isolated_environ_def setenv_all_fresh [OF assms(1)] b)
qed

lemma settings_body_state: "snd (settings_body T R text q) = q"
  by (simp add: settings_body_def split: sum.split)

text \<open>What rendering establishes.\<close>

definition scalar :: "json \<Rightarrow> bool" where
  "scalar v = (case v of JNull \<Rightarrow> False | JArr _ \<Rightarrow> False | JObj _ \<Rightarrow> False | _ \<Rightarrow> True)"

lemma normalize_scalar: "normalize_app_value k v = Inr j \<Longrightarrow> scalar j"
  by (cases v) (auto simp: scalar_def)

lemma dict_pop_keys: "set (dict_pop d k) \<subseteq> set d \<and> map_of (dict_pop d k) = (map_of d)(k := None)
    \<and> (distinct (map fst d) \<longrightarrow> distinct (map fst (dict_pop d k)))"
  by (induction d) (auto simp: dict_pop_def fun_eq_iff)

lemma dict_set_values: "set (dict_set d k v) \<subseteq> insert (k, v) (set d)"
  by (induction d k v rule: dict_set.induct) auto

lemma merge_app_items_ok:
  "merge_app_items m items = Inr m' \<Longrightarrow> distinct (map fst m) \<Longrightarrow> (\<forall>(k, v)\<in>set m. scalar v) \<Longrightarrow>
    distinct (map fst m') \<and> (\<forall>(k, v)\<in>set m'. scalar v)"
proof (induction m items rule: merge_app_items.induct)
  case (2 m raw_key raw_value rest)
  define k where "k = upper (strip raw_key)"
  obtain v where v: "normalize_app_value k raw_value = Inr v" and ne: "strip raw_key \<noteq> []"
    using 2(3) by (auto simp: k_def split: if_splits sum.splits)
  show ?case
  proof (cases "v = JStr UNSET_SENTINEL")
    case True
    show ?thesis
      by (rule 2(1) [OF ne v [unfolded k_def] True]) (use 2(3-5) v ne True dict_pop_keys [of m k] in \<open>auto simp: k_def\<close>)
  next
    case False
    have "\<forall>(a, x)\<in>set (dict_set m k v). scalar x" using dict_set_values [of m k v] normalize_scalar [OF v] 2(5) by auto
    then show ?thesis
      by (intro 2(2) [OF ne v [unfolded k_def] False])
        (use 2(3,4) v ne False dict_set_distinct [of m k v] in \<open>simp_all add: k_def\<close>)
  qed
qed simp

text \<open>The reference: the last assignment to a key in all layers decides; the sentinel removes it.\<close>

definition setting_of :: "toml \<Rightarrow> json option" where
  "setting_of v = (case normalize_app_value [] v of Inl _ \<Rightarrow> None | Inr j \<Rightarrow> if j = JStr UNSET_SENTINEL then None else Some j)"

definition assignments :: "string \<Rightarrow> toml_table \<Rightarrow> toml list" where
  "assignments k items = map snd (filter (\<lambda>(raw, v). upper (strip raw) = k) items)"

lemma merge_app_items_last:
  "merge_app_items m items = Inr m' \<Longrightarrow>
    map_of m' k = (if assignments k items = [] then map_of m k else setting_of (last (assignments k items)))"
proof (induction m items rule: merge_app_items.induct)
  case (2 m raw_key raw_value rest)
  define k' where "k' = upper (strip raw_key)"
  obtain v where v: "normalize_app_value k' raw_value = Inr v" and ne: "strip raw_key \<noteq> []"
    using 2(3) by (auto simp: k'_def split: if_splits sum.splits)
  have s: "setting_of raw_value = (if v = JStr UNSET_SENTINEL then None else Some v)"
    using v by (cases raw_value) (auto simp: setting_of_def)
  have a: "assignments k ((raw_key, raw_value) # rest) = (if k' = k then [raw_value] else []) @ assignments k rest"
    by (simp add: assignments_def k'_def)
  show ?case
  proof (cases "v = JStr UNSET_SENTINEL")
    case True
    have "map_of m' k = (if assignments k rest = [] then map_of (dict_pop m k') k else setting_of (last (assignments k rest)))"
      unfolding k'_def by (rule 2(1) [OF ne v [unfolded k'_def] True]) (use 2(3) v ne True in \<open>simp add: k'_def\<close>)
    then show ?thesis using dict_pop_keys [of m k'] s True by (auto simp: a)
  next
    case False
    have "map_of m' k = (if assignments k rest = [] then map_of (dict_set m k' v) k else setting_of (last (assignments k rest)))"
      unfolding k'_def by (rule 2(2) [OF ne v [unfolded k'_def] False]) (use 2(3) v ne False in \<open>simp add: k'_def\<close>)
    then show ?thesis using s False by (auto simp: a)
  qed
qed (simp add: assignments_def)

lemma sort_Nil: "sort xs = [] \<longleftrightarrow> xs = []"
  by (metis length_0_conv length_sort)

lemma secret_keys_ok:
  "validate_secret_app_keys secret = Inr () \<Longrightarrow>
    set (map fst secret) \<subseteq> set allowed_secret_app_keys \<and> set (map fst secret) \<inter> set DEPLOYED_BOOTSTRAP_ENV_KEYS = {}"
  by (auto simp: validate_secret_app_keys_def Let_def sort_Nil filter_empty_conv split: if_splits)

lemma isolated_environ_Inr:
  assumes "isolated_environ values body p = (Inr x, p')"
  shows "\<forall>(k, v)\<in>set values. legal_variable k v"
proof -
  obtain q where "setenv_all values (p\<lparr>environ := []\<rparr>) = (Inr (), q)"
    using assms by (cases "setenv_all values (p\<lparr>environ := []\<rparr>)") (auto simp: isolated_environ_def split: sum.splits)
  then show ?thesis by (rule setenv_all_ok_legal)
qed

lemma rendered:
  assumes "render_secret_bundle E T R environment p = (Inr b, p')" and "proper_env (environ p)"
  obtains s where "p' = p" and "proper_env (validation_env E (app_secret b) (aws_region (bundle_aws b)))"
    and "validate_settings T (map_of (validation_env E (app_secret b) (aws_region (bundle_aws b))))
      (read_env R (validation_env E (app_secret b) (aws_region (bundle_aws b)))) = Inr s"
    and "distinct (map fst (app_secret b))" and "\<forall>(k, v)\<in>set (app_secret b). scalar v"
    and "set (map fst (app_secret b)) \<subseteq> set allowed_secret_app_keys"
    and "set (map fst (app_secret b)) \<inter> set DEPLOYED_BOOTSTRAP_ENV_KEYS = {}"
    and "bootstrap_environment b = [(''APP_ENV'', ''deployed''), (''AWS_REGION'', aws_region (bundle_aws b)),
      (''AWS_SECRETS_MANAGER_SECRET_ID'', aws_secret_name (bundle_aws b))]"
    and "render_values E (bundle_environment b) = Inr (bundle_aws b, app_secret b)"
proof -
  define n where "n = lower (strip environment)"
  obtain aws secret where v: "render_values E n = Inr (aws, secret)"
    using assms(1) by (auto simp: render_secret_bundle_def Let_def n_def split: if_splits sum.splits)
  define ve where "ve = validation_env E secret (aws_region aws)"
  obtain s q where d: "validate_deployed_settings E T R secret (aws_region aws) p = (Inr s, q)"
    and b: "b = \<lparr>bundle_environment = n, bundle_aws = aws, app_secret = secret,
                bootstrap_environment = [(''APP_ENV'', ''deployed''), (''AWS_REGION'', aws_region aws),
                  (''AWS_SECRETS_MANAGER_SECRET_ID'', aws_secret_name aws)]\<rparr>" and p': "p' = q"
    using assms(1) v
    by (cases "validate_deployed_settings E T R secret (aws_region aws) p")
      (auto simp: render_secret_bundle_def Let_def n_def [symmetric] bindE_def split: if_splits sum.splits)
  have "distinct (map fst ve)" by (simp add: ve_def validation_env_def dict_update_distinct)
  then have pe: "proper_env ve"
    using isolated_environ_Inr [OF d [unfolded validate_deployed_settings_def]] by (simp add: proper_env_def ve_def)
  have iso: "validate_deployed_settings E T R secret (aws_region aws) p
      = (fst (settings_body T R (validation_text E) (p\<lparr>environ := ve\<rparr>)), p)"
    unfolding validate_deployed_settings_def ve_def
    by (rule isolated_environ_proper [OF pe [unfolded ve_def] assms(2) settings_body_state])
  then have s: "validate_settings T (map_of ve) (read_env R ve) = Inr s" and q: "q = p"
    using d by (auto simp: settings_body_def split: sum.splits)
  obtain items where m: "merge_app_items [] items = Inr secret" and k: "validate_secret_app_keys secret = Inr ()"
    using v by (auto simp: render_values_def merge_app_layers_def split: sum.splits prod.splits)
  note keys = secret_keys_ok [OF k] and sc = merge_app_items_ok [OF m]
  show ?thesis
    by (rule that [of s]) (use pe s q p' keys sc v in \<open>simp_all add: b ve_def n_def\<close>)
qed

section \<open>From the rendered secret to the service's settings\<close>

lemma scalar_text: "scalar v \<Longrightarrow> secret_scalar_to_str fs v = Inr (json_scalar_to_env_str fs v)"
  by (cases v) (simp_all add: scalar_def json_scalar_to_env_str_def)

lemma secret_kv_loop_clean:
  assumes "\<forall>(k, v)\<in>set d. strip k = k \<and> upper k = k \<and> k \<noteq> [] \<and> scalar v" and "distinct (map fst (out @ map (\<lambda>(k, v). (k, f v)) d))"
    and "f = json_scalar_to_env_str fs"
  shows "secret_kv_loop fs out d = Inr (out @ map (\<lambda>(k, v). (k, f v)) d)"
  using assms(1,2)
proof (induction d arbitrary: out)
  case (Cons kv d)
  obtain k v where kv: "kv = (k, v)" by (cases kv)
  have "dict_set out k (f v) = out @ [(k, f v)]" by (rule dict_set_new) (use Cons.prems(2) in \<open>auto simp: kv\<close>)
  moreover have "secret_kv_loop fs (out @ [(k, f v)]) d = Inr ((out @ [(k, f v)]) @ map (\<lambda>(k, v). (k, f v)) d)"
    by (rule Cons.IH) (use Cons.prems in \<open>auto simp: kv\<close>)
  ultimately show ?case using Cons.prems(1) scalar_text [of v fs] by (simp add: kv Let_def assms(3))
qed simp

text \<open>Field names are lower-case letters and underscores, so upper-casing their variables changes nothing more.\<close>

definition field_char :: "char \<Rightarrow> bool" where
  "field_char c \<longleftrightarrow> (let n = (of_char c :: nat) in (97 \<le> n \<and> n \<le> 122) \<or> n = 95)"

lemma field_chars:
  "field_char CHR ''a''" "field_char CHR ''b''" "field_char CHR ''c''" "field_char CHR ''d''" "field_char CHR ''e''"
  "field_char CHR ''f''" "field_char CHR ''g''" "field_char CHR ''h''" "field_char CHR ''i''" "field_char CHR ''j''"
  "field_char CHR ''k''" "field_char CHR ''l''" "field_char CHR ''m''" "field_char CHR ''n''" "field_char CHR ''o''"
  "field_char CHR ''p''" "field_char CHR ''q''" "field_char CHR ''r''" "field_char CHR ''s''" "field_char CHR ''t''"
  "field_char CHR ''u''" "field_char CHR ''v''" "field_char CHR ''w''" "field_char CHR ''x''" "field_char CHR ''y''"
  "field_char CHR ''z''" "field_char CHR ''_''"
  by (simp_all add: field_char_def)

lemma field_names: "\<forall>f\<in>set settings_fields. f \<noteq> [] \<and> (\<forall>c\<in>set f. field_char c)"
  by (simp add: settings_fields_def field_chars)

lemma field_char_upper: "field_char c \<Longrightarrow> \<exists>d. upper_char c = [d] \<and> upper_char d = [d] \<and> \<not> py_isspace d"
proof -
  assume f: "field_char c"
  define n where "n = (of_char c :: nat)"
  show ?thesis
  proof (cases "n = 95")
    case True
    then show ?thesis by (simp add: upper_char_def py_isspace_def n_def [symmetric])
  next
    case False
    then have n: "97 \<le> n" "n \<le> 122" using f by (auto simp: field_char_def n_def Let_def)
    define d :: char where "d = char_of (n - 32)"
    have "(of_char d :: nat) = n - 32" using n by (simp add: d_def of_char_of)
    then show ?thesis using n by (intro exI [of _ d]) (simp add: upper_char_def py_isspace_def n_def [symmetric] d_def Let_def, presburger)
  qed
qed

lemma upper_field: "\<forall>c\<in>set f. field_char c \<Longrightarrow> upper (upper f) = upper f \<and> (\<forall>c\<in>set (upper f). \<not> py_isspace c) \<and> (f \<noteq> [] \<longrightarrow> upper f \<noteq> [])"
proof (induction f)
  case (Cons c f)
  then obtain d where "upper_char c = [d]" "upper_char d = [d]" "\<not> py_isspace d" using field_char_upper [of c] by auto
  then show ?case using Cons by (simp add: upper_def)
qed (simp add: upper_def)

lemma strip_word: "\<forall>c\<in>set s. \<not> py_isspace c \<Longrightarrow> strip s = s"
proof -
  assume a: "\<forall>c\<in>set s. \<not> py_isspace c"
  have "dropWhile py_isspace t = t" if "set t = set s" for t using a that by (cases t) auto
  then show ?thesis by (simp add: strip_def lstrip_def rstrip_def)
qed

lemma allowed_keys_stable: "k \<in> set allowed_secret_app_keys \<Longrightarrow> strip k = k \<and> upper k = k \<and> k \<noteq> []"
  using field_names upper_field strip_word by (fastforce simp: allowed_secret_app_keys_def)

lemma strip_strip: "strip (strip s) = strip s"
proof -
  have r: "rstrip (rstrip t) = rstrip t" for t
    by (simp add: rstrip_def dropWhile_idem)
  have l: "lstrip (rstrip t) = rstrip t" if "t = [] \<or> \<not> py_isspace (hd t)" for t
  proof (cases "rstrip t")
    case Nil
    then show ?thesis by (simp add: lstrip_def)
  next
    case (Cons c cs)
    have "\<exists>u. t = rstrip t @ u"
      unfolding rstrip_def by (metis rev_append rev_rev_ident takeWhile_dropWhile_id)
    then have "hd t = c" "t \<noteq> []" using Cons by (auto simp: hd_append)
    then show ?thesis using that Cons by (simp add: lstrip_def)
  qed
  have "lstrip s = [] \<or> \<not> py_isspace (hd (lstrip s))" unfolding lstrip_def using hd_dropWhile by blast
  then show ?thesis by (simp add: strip_def l r)
qed

lemma parse_settings_cong:
  assumes "\<forall>f\<in>set settings_fields. src f = src' f"
  shows "parse_settings T src = parse_settings T src'"
proof -
  note e = assms [unfolded settings_fields_def list.set ball_simps]
  show ?thesis
    unfolding parse_settings_def settings_field_def required_app_env_def by (simp only: e)
qed

lemma environment_rules_cong:
  assumes "env ''AWS_REGION'' = env' ''AWS_REGION''" and "env ''AWS_DEFAULT_REGION'' = env' ''AWS_DEFAULT_REGION''"
  shows "apply_environment_rules env = apply_environment_rules env'"
proof -
  have "bootstrap_region env = bootstrap_region env'" by (simp add: bootstrap_region_def env_strip_def assms)
  then have "kafka_region_rule env = kafka_region_rule env'" unfolding fun_eq_iff kafka_region_rule_def by (simp only: simp_thms)
  then show ?thesis unfolding fun_eq_iff apply_environment_rules_def by (simp only: simp_thms)
qed

lemma validate_settings_cong:
  assumes "\<forall>f\<in>set settings_fields. src f = src' f"
    and "env ''AWS_REGION'' = env' ''AWS_REGION''" and "env ''AWS_DEFAULT_REGION'' = env' ''AWS_DEFAULT_REGION''"
  shows "validate_settings T env src = validate_settings T env' src'"
  unfolding validate_settings_def parse_settings_cong [OF assms(1)] environment_rules_cong [of env env', OF assms(2,3)]
  by (rule refl)

text \<open>pydantic-settings reads a field from the variables whose name is the field's, ignoring case.\<close>

definition reads_own_variable :: "settings_sources \<Rightarrow> bool" where
  "reads_own_variable R \<longleftrightarrow> (\<forall>e e' f. f \<in> set settings_fields \<longrightarrow> (\<forall>k. lower k = f \<longrightarrow> map_of e k = map_of e' k) \<longrightarrow>
     read_env R e f = read_env R e' f)"

lemma secret_id_no_field: "lower ''AWS_SECRETS_MANAGER_SECRET_ID'' \<notin> set settings_fields"
  by code_simp

text \<open>The environment of a task that starts from the rendered secret agrees with the one \<open>Settings\<close> was checked in.\<close>

lemma started_environment:
  assumes ok: "distinct (map fst d)" "\<forall>(k, v)\<in>set d. scalar v" "set (map fst d) \<subseteq> set allowed_secret_app_keys"
      "set (map fst d) \<inter> set DEPLOYED_BOOTSTRAP_ENV_KEYS = {}"
    and legal: "proper_env (validation_env E d region)" "proper_env boot"
    and boot: "boot = [(''APP_ENV'', ''deployed''), (''AWS_REGION'', region), (''AWS_SECRETS_MANAGER_SECRET_ID'', name)]"
    and task: "environ q = boot" "\<not> secrets_loaded q" "boto3_present A" "dotenv_file A = None" "float_str A = num_str E"
      "\<forall>r. boto3_client A r = Inr ()" "\<forall>r. get_secret_value A r name = SecretString (Some (json_dumps E (sort_key fst d)))"
    and json: "json_loads A (json_dumps E (sort_key fst d)) = Some (JObj (sort_key fst d))"
    and name: "strip name = name" "name \<noteq> []"
  obtains q' where "merge_deployed_secrets_into_environ A q = (Inr (), q')" and "settings_cache q' = settings_cache q"
    and "\<forall>k. k \<noteq> ''AWS_SECRETS_MANAGER_SECRET_ID'' \<longrightarrow> map_of (environ q') k = map_of (validation_env E d region) k"
proof -
  define f where "f = json_scalar_to_env_str (num_str E)"
  define kv where "kv = map (\<lambda>(k, v). (k, f v)) (sort_key fst d)"
  have fst_kv: "map fst kv = map fst (sort_key fst d)" by (simp add: kv_def comp_def case_prod_beta)
  have keys: "fst ` set kv = fst ` set d" using arg_cong [OF fst_kv, of set] by simp
  have dd: "distinct (map fst (sort_key fst d))" using ok(1) by (simp add: distinct_map inj_on_def)
  have "\<forall>(k, v)\<in>set d. strip k = k \<and> upper k = k \<and> k \<noteq> [] \<and> scalar v" using ok(2,3) allowed_keys_stable by fastforce
  then have "secret_kv_loop (float_str A) [] (sort_key fst d) = Inr ([] @ kv)"
    unfolding kv_def f_def task(5) by (intro secret_kv_loop_clean) (use dd in \<open>simp_all add: comp_def case_prod_beta\<close>)
  then have se: "secret_env A (environ q) = Inr kv"
    using name task by (simp add: secret_env_def fetch_secret_kv_def Let_def env_get_def boot json secret_json_to_env_kv_def)
  define m where "m = merged_layers (load_dotenv_layer (dotenv_file A)) (environ q) kv"
  have mm: "map_of m = map_of boot ++ map_of kv ++ (map_of boot |` set DEPLOYED_BOOTSTRAP_ENV_KEYS)"
    using legal(2) dd fst_kv
    by (simp add: m_def merged_layers_map task(1,4) proper_env_def load_dotenv_layer_def)
  have kvs: "set kv = (\<lambda>(k, v). (k, f v)) ` set d" by (simp add: kv_def)
  have same: "map_of kv = map_of (map (\<lambda>(k, v). (k, f v)) d)"
    using ok(1) dd fst_kv kvs by (simp add: map_of_inject_set comp_def case_prod_beta)
  have ve: "map_of (validation_env E d region) = map_of [(''APP_ENV'', ''deployed''), (''AWS_REGION'', region)] ++ map_of kv"
    using ok(1) by (simp add: validation_env_def f_def [symmetric] dict_update_map same comp_def case_prod_beta)
  have "\<forall>(k, v)\<in>set m. legal_variable k v"
  proof (intro ballI, clarify)
    fix k v assume "(k, v) \<in> set m"
    moreover have "distinct (map fst m)" by (simp add: m_def merged_layers_distinct)
    ultimately have "map_of m k = Some v" by simp
    then have "map_of boot k = Some v \<or> map_of kv k = Some v" by (auto simp: mm map_add_def restrict_map_def split: option.splits if_splits)
    then show "legal_variable k v"
    proof
      assume "map_of boot k = Some v"
      then show ?thesis using legal(2) map_of_SomeD unfolding proper_env_def by fast
    next
      assume "map_of kv k = Some v"
      then have "map_of (validation_env E d region) k = Some v" by (simp add: ve)
      then show ?thesis using legal(1) map_of_SomeD unfolding proper_env_def by fast
    qed
  qed
  then have set: "setenv_all m q = (Inr (), q\<lparr>environ := dict_update (environ q) m\<rparr>)" by (rule setenv_all_legal)
  have dep: "deployed_env (environ q)"
    by (simp add: deployed_env_def env_get_def task(1) boot strip_def lstrip_def rstrip_def py_isspace_def lower_def lower_char_def)
  obtain q' where q': "merge_deployed_secrets_into_environ A q = (Inr (), q')"
    by (simp add: merge_deployed_secrets_into_environ_def task(2) dep se m_def [symmetric] set bindE_def)
  obtain kv' where kv': "secret_env A (environ q) = Inr kv'" "settings_cache q' = settings_cache q"
    "map_of (environ q') = map_of (load_dotenv_layer (dotenv_file A)) ++ map_of (environ q) ++ map_of kv'
      ++ (map_of (environ q) |` set DEPLOYED_BOOTSTRAP_ENV_KEYS)"
    by (rule merge_success [OF q' task(2) dep]) (use legal(2) task(1) in \<open>auto simp: proper_env_def\<close>)
  show ?thesis
  proof (rule that [OF q' kv'(2)], intro allI impI)
    fix k assume k: "k \<noteq> ''AWS_SECRETS_MANAGER_SECRET_ID''"
    have "map_of kv k = None" if "k \<in> set DEPLOYED_BOOTSTRAP_ENV_KEYS"
      using that ok(4) keys by (auto simp: map_of_eq_None_iff)
    moreover have "map_of boot k = map_of [(''APP_ENV'', ''deployed''), (''AWS_REGION'', region)] k" using k by (simp add: boot)
    ultimately show "map_of (environ q') k = map_of (validation_env E d region) k"
      using kv'(1) se by (auto simp: kv'(3) ve task(1,4) load_dotenv_layer_def map_add_def restrict_map_def split: option.split)
  qed
qed

lemma aws_config_name:
  assumes "load_aws_config base_aws env_aws = Inr aws"
  shows "aws_secret_name aws \<noteq> [] \<and> strip (aws_secret_name aws) = aws_secret_name aws"
proof -
  define m where "m = dict_update base_aws env_aws"
  have "filter (\<lambda>k. \<not> is_non_empty_string (map_of m k)) REQUIRED_AWS_KEYS = []"
    and a: "aws_secret_name aws = stripped (map_of m ''secret_name'')"
    using assms by (auto simp: load_aws_config_def Let_def m_def sort_Nil split: if_splits)
  then have "is_non_empty_string (map_of m ''secret_name'')" by (simp add: REQUIRED_AWS_KEYS_def split: if_splits)
  then show ?thesis
    unfolding a by (auto simp: is_non_empty_string_def stripped_def strip_strip split: option.splits toml.splits)
qed

lemma validation_env_app_env:
  assumes "''APP_ENV'' \<notin> fst ` set d"
  shows "map_of (validation_env E d region) ''APP_ENV'' = Some ''deployed''"
proof -
  have "map_of (rev (map (\<lambda>(k, v). (k, json_scalar_to_env_str (num_str E) v)) d)) ''APP_ENV'' = None"
    using assms by (force simp: map_of_eq_None_iff)
  then show ?thesis by (simp add: validation_env_def map_of_dict_update)
qed

lemma synced_body_stored:
  assumes "sync_secret_bundle E C b w = (Inr action, w')"
    and "\<forall>n body tags kms w w'. create_secret C n body tags kms w = (Inr (), w') \<longrightarrow> stored w' n = Some body"
    and "\<forall>n body w w'. put_secret_value C n body w = (Inr (), w') \<longrightarrow> stored w' n = Some body"
  shows "stored w' (aws_secret_name (bundle_aws b)) = Some (secret_string E b)"
  using assms by (auto simp: sync_secret_bundle_def store_secret_def Let_def split: prod.splits sum.splits aws_error.splits if_splits)

lemma insort_key_map_pairs: "insort_key fst (k, g k v) (map (\<lambda>(k, v). (k, g k v)) xs) = map (\<lambda>(k, v). (k, g k v)) (insort_key fst (k, v) xs)"
  by (induction xs) auto

lemma sort_key_map_pairs: "sort_key fst (map (\<lambda>(k, v). (k, g k v)) xs) = map (\<lambda>(k, v). (k, g k v)) (sort_key fst xs)"
proof (induction xs)
  case (Cons x xs)
  then show ?case by (cases x) (simp add: insort_key_map_pairs)
qed simp

section \<open>Properties\<close>

text \<open>
  C20. A task starts with exactly the configuration the deployment pipeline validated: when a bundle has been rendered and
  stored, a fresh task whose environment is the rendered bootstrap environment gets, from the stored secret, the
  very settings the pipeline has checked. Assumed of code outside the repository: Secrets Manager returns what was
  stored, \<open>json.loads\<close> inverts \<open>json.dumps\<close> on the rendered object, and pydantic-settings reads a field from its
  own variable.
\<close>

theorem synced_configuration_starts:
  assumes render: "render_secret_bundle E T R environment p = (Inr b, p')" "proper_env (environ p)"
    and sync: "sync_secret_bundle E C b w = (Inr action, w')"
      "\<forall>n body tags kms w w'. create_secret C n body tags kms w = (Inr (), w') \<longrightarrow> stored w' n = Some body"
      "\<forall>n body w w'. put_secret_value C n body w = (Inr (), w') \<longrightarrow> stored w' n = Some body"
      "\<forall>r n. get_secret_value A r n = SecretString (stored w' n)"
    and json: "json_loads A (secret_string E b) = Some (JObj (sort_key fst (app_secret b)))"
    and fields: "reads_own_variable R"
    and task: "environ q = bootstrap_environment b" "proper_env (environ q)" "\<not> secrets_loaded q" "settings_cache q = None"
      "boto3_present A" "\<forall>r. boto3_client A r = Inr ()" "dotenv_file A = None" "float_str A = num_str E"
  shows "\<exists>s q'. fst (validate_deployed_settings E T R (app_secret b) (aws_region (bundle_aws b)) p) = Inr s
    \<and> get_settings T R A q = (Inr s, q')"
proof -
  define ve where "ve = validation_env E (app_secret b) (aws_region (bundle_aws b))"
  obtain s where r: "proper_env ve" "validate_settings T (map_of ve) (read_env R ve) = Inr s"
    "distinct (map fst (app_secret b))" "\<forall>(k, v)\<in>set (app_secret b). scalar v"
    "set (map fst (app_secret b)) \<subseteq> set allowed_secret_app_keys"
    "set (map fst (app_secret b)) \<inter> set DEPLOYED_BOOTSTRAP_ENV_KEYS = {}"
    "bootstrap_environment b = [(''APP_ENV'', ''deployed''), (''AWS_REGION'', aws_region (bundle_aws b)),
      (''AWS_SECRETS_MANAGER_SECRET_ID'', aws_secret_name (bundle_aws b))]"
    "render_values E (bundle_environment b) = Inr (bundle_aws b, app_secret b)"
    by (rule rendered [OF render, folded ve_def])
  have name: "aws_secret_name (bundle_aws b) \<noteq> []" "strip (aws_secret_name (bundle_aws b)) = aws_secret_name (bundle_aws b)"
    using r(8) aws_config_name by (auto simp: render_values_def split: sum.splits prod.splits)
  have loads: "json_loads A (json_dumps E (sort_key fst (app_secret b))) = Some (JObj (sort_key fst (app_secret b)))"
    using json by (simp add: secret_string_def)
  obtain q' where q': "merge_deployed_secrets_into_environ A q = (Inr (), q')" "settings_cache q' = settings_cache q"
    "\<forall>k. k \<noteq> ''AWS_SECRETS_MANAGER_SECRET_ID'' \<longrightarrow> map_of (environ q') k = map_of ve k"
    by (rule started_environment [OF r(3-6) r(1) [unfolded ve_def] task(2) task(1) [unfolded r(7)], where A = A, folded ve_def])
      (use task(1-3,5-8) sync(4) synced_body_stored [OF sync(1-3)] loads name in \<open>simp_all add: secret_string_def r(7)\<close>)
  have "map_of ve ''APP_ENV'' = Some ''deployed''"
    unfolding ve_def by (rule validation_env_app_env) (use r(6) in \<open>auto simp: DEPLOYED_BOOTSTRAP_ENV_KEYS_def\<close>)
  then have dep: "deployed_env (environ q')"
    using q'(3) by (simp add: deployed_env_def env_get_def strip_def lstrip_def rstrip_def py_isspace_def lower_def lower_char_def)
  have src: "\<forall>f\<in>set settings_fields. read_env R (environ q') f = read_env R ve f"
  proof
    fix f assume f: "f \<in> set settings_fields"
    have "\<forall>k. lower k = f \<longrightarrow> map_of (environ q') k = map_of ve k" using q'(3) f secret_id_no_field by metis
    then show "read_env R (environ q') f = read_env R ve f" using fields f unfolding reads_own_variable_def by blast
  qed
  have "validate_settings T (map_of (environ q')) (read_env R (environ q')) = Inr s"
    unfolding r(2) [symmetric] by (rule validate_settings_cong [OF src]) (simp_all add: q'(3))
  then have "get_settings T R A q = (Inr s, q'\<lparr>settings_cache := Some s\<rparr>)"
    by (simp add: get_settings_def task(4) q'(1) dep)
  moreover have "fst (validate_deployed_settings E T R (app_secret b) (aws_region (bundle_aws b)) p) = Inr s"
    unfolding validate_deployed_settings_def ve_def [symmetric] isolated_environ_proper [OF r(1) render(2) settings_body_state]
    by (simp add: settings_body_def r(2))
  ultimately show ?thesis by blast
qed



text \<open>
  Rendering leaves the process environment as it was, whether it succeeds or fails, unless a value cannot be set as
  an environment variable.
\<close>

theorem rendering_restores_environment:
  assumes "proper_env (environ p)"
    and "\<forall>aws secret. render_values E (lower (strip environment)) = Inr (aws, secret) \<longrightarrow>
      proper_env (validation_env E secret (aws_region aws))"
  shows "snd (render_secret_bundle E T R environment p) = p"
proof (cases "render_values E (lower (strip environment))")
  case (Inr x)
  obtain aws secret where x: "x = (aws, secret)" by (cases x)
  have "validate_deployed_settings E T R secret (aws_region aws) p
      = (fst (settings_body T R (validation_text E) (p\<lparr>environ := validation_env E secret (aws_region aws)\<rparr>)), p)"
    unfolding validate_deployed_settings_def
    by (rule isolated_environ_proper [OF _ assms(1) settings_body_state]) (use assms(2) Inr x in simp)
  then show ?thesis by (simp add: render_secret_bundle_def Let_def Inr x bindE_def split: sum.split)
qed (simp add: render_secret_bundle_def Let_def)

text \<open>A NUL in a value: the caller is left without its environment.\<close>

theorem nul_loses_environment:
  "snd (isolated_environ [(''KAFKA_TOPIC'', [CHR 0x00])] (settings_body T R text)
      \<lparr>environ = [(''HOME'', ''/root'')], secrets_loaded = False, settings_cache = None\<rparr>)
    = \<lparr>environ = [], secrets_loaded = False, settings_cache = None\<rparr>"
  by (simp add: isolated_environ_def setenv_def bindE_def)

section \<open>A deployment\<close>

definition dev_tools :: toolchain where
  "dev_tools = \<lparr>config_dir = ''secrets'',
     config_file = (\<lambda>n.
       if n = ''base.toml''
       then Document [(''aws'', TTable [(''region'', TStr ''us-east-1''), (''profile'', TStr ''dev'')]),
         (''app'', TTable [(''kafka_mode'', TStr ''aws_msk''), (''redis_url'', TStr ''rediss://old:6379'')])]
       else if n = ''dev.toml''
       then Document [(''aws'', TTable [(''secret_name'', TStr '' rts/dev '')]),
         (''app'', TTable [(''REDIS_URL'', TStr ''rediss://r:6379''), (''kafka_bootstrap_servers'', TStr ''b:9098'')])]
       else Document [(''app'', TTable [(''redis_sequence_state_key_prefix'', TStr ''dev:seq''),
         (''redis_ownership_guard_key_prefix'', TStr ''dev:own'')])]),
     validation_text = (\<lambda>_. []), json_dumps = (\<lambda>_. ''body''), num_str = (\<lambda>_. [])\<rparr>"

definition dev_aws :: AwsSecretConfig where
  "dev_aws = \<lparr>aws_region = ''us-east-1'', aws_profile = ''dev'', aws_secret_name = ''rts/dev'', aws_kms_key_id = None\<rparr>"

definition dev_secret :: dict where
  "dev_secret = [(''KAFKA_MODE'', JStr ''aws_msk''), (''REDIS_URL'', JStr ''rediss://r:6379''),
     (''KAFKA_BOOTSTRAP_SERVERS'', JStr ''b:9098''), (''REDIS_SEQUENCE_STATE_KEY_PREFIX'', JStr ''dev:seq''),
     (''REDIS_OWNERSHIP_GUARD_KEY_PREFIX'', JStr ''dev:own'')]"

definition dev_bundle :: RenderedSecretBundle where
  "dev_bundle = \<lparr>bundle_environment = ''dev'', bundle_aws = dev_aws, app_secret = dev_secret,
     bootstrap_environment = [(''APP_ENV'', ''deployed''), (''AWS_REGION'', ''us-east-1''), (''AWS_SECRETS_MANAGER_SECRET_ID'', ''rts/dev'')]\<rparr>"

definition shell :: process where
  "shell = \<lparr>environ = [(''HOME'', ''/root'')], secrets_loaded = False, settings_cache = None\<rparr>"

definition dev_client :: "(string \<Rightarrow> string option) secrets_client" where
  "dev_client = \<lparr>open_client = (\<lambda>_ _ w. (Inr (), w)), describe_secret = (\<lambda>n w. (if w n = None then Inl (AwsClientError ''ResourceNotFoundException'' []) else Inr (), w)),
     create_secret = (\<lambda>n body _ _ w. (Inr (), w(n \<mapsto> body))), put_secret_value = (\<lambda>n body w. (Inr (), w(n \<mapsto> body)))\<rparr>"

definition dev_task_aws :: aws where
  "dev_task_aws = \<lparr>boto3_present = True, boto3_client = (\<lambda>_. Inr ()),
     get_secret_value = (\<lambda>_ n. SecretString (snd (sync_secret_bundle dev_tools dev_client dev_bundle Map.empty) n)),
     dotenv_file = None, json_loads = (\<lambda>_. Some (JObj (sort_key fst dev_secret))), float_str = (\<lambda>_. [])\<rparr>"

definition dev_task :: process where
  "dev_task = \<lparr>environ = bootstrap_environment dev_bundle, secrets_loaded = False, settings_cache = None\<rparr>"

lemma allowed_key: "f \<in> set settings_fields \<Longrightarrow> upper f = k \<Longrightarrow> k \<notin> set DEPLOYED_BOOTSTRAP_ENV_KEYS \<Longrightarrow> k \<in> set allowed_secret_app_keys"
  by (auto simp: allowed_secret_app_keys_def)

lemmas latin_text = strip_def lstrip_def rstrip_def py_isspace_def upper_def upper_char_def lower_def lower_char_def Let_def char_of_eq_iff

lemma dev_keys_allowed:
  "''KAFKA_MODE'' \<in> set allowed_secret_app_keys" "''REDIS_URL'' \<in> set allowed_secret_app_keys"
  "''KAFKA_BOOTSTRAP_SERVERS'' \<in> set allowed_secret_app_keys" "''REDIS_SEQUENCE_STATE_KEY_PREFIX'' \<in> set allowed_secret_app_keys"
  "''REDIS_OWNERSHIP_GUARD_KEY_PREFIX'' \<in> set allowed_secret_app_keys"
      apply (rule allowed_key [of "''kafka_mode''"]; simp add: settings_fields_def latin_text DEPLOYED_BOOTSTRAP_ENV_KEYS_def)
     apply (rule allowed_key [of "''redis_url''"]; simp add: settings_fields_def latin_text DEPLOYED_BOOTSTRAP_ENV_KEYS_def)
    apply (rule allowed_key [of "''kafka_bootstrap_servers''"]; simp add: settings_fields_def latin_text DEPLOYED_BOOTSTRAP_ENV_KEYS_def)
   apply (rule allowed_key [of "''redis_sequence_state_key_prefix''"]; simp add: settings_fields_def latin_text DEPLOYED_BOOTSTRAP_ENV_KEYS_def)
  apply (rule allowed_key [of "''redis_ownership_guard_key_prefix''"]; simp add: settings_fields_def latin_text DEPLOYED_BOOTSTRAP_ENV_KEYS_def)
  done

lemma dev_keys_valid: "validate_secret_app_keys dev_secret = Inr ()"
  by (simp add: validate_secret_app_keys_def dev_secret_def dev_keys_allowed DEPLOYED_BOOTSTRAP_ENV_KEYS_def)

lemma dev_layers: "merge_app_layers [[(''kafka_mode'', TStr ''aws_msk''), (''redis_url'', TStr ''rediss://old:6379'')],
    [(''REDIS_URL'', TStr ''rediss://r:6379''), (''kafka_bootstrap_servers'', TStr ''b:9098'')],
    [(''redis_sequence_state_key_prefix'', TStr ''dev:seq''), (''redis_ownership_guard_key_prefix'', TStr ''dev:own'')]] = Inr dev_secret"
  by code_simp

lemma dev_values: "render_values dev_tools ''dev'' = Inr (dev_aws, dev_secret)"
  using dev_layers dev_keys_valid
  by (simp add: render_values_def render_documents_def load_toml_document_def dev_tools_def not_a_table_def is_table_def toml_section_def
      load_aws_config_def dict_update_def ALLOWED_AWS_KEYS_def REQUIRED_AWS_KEYS_def is_non_empty_string_def stripped_def latin_text dev_aws_def)

lemma shell_proper: "proper_env (environ shell)" "proper_env (environ dev_task)" "proper_env (validation_env dev_tools dev_secret ''us-east-1'')"
  by code_simp+

lemma dev_validates: "\<not> isl (validate_settings plain_types (map_of (validation_env dev_tools dev_secret ''us-east-1''))
    (read_env plain_sources (validation_env dev_tools dev_secret ''us-east-1'')))"
  by code_simp

lemma dev_renders: "render_secret_bundle dev_tools plain_types plain_sources ''dev'' shell = (Inr dev_bundle, shell)"
proof -
  obtain s where s: "validate_settings plain_types (map_of (validation_env dev_tools dev_secret ''us-east-1''))
    (read_env plain_sources (validation_env dev_tools dev_secret ''us-east-1'')) = Inr s"
    using dev_validates by (auto simp: isl_def split: sum.splits) (metis sum.exhaust)
  have "validate_deployed_settings dev_tools plain_types plain_sources dev_secret ''us-east-1'' shell = (Inr s, shell)"
    unfolding validate_deployed_settings_def isolated_environ_proper [OF shell_proper(3,1) settings_body_state]
    by (simp add: settings_body_def s)
  then show ?thesis
    by (simp add: render_secret_bundle_def latin_text dev_values bindE_def dev_bundle_def dev_aws_def)
qed

lemma plain_reads_own: "reads_own_variable plain_sources"
proof -
  have "lower k = f" if "map_of variable_of_field f = Some k" for f k
    using that by (auto simp: variable_of_field_def latin_text split: if_splits)
  then show ?thesis by (auto simp: reads_own_variable_def plain_sources_def plain_source_def split: option.split)
qed

theorem synced_configuration_starts_witness: "\<exists>s q'. get_settings plain_types plain_sources dev_task_aws dev_task = (Inr s, q')"
proof -
  obtain a w' where sy: "sync_secret_bundle dev_tools dev_client dev_bundle Map.empty = (Inr a, w')"
    by (simp add: sync_secret_bundle_def build_secrets_manager_client_def store_secret_def dev_client_def Let_def)
  have "\<exists>s q'. fst (validate_deployed_settings dev_tools plain_types plain_sources (app_secret dev_bundle) (aws_region (bundle_aws dev_bundle)) shell) = Inr s
      \<and> get_settings plain_types plain_sources dev_task_aws dev_task = (Inr s, q')"
  proof (rule synced_configuration_starts [OF dev_renders shell_proper(1) sy, where stored = "\<lambda>w n. w n"])
    show "\<forall>r n. get_secret_value dev_task_aws r n = SecretString (w' n)" by (simp add: dev_task_aws_def sy)
    show "environ dev_task = bootstrap_environment dev_bundle" by (simp add: dev_task_def)
    show "proper_env (environ dev_task)" by (rule shell_proper(2))
    show "json_loads dev_task_aws (secret_string dev_tools dev_bundle) = Some (JObj (sort_key fst (app_secret dev_bundle)))"
      by (simp only: dev_task_aws_def dev_bundle_def aws.simps RenderedSecretBundle.simps)
  qed (simp_all only: plain_reads_own dev_task_def dev_task_aws_def dev_client_def dev_tools_def process.simps aws.simps
      toolchain.simps secrets_client.simps, auto)
  then show ?thesis by (elim exE conjE) (intro exI)
qed



theorem rendering_restores_environment_witness:
  "snd (render_secret_bundle dev_tools plain_types plain_sources ''dev'' shell) = shell"
  by (rule rendering_restores_environment) (use shell_proper in \<open>simp_all add: latin_text dev_values dev_aws_def\<close>)

end
