(* ===== verification/Sync_Cli.thy ===== *)
theory Sync_Cli
  imports Sync
begin

text \<open>
  The command line of \<open>ci-cd/sync_secret.py\<close>: the options of its argument parser (\<open>argparse\<close> as of Python 3.11, the oldest the
  project supports, without the texts of usage and help; a value that is itself \<open>--\<close> is taken literally), the files of a dry run, and \<open>main\<close>.
  Files and streams are parameters that may fail.
\<close>

section \<open>Arguments\<close>

datatype cli_option = OptHelp | OptEnv | OptDryRun | OptSync | OptOutputDir | OptConfigDir

definition OPTIONS :: "(string \<times> cli_option) list" where
  "OPTIONS = [(''-h'', OptHelp), (''--help'', OptHelp), (''--env'', OptEnv), (''--dry-run'', OptDryRun), (''--sync'', OptSync),
     (''--output-dir'', OptOutputDir), (''--config-dir'', OptConfigDir)]"

definition ENVIRONMENTS :: "string list" where
  "ENVIRONMENTS = [''dev'', ''preprod'', ''prod'']"

text \<open>
  A word of the command line: an argument, the separator \<open>--\<close>, an option that nothing declares, a declared option with the
  text behind its \<open>=\<close>, or \<open>-h\<close> with what is written behind it.
\<close>

datatype cli_word = Plain string | Separator | Unknown | Long cli_option "string option" | ShortHelp string

definition negative_number :: "string \<Rightarrow> bool" where
  "negative_number s = (case s of [] \<Rightarrow> False | c # t \<Rightarrow>
     (let u = (if t \<noteq> [] \<and> last t = CHR 0x0A then butlast t else t);
          whole = takeWhile is_digit u; rest = dropWhile is_digit u
      in c = CHR ''-'' \<and> (if rest = [] then whole \<noteq> []
           else hd rest = CHR ''.'' \<and> tl rest \<noteq> [] \<and> list_all is_digit (tl rest))))"

text \<open>A declared name in full or, for a long option, abbreviated; \<open>None\<close> stands for an ambiguous abbreviation.\<close>

definition declared_word :: "string \<Rightarrow> cli_word option" where
  "declared_word s =
     (let name = takeWhile (\<lambda>c. c \<noteq> CHR ''='') s; explicit = drop 1 (dropWhile (\<lambda>c. c \<noteq> CHR ''='') s);
          given = (if CHR ''='' \<in> set s then Some explicit else None)
      in if name = ''-h'' then Some (case given of None \<Rightarrow> Long OptHelp None | Some t \<Rightarrow> ShortHelp t)
         else (case map_of OPTIONS name of
             Some opt \<Rightarrow> Some (Long opt given)
           | None \<Rightarrow>
               if startswith s ''--''
               then (case filter (\<lambda>(n, opt). startswith n name) OPTIONS of
                   [] \<Rightarrow> Some (if negative_number s \<or> CHR '' '' \<in> set s then Plain s else Unknown)
                 | [(n, opt)] \<Rightarrow> Some (Long opt given)
                 | _ \<Rightarrow> None)
               else if startswith s ''-h'' then Some (ShortHelp (drop 2 s))
               else Some (if negative_number s \<or> CHR '' '' \<in> set s then Plain s else Unknown)))"

fun classify_words :: "string list \<Rightarrow> cli_word list option" where
  "classify_words [] = Some []"
| "classify_words (s # rest) =
     (if s = ''--'' then Some (Separator # map Plain rest)
      else (case (if \<not> startswith s ''-'' \<or> s = ''-'' then Some (Plain s) else declared_word s) of
          None \<Rightarrow> None
        | Some word \<Rightarrow> (case classify_words rest of None \<Rightarrow> None | Some words \<Rightarrow> Some (word # words))))"

text \<open>\<open>str(Path(s))\<close>, and \<open>dir / name\<close> for a plain file name.\<close>

definition py_path :: "string \<Rightarrow> string" where
  "py_path s =
     (let root = (if startswith s ''//'' \<and> \<not> startswith s ''///'' then ''//'' else if startswith s ''/'' then ''/'' else []);
          path = root @ str_join ''/'' (filter (\<lambda>p. p \<noteq> [] \<and> p \<noteq> ''.'') (str_split CHR ''/'' s))
      in if path = [] then ''.'' else path)"

definition path_join :: "string \<Rightarrow> string \<Rightarrow> string" where
  "path_join dir name = (if dir = ''.'' then name else if endswith dir ''/'' then dir @ name else dir @ ''/'' @ name)"

record cli_args =
  arg_env :: "string option"
  arg_dry_run :: bool
  arg_sync :: bool
  arg_output_dir :: "string option"
  arg_config_dir :: "string option"

definition no_args :: cli_args where
  "no_args = \<lparr>arg_env = None, arg_dry_run = False, arg_sync = False, arg_output_dir = None, arg_config_dir = None\<rparr>"

datatype parse_outcome = Parsed cli_args | UsageError | HelpShown

text \<open>What an option with a value stores.\<close>

definition store_value :: "cli_option \<Rightarrow> string \<Rightarrow> cli_args \<Rightarrow> cli_args option" where
  "store_value opt v a = (case opt of
     OptEnv \<Rightarrow> if v \<in> set ENVIRONMENTS then Some (a\<lparr>arg_env := Some v\<rparr>) else None
   | OptOutputDir \<Rightarrow> Some (a\<lparr>arg_output_dir := Some (py_path v)\<rparr>)
   | OptConfigDir \<Rightarrow> Some (a\<lparr>arg_config_dir := Some (py_path v)\<rparr>)
   | _ \<Rightarrow> None)"

text \<open>
  The words in their order. A flag takes no value, the two modes exclude each other, and what is left over is an error at
  the end; help is shown as soon as it is met.
\<close>

fun consume_words :: "bool \<Rightarrow> cli_args \<Rightarrow> cli_word list \<Rightarrow> parse_outcome" where
  "consume_words extras a [] =
     (if arg_env a = None \<or> (\<not> arg_dry_run a \<and> \<not> arg_sync a) \<or> extras then UsageError else Parsed a)"
| "consume_words extras a (Long OptHelp v # rest) = (if v = None then HelpShown else UsageError)"
| "consume_words extras a (ShortHelp v # rest) = (if v \<noteq> [] \<and> list_all (\<lambda>c. c = CHR ''h'') v then HelpShown else UsageError)"
| "consume_words extras a (Long OptDryRun v # rest) =
     (if v \<noteq> None \<or> arg_sync a then UsageError else consume_words extras (a\<lparr>arg_dry_run := True\<rparr>) rest)"
| "consume_words extras a (Long OptSync v # rest) =
     (if v \<noteq> None \<or> arg_dry_run a then UsageError else consume_words extras (a\<lparr>arg_sync := True\<rparr>) rest)"
| "consume_words extras a (Long opt (Some v) # rest) =
     (case store_value opt v a of None \<Rightarrow> UsageError | Some b \<Rightarrow> consume_words extras b rest)"
| "consume_words extras a (Long opt None # Plain v # rest) =
     (case store_value opt v a of None \<Rightarrow> UsageError | Some b \<Rightarrow> consume_words extras b rest)"
| "consume_words extras a (Long opt None # rest) = UsageError"
| "consume_words extras a (Plain v # rest) = consume_words True a rest"
| "consume_words extras a (Separator # rest) = consume_words True a rest"
| "consume_words extras a (Unknown # rest) = consume_words True a rest"

definition parse_args :: "string list \<Rightarrow> parse_outcome" where
  "parse_args argv = (case classify_words argv of None \<Rightarrow> UsageError | Some words \<Rightarrow> consume_words False no_args words)"

section \<open>Outputs and \<open>main\<close>\<close>

record ('x, 'w) cli =
  cli_tools :: "string \<Rightarrow> toolchain"
  cli_types :: settings_types
  cli_sources :: settings_sources
  cli_client :: "'w secrets_client"
  cli_ip_host :: "string \<Rightarrow> bool"
  default_config_dir :: string
  default_output_dir :: string
  make_dirs :: "string \<Rightarrow> ('x, unit) io"
  write_text :: "string \<Rightarrow> string \<Rightarrow> ('x, unit) io"
  print_out :: "string \<Rightarrow> ('x, unit) io"
  print_err :: "string \<Rightarrow> ('x, unit) io"

definition bootstrap_json :: "RenderedSecretBundle \<Rightarrow> dict" where
  "bootstrap_json b = [(''environment'',
     JArr (map (\<lambda>(k, v). JObj [(''name'', JStr k), (''value'', JStr v)]) (bootstrap_environment b)))]"

definition newline :: string where
  "newline = [CHR 0x0A]"

definition write_bootstrap_environment ::
  "('x, 'w) cli \<Rightarrow> toolchain \<Rightarrow> string \<Rightarrow> string \<Rightarrow> RenderedSecretBundle \<Rightarrow> ('x, string) io" where
  "write_bootstrap_environment M E dir path b =
     bindE (make_dirs M dir) (\<lambda>_. bindE (write_text M path (json_dumps E (bootstrap_json b) @ newline)) (\<lambda>_. returnE path))"

definition write_secret_payload ::
  "('x, 'w) cli \<Rightarrow> toolchain \<Rightarrow> string \<Rightarrow> string \<Rightarrow> RenderedSecretBundle \<Rightarrow> ('x, string) io" where
  "write_secret_payload M E dir path b =
     bindE (make_dirs M dir) (\<lambda>_. bindE (write_text M path (secret_string E b @ newline)) (\<lambda>_. returnE path))"

definition bootstrap_path :: "string \<Rightarrow> RenderedSecretBundle \<Rightarrow> string" where
  "bootstrap_path dir b = path_join dir (bundle_environment b @ ''.bootstrap.json'')"

definition secret_path :: "string \<Rightarrow> RenderedSecretBundle \<Rightarrow> string" where
  "secret_path dir b = path_join dir (bundle_environment b @ ''.secret.json'')"

definition write_rendered_files ::
  "('x, 'w) cli \<Rightarrow> toolchain \<Rightarrow> string \<Rightarrow> RenderedSecretBundle \<Rightarrow> ('x, string \<times> string) io" where
  "write_rendered_files M E dir b =
     bindE (write_bootstrap_environment M E dir (bootstrap_path dir b) b)
       (\<lambda>p. bindE (write_secret_payload M E dir (secret_path dir b) b) (\<lambda>q. returnE (p, q)))"

fun print_lines :: "('x, 'w) cli \<Rightarrow> string list \<Rightarrow> ('x, unit) io" where
  "print_lines M [] = returnE ()"
| "print_lines M (t # ts) = bindE (print_out M t) (\<lambda>_. print_lines M ts)"

definition print_dry_run :: "('x, 'w) cli \<Rightarrow> toolchain \<Rightarrow> RenderedSecretBundle \<Rightarrow> ('x, unit) io" where
  "print_dry_run M E b = print_lines M
     [''Dry run: '' @ aws_secret_name (bundle_aws b) @ '' (profile='' @ aws_profile (bundle_aws b) @ '', region=''
        @ aws_region (bundle_aws b) @ '')'',
      ''Secret payload (redacted):'',
      json_dumps E (sort_key fst (redacted_app_secret (cli_ip_host M) b)),
      ''ECS bootstrap environment:'',
      json_dumps E (bootstrap_json b)]"

definition dry_run_body :: "('x, 'w) cli \<Rightarrow> toolchain \<Rightarrow> string \<Rightarrow> RenderedSecretBundle \<Rightarrow> ('x, unit) io" where
  "dry_run_body M E dir b =
     bindE (write_rendered_files M E dir b) (\<lambda>(p, q).
       bindE (print_lines M [''Wrote ECS bootstrap environment JSON to '' @ p, ''Wrote Secrets Manager payload JSON to '' @ q])
         (\<lambda>_. print_dry_run M E b))"

definition action_text :: "sync_action \<Rightarrow> string" where
  "action_text a = (case a of Created \<Rightarrow> ''created'' | Updated \<Rightarrow> ''updated'')"

definition sync_report :: "('x, 'w) cli \<Rightarrow> sync_action \<Rightarrow> RenderedSecretBundle \<Rightarrow> ('x, unit) io" where
  "sync_report M action b = print_lines M
     [''Secret '' @ aws_secret_name (bundle_aws b) @ '' '' @ action_text action @ '' in region '' @ aws_region (bundle_aws b),
      ''ECS bootstrap uses AWS_SECRETS_MANAGER_SECRET_ID='' @ aws_secret_name (bundle_aws b)]"

definition aws_error_str :: "aws_error \<Rightarrow> string" where
  "aws_error_str e = (case e of AwsClientError code m \<Rightarrow> m | AwsOther e \<Rightarrow> exn_str e)"

text \<open>How the process ends: with a status, or with an exception that leaves \<open>main\<close>.\<close>

datatype cli_exit = Exits int | Uncaught exn

definition report_error :: "('x, 'w) cli \<Rightarrow> string \<Rightarrow> 'x \<Rightarrow> cli_exit \<times> 'x" where
  "report_error M text x = (case print_err M (''Error: '' @ text) x of (Inl e, x') \<Rightarrow> (Uncaught e, x') | (Inr _, x') \<Rightarrow> (Exits 1, x'))"

definition or_report :: "('x, 'w) cli \<Rightarrow> unit res \<times> 'x \<Rightarrow> cli_exit \<times> 'x" where
  "or_report M rx = (case rx of (Inl e, x) \<Rightarrow> report_error M (exn_str e) x | (Inr _, x) \<Rightarrow> (Exits 0, x))"

definition run_command :: "('x, 'w) cli \<Rightarrow> cli_args \<Rightarrow> 'x \<times> process \<times> 'w \<Rightarrow> cli_exit \<times> 'x \<times> process \<times> 'w" where
  "run_command M a st = (case st of (x, p, w) \<Rightarrow>
     let E = cli_tools M (case arg_config_dir a of None \<Rightarrow> default_config_dir M | Some d \<Rightarrow> d) in
     (case render_secret_bundle E (cli_types M) (cli_sources M) (or_empty (arg_env a)) p of
        (Inl e, p1) \<Rightarrow> (case report_error M (exn_str e) x of (out, x1) \<Rightarrow> (out, x1, p1, w))
      | (Inr b, p1) \<Rightarrow>
          if arg_dry_run a
          then (case or_report M (dry_run_body M E (case arg_output_dir a of None \<Rightarrow> default_output_dir M | Some d \<Rightarrow> d) b x) of
              (out, x1) \<Rightarrow> (out, x1, p1, w))
          else (case sync_secret_bundle E (cli_client M) b w of
              (Inl e, w1) \<Rightarrow> (case report_error M (aws_error_str e) x of (out, x1) \<Rightarrow> (out, x1, p1, w1))
            | (Inr action, w1) \<Rightarrow> (case or_report M (sync_report M action b x) of (out, x1) \<Rightarrow> (out, x1, p1, w1)))))"

definition sync_main :: "('x, 'w) cli \<Rightarrow> string list \<Rightarrow> 'x \<times> process \<times> 'w \<Rightarrow> cli_exit \<times> 'x \<times> process \<times> 'w" where
  "sync_main M argv st =
     (case parse_args argv of
        UsageError \<Rightarrow> (Exits 2, st)
      | HelpShown \<Rightarrow> (Exits 0, st)
      | Parsed a \<Rightarrow> if arg_sync a \<and> arg_output_dir a \<noteq> None then (Exits 2, st) else run_command M a st)"

section \<open>Lemmas\<close>

definition args_ok :: "cli_args \<Rightarrow> bool" where
  "args_ok a \<longleftrightarrow> (\<forall>v. arg_env a = Some v \<longrightarrow> v \<in> set ENVIRONMENTS) \<and> \<not> (arg_dry_run a \<and> arg_sync a)"

lemma store_value_ok: "store_value opt v a = Some b \<Longrightarrow> args_ok a \<Longrightarrow> args_ok b"
  by (auto simp: store_value_def args_ok_def split: cli_option.splits if_splits)

lemma mode_ok:
  "args_ok a \<Longrightarrow> \<not> arg_sync a \<Longrightarrow> args_ok (a\<lparr>arg_dry_run := True\<rparr>)"
  "args_ok a \<Longrightarrow> \<not> arg_dry_run a \<Longrightarrow> args_ok (a\<lparr>arg_sync := True\<rparr>)"
  by (simp_all add: args_ok_def)

lemma consume_words_ok:
  "consume_words extras a ws = Parsed b \<Longrightarrow> args_ok a
    \<Longrightarrow> \<not> extras \<and> args_ok b \<and> arg_env b \<noteq> None \<and> (arg_dry_run b \<or> arg_sync b)"
proof (induction extras a ws rule: consume_words.induct)
  case (1 extras a)
  then show ?case by (auto split: if_splits)
qed (simp_all add: mode_ok store_value_ok split: if_splits option.splits)

lemma parsed_args:
  assumes "parse_args argv = Parsed a"
  shows "\<exists>v. arg_env a = Some v \<and> v \<in> set ENVIRONMENTS" and "arg_dry_run a \<noteq> arg_sync a"
proof -
  obtain ws where "consume_words False no_args ws = Parsed a"
    using assms by (auto simp: parse_args_def split: option.splits)
  then have "args_ok a \<and> arg_env a \<noteq> None \<and> (arg_dry_run a \<or> arg_sync a)"
    using consume_words_ok [of False no_args ws a] by (simp add: args_ok_def no_args_def)
  then show "\<exists>v. arg_env a = Some v \<and> v \<in> set ENVIRONMENTS" "arg_dry_run a \<noteq> arg_sync a"
    by (auto simp: args_ok_def)
qed

text \<open>Writing and printing, for a host that keeps the files it is given.\<close>

definition keeps_files :: "('x, 'w) cli \<Rightarrow> ('x \<Rightarrow> string \<Rightarrow> string option) \<Rightarrow> bool" where
  "keeps_files M file \<longleftrightarrow>
     (\<forall>path t x x'. write_text M path t x = (Inr (), x') \<longrightarrow> file x' = (file x)(path \<mapsto> t))
     \<and> (\<forall>dir x r x'. make_dirs M dir x = (r, x') \<longrightarrow> file x' = file x)
     \<and> (\<forall>t x r x'. print_out M t x = (r, x') \<longrightarrow> file x' = file x)"

lemma print_lines_files:
  assumes "keeps_files M file"
  shows "print_lines M ts x = (r, x') \<Longrightarrow> file x' = file x"
proof (induction ts arbitrary: x)
  case Nil
  then show ?case by simp
next
  case (Cons t ts)
  obtain r1 x1 where t: "print_out M t x = (r1, x1)" by fastforce
  then have "file x1 = file x" using assms unfolding keeps_files_def by blast
  then show ?case using Cons t by (cases r1) (auto simp: bindE_def)
qed

lemma paths_differ: "bootstrap_path dir b \<noteq> secret_path dir b"
  by (simp add: bootstrap_path_def secret_path_def path_join_def)

lemma print_both_files:
  assumes "keeps_files M file" and "bindE (print_lines M ts) (\<lambda>_. print_lines M us) x = (r, x')"
  shows "file x' = file x"
proof -
  obtain r1 x1 where t: "print_lines M ts x = (r1, x1)" by fastforce
  then have "file x1 = file x" by (rule print_lines_files [OF assms(1)])
  then show ?thesis using assms(2) t print_lines_files [OF assms(1), of us x1 r x'] by (cases r1) (auto simp: bindE_def)
qed

lemma dry_run_files:
  assumes keep: "keeps_files M file" and run: "dry_run_body M E dir b x = (Inr (), x')"
  shows "file x' = (file x)(bootstrap_path dir b \<mapsto> json_dumps E (bootstrap_json b) @ newline,
    secret_path dir b \<mapsto> secret_string E b @ newline)"
proof -
  note k = keep [unfolded keeps_files_def]
  obtain x1 x2 x3 x4 where w: "make_dirs M dir x = (Inr (), x1)"
      "write_text M (bootstrap_path dir b) (json_dumps E (bootstrap_json b) @ newline) x1 = (Inr (), x2)"
      "make_dirs M dir x2 = (Inr (), x3)" "write_text M (secret_path dir b) (secret_string E b @ newline) x3 = (Inr (), x4)"
    and p: "bindE (print_lines M [''Wrote ECS bootstrap environment JSON to '' @ bootstrap_path dir b,
        ''Wrote Secrets Manager payload JSON to '' @ secret_path dir b]) (\<lambda>_. print_dry_run M E b) x4 = (Inr (), x')"
    using run by (auto simp: dry_run_body_def write_rendered_files_def write_bootstrap_environment_def write_secret_payload_def
        bindE_def simp del: print_lines.simps split: prod.splits sum.splits)
  have "file x' = file x4"
    by (rule print_both_files [OF keep p [unfolded print_dry_run_def]])
  moreover have "file x4 = (file x3)(secret_path dir b \<mapsto> secret_string E b @ newline)"
    "file x2 = (file x1)(bootstrap_path dir b \<mapsto> json_dumps E (bootstrap_json b) @ newline)" "file x1 = file x" "file x3 = file x2"
    using k w by blast+
  ultimately show ?thesis by simp
qed

lemma reported: "report_error M t x = (out, x') \<Longrightarrow> out \<noteq> Exits 0 \<and> out \<noteq> Exits 2"
  by (auto simp: report_error_def split: prod.splits sum.splits)

lemma or_reported: "or_report M rx = (Exits 0, x') \<Longrightarrow> rx = (Inr (), x')"
  by (auto simp: or_report_def split: prod.splits sum.splits dest: reported)

lemma or_reported_2: "or_report M rx = (out, x') \<Longrightarrow> out \<noteq> Exits 2"
  by (auto simp: or_report_def split: prod.splits sum.splits dest: reported)

definition tools_of :: "('x, 'w) cli \<Rightarrow> cli_args \<Rightarrow> toolchain" where
  "tools_of M a = cli_tools M (case arg_config_dir a of None \<Rightarrow> default_config_dir M | Some d \<Rightarrow> d)"

definition output_of :: "('x, 'w) cli \<Rightarrow> cli_args \<Rightarrow> string" where
  "output_of M a = (case arg_output_dir a of None \<Rightarrow> default_output_dir M | Some d \<Rightarrow> d)"

lemma run_command_cases:
  assumes "run_command M a (x, p, w) = (out, x', p', w')"
  obtains (invalid) e where "render_secret_bundle (tools_of M a) (cli_types M) (cli_sources M) (or_empty (arg_env a)) p = (Inl e, p')"
      "report_error M (exn_str e) x = (out, x')" "w' = w"
  | (dry) b where "render_secret_bundle (tools_of M a) (cli_types M) (cli_sources M) (or_empty (arg_env a)) p = (Inr b, p')"
      "arg_dry_run a" "or_report M (dry_run_body M (tools_of M a) (output_of M a) b x) = (out, x')" "w' = w"
  | (unsynced) b e where "render_secret_bundle (tools_of M a) (cli_types M) (cli_sources M) (or_empty (arg_env a)) p = (Inr b, p')"
      "\<not> arg_dry_run a" "sync_secret_bundle (tools_of M a) (cli_client M) b w = (Inl e, w')"
      "report_error M (aws_error_str e) x = (out, x')"
  | (synced) b action where "render_secret_bundle (tools_of M a) (cli_types M) (cli_sources M) (or_empty (arg_env a)) p = (Inr b, p')"
      "\<not> arg_dry_run a" "sync_secret_bundle (tools_of M a) (cli_client M) b w = (Inr action, w')"
      "or_report M (sync_report M action b x) = (out, x')"
proof -
  obtain r p1 where r: "render_secret_bundle (tools_of M a) (cli_types M) (cli_sources M) (or_empty (arg_env a)) p = (r, p1)" by fastforce
  note run = assms [unfolded run_command_def Let_def tools_of_def [symmetric] output_of_def [symmetric] prod.case r]
  show ?thesis
  proof (cases r)
    case (Inl e)
    then show ?thesis using run r invalid [of e] by (auto split: prod.splits)
  next
    case (Inr b)
    show ?thesis
    proof (cases "arg_dry_run a")
      case True
      then show ?thesis using run r Inr dry [of b] by (auto split: prod.splits)
    next
      case False
      then show ?thesis using run r Inr unsynced [of b] synced [of b] by (auto split: prod.splits sum.splits)
    qed
  qed
qed

section \<open>Properties\<close>

text \<open>
  C22. AWS is only touched to sync: whatever the command line, the files and the backends, the state of Secrets Manager stays as it
  is, or the command line asked for a sync of a known environment without review files, that environment's
  configuration has been rendered and validated, and the change is the one of synchronising it.
\<close>

theorem aws_touched_only_by_sync:
  "\<exists>out x' p' w'. sync_main M argv (x, p, w) = (out, x', p', w') \<and>
    (w' = w \<or> (\<exists>a env b. parse_args argv = Parsed a \<and> arg_env a = Some env \<and> env \<in> set ENVIRONMENTS
      \<and> arg_sync a \<and> \<not> arg_dry_run a \<and> arg_output_dir a = None
      \<and> render_secret_bundle (tools_of M a) (cli_types M) (cli_sources M) env p = (Inr b, p')
      \<and> w' = snd (sync_secret_bundle (tools_of M a) (cli_client M) b w)))"
proof (cases "parse_args argv")
  case (Parsed a)
  obtain env where env: "arg_env a = Some env" "env \<in> set ENVIRONMENTS" using parsed_args(1) [OF Parsed] by blast
  show ?thesis
  proof (cases "arg_sync a \<and> arg_output_dir a \<noteq> None")
    case True
    then show ?thesis by (simp add: sync_main_def Parsed)
  next
    case False
    obtain out x' p' w' where run: "run_command M a (x, p, w) = (out, x', p', w')" by (rule prod_cases4)
    then have m: "sync_main M argv (x, p, w) = (out, x', p', w')" by (simp only: sync_main_def Parsed parse_outcome.case if_not_P [OF False] if_False)
    have mode: "arg_sync a \<and> \<not> arg_dry_run a \<and> arg_output_dir a = None" if "\<not> arg_dry_run a"
      using that False parsed_args(2) [OF Parsed] by auto
    from run have "w' = w \<or> (\<exists>b. render_secret_bundle (tools_of M a) (cli_types M) (cli_sources M) env p = (Inr b, p')
        \<and> \<not> arg_dry_run a \<and> w' = snd (sync_secret_bundle (tools_of M a) (cli_client M) b w))"
      by (cases rule: run_command_cases) (simp_all add: env(1) or_empty_def)
    then show ?thesis using m Parsed env mode by blast
  qed
qed (simp_all add: sync_main_def)

text \<open>
  C21. The exit status tells the truth: status 2 changes nothing, and status 0 means that help was asked for or that the command has
  done its work: a dry run has left the rendered bootstrap environment and the exact secret body in the two review
  files and AWS alone, and a sync has stored the secret.
\<close>

theorem exit_status_honest:
  assumes keep: "keeps_files M file" and run: "sync_main M argv (x, p, w) = (Exits n, x', p', w')"
  shows "(n = 2 \<longrightarrow> (x', p', w') = (x, p, w)) \<and>
    (n = 0 \<longrightarrow> parse_args argv = HelpShown \<or> (\<exists>a b. parse_args argv = Parsed a
      \<and> render_secret_bundle (tools_of M a) (cli_types M) (cli_sources M) (or_empty (arg_env a)) p = (Inr b, p')
      \<and> (if arg_dry_run a
         then w' = w \<and> file x' = (file x)(bootstrap_path (output_of M a) b \<mapsto> json_dumps (tools_of M a) (bootstrap_json b) @ newline,
           secret_path (output_of M a) b \<mapsto> secret_string (tools_of M a) b @ newline)
         else \<exists>action. sync_secret_bundle (tools_of M a) (cli_client M) b w = (Inr action, w'))))"
proof (cases "parse_args argv")
  case (Parsed a)
  show ?thesis
  proof (cases "arg_sync a \<and> arg_output_dir a \<noteq> None")
    case True
    then show ?thesis using run by (simp add: sync_main_def Parsed)
  next
    case False
    then have "run_command M a (x, p, w) = (Exits n, x', p', w')" using run by (simp only: sync_main_def Parsed parse_outcome.case if_not_P [OF False] if_False)
    then show ?thesis
    proof (cases rule: run_command_cases)
      case (invalid e)
      then show ?thesis using reported [OF invalid(2)] by simp
    next
      case (dry b)
      have "file x' = (file x)(bootstrap_path (output_of M a) b \<mapsto> json_dumps (tools_of M a) (bootstrap_json b) @ newline,
           secret_path (output_of M a) b \<mapsto> secret_string (tools_of M a) b @ newline)" if "n = 0"
        using dry_run_files [OF keep or_reported [OF dry(3) [unfolded that]]] .
      then show ?thesis using dry Parsed or_reported_2 [OF dry(3)] by auto
    next
      case (unsynced b e)
      then show ?thesis using reported [OF unsynced(4)] by simp
    next
      case (synced b action)
      then show ?thesis using Parsed or_reported_2 [OF synced(4)] by auto
    qed
  qed
qed (use run in \<open>simp_all add: sync_main_def\<close>)

definition memory_cli :: "(string \<Rightarrow> string option, string \<Rightarrow> string option) cli" where
  "memory_cli = \<lparr>cli_tools = (\<lambda>_. dev_tools), cli_types = plain_types, cli_sources = plain_sources, cli_client = dev_client,
     cli_ip_host = (\<lambda>_. False), default_config_dir = ''secrets'', default_output_dir = ''build'', make_dirs = (\<lambda>_ x. (Inr (), x)),
     write_text = (\<lambda>path t x. (Inr (), x(path \<mapsto> t))), print_out = (\<lambda>_ x. (Inr (), x)), print_err = (\<lambda>_ x. (Inr (), x))\<rparr>"

lemma review_args: "parse_args [''--env=dev'', ''--dry'', ''--output-dir'', ''out/'']
    = Parsed \<lparr>arg_env = Some ''dev'', arg_dry_run = True, arg_sync = False, arg_output_dir = Some ''out'', arg_config_dir = None\<rparr>"
  by code_simp

theorem exit_status_honest_witness:
  "\<exists>x'. sync_main memory_cli [''--env=dev'', ''--dry'', ''--output-dir'', ''out/''] (Map.empty, shell, Map.empty) = (Exits 0, x', shell, Map.empty)
    \<and> x' ''out/dev.secret.json'' = Some (secret_string dev_tools dev_bundle @ newline)"
proof -
  obtain x' where run: "sync_main memory_cli [''--env=dev'', ''--dry'', ''--output-dir'', ''out/''] (Map.empty, shell, Map.empty)
      = (Exits 0, x', shell, Map.empty)"
    by (simp add: sync_main_def review_args run_command_def memory_cli_def dev_renders or_empty_def dry_run_body_def write_rendered_files_def
        write_bootstrap_environment_def write_secret_payload_def print_dry_run_def bindE_def or_report_def)
  have keep: "keeps_files memory_cli (\<lambda>x. x)" by (simp add: keeps_files_def memory_cli_def)
  have "path_join ''out'' (bundle_environment dev_bundle @ ''.secret.json'') = ''out/dev.secret.json''"
    by (simp add: path_join_def dev_bundle_def endswith_def startswith_def)
  then show ?thesis
    using run exit_status_honest [OF keep run]
    by (simp add: review_args dev_renders memory_cli_def or_empty_def tools_of_def output_of_def secret_path_def)
qed

end
