(* ===== verification/App.thy ===== *)
theory App
  imports Producer Handshake Logging
begin

text \<open>
  The application factory and the probes of \<open>transport/app.py\<close>. A FastAPI application is what the code registers with it: its
  documentation URLs, root path and routes, and the dependencies that the middleware, the probes and the WebSocket
  endpoint close over. Which handler FastAPI calls for a request is not modelled, except that the route of the endpoint
  is matched as a regular expression.
\<close>

section \<open>The application\<close>

text \<open>The keyword arguments of \<open>create_app\<close>; of the shared objects, whether they are given.\<close>

record web_params =
  wp_auth :: "jwt_bearer option"
  wp_has_guard :: bool
  wp_has_client :: bool
  wp_redis_url :: string
  wp_redis_username :: "string option"
  wp_redis_password :: "string option"
  wp_redis_ssl_check_hostname :: bool
  wp_redis_max_connections :: int
  wp_has_producer :: bool
  wp_max_connections :: int
  wp_refresh_interval_sec :: rat
  wp_log_error_frames :: bool
  wp_slow_threshold_ms :: rat
  wp_enable_docs :: bool

definition APP_TITLE :: string where
  "APP_TITLE = ''Realtime Transcribe Service''"

record fastapi_app =
  fa_title :: string
  fa_docs_url :: "string option"
  fa_redoc_url :: "string option"
  fa_openapi_url :: "string option"
  fa_root_path :: string
  fa_get_routes :: "string list"
  fa_ws_routes :: "string list"
  fa_params :: web_params

definition create_transport_fastapi_app :: "web_params \<Rightarrow> string \<Rightarrow> fastapi_app" where
  "create_transport_fastapi_app P openapi_root_path =
     \<lparr>fa_title = APP_TITLE,
      fa_docs_url = (if wp_enable_docs P then Some ''/docs'' else None),
      fa_redoc_url = (if wp_enable_docs P then Some ''/redoc'' else None),
      fa_openapi_url = (if wp_enable_docs P then Some ''/openapi.json'' else None),
      fa_root_path = openapi_root_path, fa_get_routes = [''/health'', ''/ready''], fa_ws_routes = [WS_PATH], fa_params = P\<rparr>"

datatype asgi_app = Unmounted fastapi_app | Mounted string fastapi_app

definition create_app :: "web_params \<Rightarrow> string \<Rightarrow> asgi_app res" where
  "create_app P url_path_prefix =
     (case normalize_url_path_prefix_str url_path_prefix of
        Inl e \<Rightarrow> Inl e
      | Inr mount_path \<Rightarrow>
          (let inner = create_transport_fastapi_app P mount_path
           in Inr (if mount_path = [] then Unmounted inner else Mounted mount_path inner)))"

fun served_app :: "asgi_app \<Rightarrow> fastapi_app" where
  "served_app (Unmounted a) = a"
| "served_app (Mounted _ a) = a"

text \<open>The paths at which an application answers, from outside.\<close>

fun served_at :: "asgi_app \<Rightarrow> string \<Rightarrow> string" where
  "served_at (Unmounted a) path = path"
| "served_at (Mounted mount a) path = mount @ path"

section \<open>Probes\<close>

definition health :: dict where
  "health = [(''status'', JStr ''ok'')]"

text \<open>The Redis part of \<open>/ready\<close>: a client of its own when none is shared, closed again whatever the ping says.\<close>

definition ready_redis :: "'w redis_client \<Rightarrow> web_params \<Rightarrow> 'w \<Rightarrow> string list \<times> 'w" where
  "ready_redis C P w =
     (if \<not> wp_has_client P \<and> wp_redis_url P = [] then ([], w)
      else (case (if wp_has_client P then Inr () else create_async_redis_client C (wp_redis_url P) (wp_redis_username P)
                (wp_redis_password P) (wp_redis_ssl_check_hostname P) True (wp_redis_max_connections P)) of
          Inl _ \<Rightarrow> ([''redis:connection_failed''], w)
        | Inr _ \<Rightarrow> (case ping C w of (r, w1) \<Rightarrow>
            (if is_error r then [''redis:connection_failed''] else [],
             if wp_has_client P then w1 else snd (aclose C w1)))))"

definition ready_kafka :: "'k aiokafka \<Rightarrow> web_params \<Rightarrow> kafka_producer \<times> 'k \<Rightarrow> string list \<times> (kafka_producer \<times> 'k)" where
  "ready_kafka A P pk =
     (if wp_has_producer P
      then (case ensure_ready A pk of (Inl e, pk1) \<Rightarrow> ([''kafka:'' @ exn_str e], pk1) | (Inr _, pk1) \<Rightarrow> ([], pk1))
      else ([], pk))"

definition ready :: "'w redis_client \<Rightarrow> 'k aiokafka \<Rightarrow> web_params \<Rightarrow> 'w \<times> kafka_producer \<times> 'k
    \<Rightarrow> (int \<times> dict) \<times> ('w \<times> kafka_producer \<times> 'k)" where
  "ready C A P st = (case st of (w, pk) \<Rightarrow>
     (case ready_redis C P w of (redis_errors, w1) \<Rightarrow> (case ready_kafka A P pk of (kafka_errors, pk1) \<Rightarrow>
       (let errors = redis_errors @ kafka_errors in
        (if errors \<noteq> [] then (503, [(''status'', JStr ''not_ready''), (''errors'', JArr (map JStr errors))])
         else (200, [(''status'', JStr ''ready'')]), (w1, pk1))))))"

section \<open>What the guard covers\<close>

text \<open>\<open>re.match\<close> of the pattern \<open>^path$\<close> of a path without parameters: the dollar sign also matches before a final newline.\<close>

definition route_matches :: "string \<Rightarrow> string \<Rightarrow> bool" where
  "route_matches path s \<longleftrightarrow> s = path \<or> s = path @ [CHR 0x0A]"

text \<open>The path below the mount point, which the router compares with its routes.\<close>

definition below_mount :: "ws_scope \<Rightarrow> string" where
  "below_mount scope = drop (length (sc_root_path scope)) (sc_path scope)"

definition request_at :: "string \<Rightarrow> string \<Rightarrow> ws_scope \<Rightarrow> ws_scope" where
  "request_at mount path scope = scope\<lparr>sc_type := ''websocket'', sc_path := mount @ path, sc_root_path := mount\<rparr>"

lemma below_request_at [simp]: "below_mount (request_at mount path scope) = path"
  by (simp add: below_mount_def request_at_def)

lemma normalize_request_at: "path \<noteq> [] \<Longrightarrow> normalize_ws_path (request_at mount path scope) = path"
  by (auto simp: normalize_ws_path_def request_at_def)

lemma created_app:
  assumes "create_app P url_path_prefix = Inr app"
  obtains mount where "normalize_url_path_prefix_str url_path_prefix = Inr mount"
    "served_app app = create_transport_fastapi_app P mount" "\<And>path. served_at app path = mount @ path"
  using assms by (auto simp: create_app_def Let_def split: sum.splits if_splits)

section \<open>Properties\<close>

text \<open>
  The application of an accepted prefix: every route is found below the prefix, documentation is off unless enabled, and the
  guard checks a WebSocket request below the mount point exactly when its path there is the one of the endpoint.
\<close>

theorem application_guards_its_endpoint:
  assumes "create_app P url_path_prefix = Inr app" and "path \<noteq> []"
  shows "served_at app path = fa_root_path (served_app app) @ path
    \<and> WS_PATH \<in> set (fa_ws_routes (served_app app))
    \<and> (fa_openapi_url (served_app app) = None \<longleftrightarrow> \<not> wp_enable_docs P)
    \<and> (normalize_ws_path (request_at (fa_root_path (served_app app)) path scope) = WS_PATH \<longleftrightarrow> path = WS_PATH)"
proof -
  obtain mount where app: "served_app app = create_transport_fastapi_app P mount" "\<And>path. served_at app path = mount @ path"
    using created_app [OF assms(1)] by blast
  show ?thesis
    unfolding app using normalize_request_at [OF assms(2)] by (simp add: create_transport_fastapi_app_def)
qed

text \<open>
  The readiness probe answers 200 exactly when every dependency it was given is reachable, with the exact list of
  what is not otherwise; the state of the dependencies is that of the checks themselves.
\<close>

theorem ready_answers:
  assumes "wp_has_client P" and "wp_has_producer P"
    and "ping C w = (rr, w1)" and "ensure_ready A pk = (kr, pk1)" and "ready C A P (w, pk) = ((http, body), st)"
  shows "st = (w1, pk1) \<and> (http = 200 \<longleftrightarrow> \<not> is_error rr \<and> \<not> is_error kr) \<and> http \<in> {200, 503}
    \<and> (http = 503 \<longrightarrow> dict_get body ''errors'' = JArr (map JStr
        ((if is_error rr then [''redis:connection_failed''] else [])
         @ (case kr of Inl e \<Rightarrow> [''kafka:'' @ exn_str e] | Inr _ \<Rightarrow> []))))"
  using assms by (cases rr; cases kr) (auto simp: ready_def ready_redis_def ready_kafka_def dict_get_def)

text \<open>
  A request whose path is the endpoint's with a newline (sent as \<open>%0A\<close>) behind it matches the route but not the guard: it is
  forwarded without any check, draining or not, over the limit or not, whatever the authentication says, and
  without a claim of the conversation.
\<close>

theorem trailing_newline_bypasses_guard:
  "route_matches WS_PATH (below_mount (request_at mount (WS_PATH @ [CHR 0x0A]) scope))
    \<and> ws_guard_call utf8 (recording app) J cfg drains active now tok (request_at mount (WS_PATH @ [CHR 0x0A]) scope) ([], g)
      = (fst (app (request_at mount (WS_PATH @ [CHR 0x0A]) scope) g), [Forwarded (request_at mount (WS_PATH @ [CHR 0x0A]) scope)],
         snd (app (request_at mount (WS_PATH @ [CHR 0x0A]) scope) g))"
proof -
  have "normalize_ws_path (request_at mount (WS_PATH @ [CHR 0x0A]) scope) \<noteq> WS_PATH"
    by (subst normalize_request_at) simp_all
  then show ?thesis
    by (simp add: route_matches_def ws_guard_call_def)
qed

end
