(* ===== verification/Runtime.thy ===== *)
theory Runtime
  imports Delivery App Secrets
begin

text \<open>
  The process: \<open>service_runtime.py\<close>, \<open>redis/runtime.py\<close>, \<open>producer/runtime.py\<close>, the startup checks, shutdown and
  \<open>run\<close> of \<open>main.py\<close>. The components are built from the settings as the code
  does; what is outside (FastAPI, uvicorn, signal handlers, and what a cancelled call leaves behind) is the
  record \<open>host\<close>.
\<close>

section \<open>Wiring\<close>

definition create_shared_redis_client :: "'w redis_client \<Rightarrow> settings \<Rightarrow> unit res" where
  "create_shared_redis_client C s = (case cfg_redis_url s of
     None \<Rightarrow> Inl (AssertionError [])
   | Some url \<Rightarrow> create_async_redis_client C url (cfg_redis_username s) (cfg_redis_password s)
       (cfg_redis_ssl_check_hostname s) True (cfg_redis_max_connections s))"

definition create_sequence_state_machine :: "settings \<Rightarrow> seq_sm res" where
  "create_sequence_state_machine s = (case cfg_redis_url s of
     None \<Rightarrow> Inl (AssertionError [])
   | Some url \<Rightarrow> new_seq_sm (Some url) (cfg_redis_max_connections s) (cfg_redis_username s) (cfg_redis_password s)
       (cfg_redis_ssl_check_hostname s) (cfg_redis_active_ttl_sec s) (cfg_redis_final_ttl_sec s)
       (cfg_redis_sequence_state_key_prefix s) True)"

definition create_ownership_guard :: "settings \<Rightarrow> ownership_guard res" where
  "create_ownership_guard s = (case cfg_redis_url s of
     None \<Rightarrow> Inl (AssertionError [])
   | Some url \<Rightarrow> new_ownership_guard (Some url) (cfg_redis_max_connections s) (cfg_redis_username s) (cfg_redis_password s)
       (cfg_redis_ssl_check_hostname s) (cfg_redis_ownership_guard_ttl_sec s) (cfg_redis_ownership_guard_key_prefix s) True)"

definition create_kafka_producer :: "settings \<Rightarrow> kafka_producer res" where
  "create_kafka_producer s = (case cfg_kafka_bootstrap_servers s of
     None \<Rightarrow> Inl (AssertionError [])
   | Some servers \<Rightarrow>
       (case kafka_connection_for_mode (cfg_kafka_mode s) (cfg_kafka_aws_region s) (cfg_kafka_ssl_ca_file s)
           (cfg_kafka_aws_debug_creds s) of
          Inl e \<Rightarrow> Inl e
        | Inr conn \<Rightarrow> Inr \<lparr>bootstrap = servers, topic = cfg_kafka_topic s, connection = conn,
            compression_type = cfg_kafka_compression_type s, send_timeout_sec = cfg_kafka_send_timeout_sec s,
            linger_ms = cfg_kafka_linger_ms s, batch_size = cfg_kafka_batch_size s, producer_set = False\<rparr>))"

text \<open>The configuration of uvicorn, and the application for the shared client, guard and producer.\<close>

record uvicorn_config =
  uv_host :: string
  uv_port :: int
  uv_backlog :: int
  uv_ping_interval :: rat
  uv_ping_timeout :: rat
  uv_log_level :: string

definition build_web_app :: "settings \<Rightarrow> jwt_bearer option \<Rightarrow> asgi_app res" where
  "build_web_app s auth = (case cfg_redis_url s of
     None \<Rightarrow> Inl (AssertionError [])
   | Some url \<Rightarrow> create_app \<lparr>wp_auth = auth, wp_has_guard = True, wp_has_client = True, wp_redis_url = url,
       wp_redis_username = cfg_redis_username s, wp_redis_password = cfg_redis_password s,
       wp_redis_ssl_check_hostname = cfg_redis_ssl_check_hostname s, wp_redis_max_connections = cfg_redis_max_connections s,
       wp_has_producer = True, wp_max_connections = cfg_ws_max_connections s,
       wp_refresh_interval_sec = cfg_ws_ownership_guard_refresh_interval_sec s, wp_log_error_frames = cfg_log_ws_error_frames s,
       wp_slow_threshold_ms = cfg_log_slow_message_threshold_ms s, wp_enable_docs = cfg_http_enable_docs s\<rparr>
       (cfg_url_path_prefix s))"

definition create_uvicorn_server :: "settings \<Rightarrow> uvicorn_config" where
  "create_uvicorn_server s = \<lparr>uv_host = ''0.0.0.0'', uv_port = cfg_http_port s, uv_backlog = cfg_http_backlog s,
     uv_ping_interval = cfg_ws_ping_interval s, uv_ping_timeout = cfg_ws_ping_timeout s, uv_log_level = lower (cfg_log_level s)\<rparr>"

record runtime_bundle =
  rb_sequence :: seq_sm
  rb_guard :: ownership_guard
  rb_producer :: kafka_producer
  rb_shutdown :: GracefulShutdown
  rb_registry :: registry
  rb_app :: asgi_app
  rb_server :: uvicorn_config

section \<open>Creation and teardown\<close>

definition close_sequence :: "'w redis_client \<Rightarrow> seq_sm option \<Rightarrow> ('w, unit) io" where
  "close_sequence C sm w = (case sm of None \<Rightarrow> (Inr (), w)
     | Some s \<Rightarrow> (case sm_close_client C (s, w) of (r, (_, w')) \<Rightarrow> (r, w')))"

definition close_guard :: "'w redis_client \<Rightarrow> ownership_guard option \<Rightarrow> ('w, unit) io" where
  "close_guard C g w = (case g of None \<Rightarrow> (Inr (), w)
     | Some g \<Rightarrow> (case guard_close_client C (g, w) of (r, (_, w')) \<Rightarrow> (r, w')))"

definition close_redis_runtime :: "'w redis_client \<Rightarrow> bool \<Rightarrow> seq_sm option \<Rightarrow> ownership_guard option \<Rightarrow> ('w, unit) io" where
  "close_redis_runtime C has_client sm g =
     bindE (close_sequence C sm) (\<lambda>_. bindE (close_guard C g) (\<lambda>_. if has_client then aclose C else returnE ()))"

text \<open>
  The state of the process around the bundle: Redis, the producer with Kafka, the connections of clients with the
  registry, and the HTTP server.
\<close>

record ('w, 'k, 'u) service =
  redis_side :: 'w
  producer_side :: "kafka_producer \<times> 'k"
  client_side :: "'u \<times> registry"
  server_should_exit :: bool
  server_running :: bool

text \<open>Who finishes first when the startup checks run in parallel, and how the server stops being waited for.\<close>

datatype race = BothFinish | RedisFailsFirst | KafkaFailsFirst

datatype wake = Signalled | ServerDone "unit res"

record ('w, 'k, 'u) host =
  h_redis :: "'w redis_client"
  h_kafka :: "'k aiokafka"
  h_sockets :: "'u socket_ops"
  h_ip_host :: "string \<Rightarrow> bool"
  h_float_str :: "rat \<Rightarrow> string"
  h_assemble :: "unit res"
  h_race :: race
  h_ping_pending :: "'w \<Rightarrow> 'w"
  h_kafka_pending :: "kafka_producer \<times> 'k \<Rightarrow> kafka_producer \<times> 'k"
  h_kafka_in_time :: bool
  h_serving :: "('w, 'k, 'u) service \<Rightarrow> ('w, 'k, 'u) service"
  h_wake :: wake
  h_stop_cut :: "(('w, 'k, 'u) service \<Rightarrow> ('w, 'k, 'u) service) option"
  h_server_end :: "unit res"

text \<open>
  \<open>create_runtime_bundle\<close>. After a failure what exists is closed: the producer has not been started, so its \<open>close\<close>
  does nothing, and the two Redis classes leave the shared client to \<open>close_redis_runtime\<close>.
\<close>

definition create_runtime_bundle :: "('w, 'k, 'u) host \<Rightarrow> settings \<Rightarrow> ('w, runtime_bundle) io" where
  "create_runtime_bundle H s w =
     (let failed = (\<lambda>e has_client sm g. case close_redis_runtime (h_redis H) has_client sm g w of
            (Inl e', w') \<Rightarrow> (Inl e', w') | (Inr _, w') \<Rightarrow> (Inl e, w'))
      in case create_shared_redis_client (h_redis H) s of
           Inl e \<Rightarrow> failed e False None None
         | Inr _ \<Rightarrow> (case create_sequence_state_machine s of
             Inl e \<Rightarrow> failed e True None None
           | Inr sm \<Rightarrow> (case create_ownership_guard s of
               Inl e \<Rightarrow> failed e True (Some sm) None
             | Inr g \<Rightarrow> (case create_kafka_producer s of
                 Inl e \<Rightarrow> failed e True (Some sm) (Some g)
               | Inr p \<Rightarrow> (case h_assemble H of
                   Inl e \<Rightarrow> failed e True (Some sm) (Some g)
                 | Inr _ \<Rightarrow>
                     (case build_web_app s (create_auth_backend (cfg_auth_enabled s) (cfg_auth_jwt_signing_material s)
                         (cfg_auth_jwt_algorithm s)) of
                        Inl e \<Rightarrow> failed e True (Some sm) (Some g)
                      | Inr app \<Rightarrow> (Inr \<lparr>rb_sequence = sm, rb_guard = g, rb_producer = p,
                          rb_shutdown = new_shutdown (cfg_stop_timeout s), rb_registry = empty_registry, rb_app = app,
                          rb_server = create_uvicorn_server s\<rparr>, w)))))))"

definition close_runtime_bundle :: "('w, 'k, 'u) host \<Rightarrow> runtime_bundle \<Rightarrow> (('w, 'k, 'u) service, unit) io" where
  "close_runtime_bundle H b x =
     (case kafka_close (h_kafka H) (producer_side x) of
        (Inl e, pk) \<Rightarrow> (Inl e, x\<lparr>producer_side := pk\<rparr>)
      | (Inr _, pk) \<Rightarrow>
          (case close_redis_runtime (h_redis H) True (Some (rb_sequence b)) (Some (rb_guard b)) (redis_side x) of
             (r, w) \<Rightarrow> (r, x\<lparr>producer_side := pk, redis_side := w\<rparr>)))"

section \<open>Startup checks\<close>

definition redis_unavailable :: "(string \<Rightarrow> bool) \<Rightarrow> settings \<Rightarrow> string \<Rightarrow> string \<Rightarrow> exn" where
  "redis_unavailable ip_host s url error_text =
     RuntimeError (''Redis unavailable: '' @ mask_redis_url ip_host url @ '' - ''
       @ redact_text_for_logs ip_host error_text (cfg_redis_password s))"

text \<open>\<open>_check_redis\<close>: a client of its own is created when none is given, and closed again.\<close>

definition check_redis :: "'w redis_client \<Rightarrow> (string \<Rightarrow> bool) \<Rightarrow> settings \<Rightarrow> bool \<Rightarrow> ('w, unit) io" where
  "check_redis C ip_host s client_given w =
     (case cfg_redis_url s of None \<Rightarrow> (Inl (AssertionError []), w)
      | Some url \<Rightarrow>
          (case (if client_given then Inr () else create_shared_redis_client C s) of
             Inl e \<Rightarrow> (Inl e, w)
           | Inr _ \<Rightarrow>
               (case ping C w of (r, w1) \<Rightarrow>
                 (let outcome = (case r of Inl e \<Rightarrow> Inl (redis_unavailable ip_host s url (exn_str e)) | Inr _ \<Rightarrow> Inr ())
                  in if client_given then (outcome, w1)
                     else (case aclose C w1 of (Inl e, w2) \<Rightarrow> (Inl e, w2) | (Inr _, w2) \<Rightarrow> (outcome, w2))))))"

text \<open>\<open>_check_kafka\<close>: a timeout closes the producer; exceptions of that \<open>close\<close> are only logged.\<close>

definition check_kafka :: "('w, 'k, 'u) host \<Rightarrow> rat \<Rightarrow> (kafka_producer \<times> 'k, unit) io" where
  "check_kafka H timeout pk =
     (case (if h_kafka_in_time H then ensure_ready (h_kafka H) pk else (Inl (TimeoutError []), h_kafka_pending H pk)) of
        (Inl (TimeoutError _), pk1) \<Rightarrow>
          (Inl (RuntimeError (''Kafka unavailable: connection timed out after '' @ h_float_str H timeout @ ''s'')),
           snd (kafka_close (h_kafka H) pk1))
      | (Inl e, pk1) \<Rightarrow> (Inl (RuntimeError (''Kafka unavailable: '' @ exn_str e)), pk1)
      | (Inr _, pk1) \<Rightarrow> (Inr (), pk1))"

text \<open>
  \<open>asyncio.gather\<close> of both: the first exception is raised, and what the other check has done by then is arbitrary.
\<close>

definition startup_checks :: "('w, 'k, 'u) host \<Rightarrow> settings \<Rightarrow> (('w, 'k, 'u) service, unit) io" where
  "startup_checks H s x =
     (case check_redis (h_redis H) (h_ip_host H) s True (redis_side x) of (rr, w) \<Rightarrow>
      (case check_kafka H (cfg_kafka_startup_timeout_sec s) (producer_side x) of (kr, pk) \<Rightarrow>
       (case (h_race H, rr, kr) of
          (RedisFailsFirst, Inl e, _) \<Rightarrow> (Inl e, x\<lparr>redis_side := w, producer_side := h_kafka_pending H (producer_side x)\<rparr>)
        | (KafkaFailsFirst, _, Inl e) \<Rightarrow> (Inl e, x\<lparr>redis_side := h_ping_pending H (redis_side x), producer_side := pk\<rparr>)
        | (_, Inl e, _) \<Rightarrow> (Inl e, x\<lparr>redis_side := w, producer_side := pk\<rparr>)
        | (_, Inr _, Inl e) \<Rightarrow> (Inl e, x\<lparr>redis_side := w, producer_side := pk\<rparr>)
        | (_, Inr _, Inr _) \<Rightarrow> (Inr (), x\<lparr>redis_side := w, producer_side := pk\<rparr>))))"

section \<open>Shutdown and \<open>run\<close>\<close>

definition graceful_stop :: "('w, 'k, 'u) host \<Rightarrow> (('w, 'k, 'u) service, unit) io" where
  "graceful_stop H x =
     (let x1 = x\<lparr>client_side := registry_close_all (h_sockets H) (ws_code GOING_AWAY) ''Going away'' (client_side x)\<rparr> in
      case kafka_flush (h_kafka H) (producer_side x1) of
        (Inl e, pk) \<Rightarrow> (Inl e, x1\<lparr>producer_side := pk\<rparr>)
      | (Inr _, pk) \<Rightarrow>
          (if server_running x1 then h_server_end H else Inr (), x1\<lparr>producer_side := pk, server_should_exit := True, server_running := False\<rparr>))"

text \<open>Under \<open>asyncio.wait_for\<close>: in time, or cut off after some part of it. Then the server is cancelled.\<close>

definition stop_within_timeout :: "('w, 'k, 'u) host \<Rightarrow> (('w, 'k, 'u) service, unit) io" where
  "stop_within_timeout H x =
     (case (case h_stop_cut H of None \<Rightarrow> graceful_stop H x | Some part \<Rightarrow> (Inl (TimeoutError []), part x)) of
        (Inl (TimeoutError _), x1) \<Rightarrow> (Inr (), x1\<lparr>server_should_exit := True, server_running := False\<rparr>)
      | (r, x1) \<Rightarrow> (r, x1))"

definition run_body :: "('w, 'k, 'u) host \<Rightarrow> settings \<Rightarrow> (('w, 'k, 'u) service, unit) io" where
  "run_body H s x =
     (case startup_checks H s x of
        (Inl e, x1) \<Rightarrow> (Inl e, x1)
      | (Inr _, x1) \<Rightarrow>
          (let x2 = h_serving H (x1\<lparr>server_running := True\<rparr>) in
           case h_wake H of
             ServerDone (Inl e) \<Rightarrow> (Inl e, x2\<lparr>server_running := False\<rparr>)
           | ServerDone (Inr _) \<Rightarrow> stop_within_timeout H (x2\<lparr>server_running := False\<rparr>)
           | Signalled \<Rightarrow> stop_within_timeout H x2))"

text \<open>\<open>run\<close>, for the settings of \<open>get_settings\<close>: with the bundle, whatever happens, it is closed at the end.\<close>

definition run :: "('w, 'k, 'u) host \<Rightarrow> settings \<Rightarrow> 'w \<Rightarrow> 'k \<Rightarrow> 'u \<Rightarrow> unit res \<times> (('w, 'k, 'u) service, 'w) sum" where
  "run H s w k u =
     (if cfg_redis_url s = None \<or> cfg_kafka_bootstrap_servers s = None then (Inl (AssertionError []), Inr w)
      else (case create_runtime_bundle H s w of
          (Inl e, w') \<Rightarrow> (Inl e, Inr w')
        | (Inr b, w') \<Rightarrow>
            (case run_body H s \<lparr>redis_side = w', producer_side = (rb_producer b, k), client_side = (u, rb_registry b),
                server_should_exit = False, server_running = False\<rparr> of
              (r, x) \<Rightarrow> (case close_runtime_bundle H b x of
                (Inl e, x') \<Rightarrow> (Inl e, Inl x') | (Inr _, x') \<Rightarrow> (r, Inl x')))))"

section \<open>Lemmas\<close>

lemma strip_infix: "\<exists>a b. s = a @ strip s @ b"
proof -
  have "\<exists>b. lstrip s = strip s @ b"
    unfolding strip_def rstrip_def by (metis rev_append rev_rev_ident takeWhile_dropWhile_id)
  moreover have "\<exists>a. s = a @ lstrip s" unfolding lstrip_def by (metis takeWhile_dropWhile_id)
  ultimately show ?thesis by (metis append_assoc)
qed

lemma normalized_again:
  assumes "normalize_url_path_prefix_str raw = Inr p"
  shows "\<exists>q. normalize_url_path_prefix_str p = Inr q"
proof -
  have ok: "CHR 0x0A \<notin> set (strip raw)" "CHR 0x0D \<notin> set (strip raw)" "\<not> str_in ''..'' (strip raw)" and p: "p = slash_path (strip raw)"
    using assms by (auto simp: normalize_spec split: if_splits)
  have c: "CHR 0x0A \<notin> set p" "CHR 0x0D \<notin> set p" "\<not> str_in ''..'' p"
    using ok slash_path_dots [of "strip raw"] slash_path_members [of "strip raw"] unfolding p by auto
  obtain a b where s: "p = a @ strip p @ b" using strip_infix by blast
  have "set (strip p) \<subseteq> set p" by (subst (2) s) auto
  moreover have "\<not> str_in ''..'' (strip p)" using c(3) unfolding str_in_iff by (metis s append_assoc)
  ultimately show ?thesis using c by (auto simp: normalize_spec)
qed

text \<open>Objects with the shared client leave it alone.\<close>

lemma close_redis_runtime_shared:
  assumes "\<forall>s. sm = Some s \<longrightarrow> client_injected s" and "\<forall>x. g = Some x \<longrightarrow> client_injected x"
  shows "close_redis_runtime C has_client sm g w = (if has_client then aclose C w else (Inr (), w))"
  using assms by (cases sm; cases g) (auto simp: close_redis_runtime_def close_sequence_def close_guard_def bindE_def)

lemma created_injected:
  "create_sequence_state_machine s = Inr sm \<Longrightarrow> client_injected sm"
  "create_ownership_guard s = Inr g \<Longrightarrow> client_injected g"
  by (auto simp: create_sequence_state_machine_def create_ownership_guard_def new_seq_sm_def new_ownership_guard_def
      split: option.splits)

lemma created_producer_idle: "create_kafka_producer s = Inr p \<Longrightarrow> \<not> producer_set p"
  by (auto simp: create_kafka_producer_def split: option.splits sum.splits)

lemma create_runtime_bundle_cases:
  assumes "create_runtime_bundle H s w = (r, w')"
  obtains (no_client) e where "r = Inl e" "w' = w" "create_shared_redis_client (h_redis H) s = Inl e"
  | (failed) e where "r = Inl e" "w' = snd (aclose (h_redis H) w)" "create_shared_redis_client (h_redis H) s = Inr ()"
  | (created) b where "r = Inr b" "w' = w" "client_injected (rb_sequence b)" "client_injected (rb_guard b)"
      "\<not> producer_set (rb_producer b)"
proof (cases "create_shared_redis_client (h_redis H) s")
  case (Inl e)
  then show ?thesis using assms no_client [of e]
    by (simp add: create_runtime_bundle_def close_redis_runtime_shared)
next
  case client: (Inr u)
  have failing: thesis
    if sm: "\<forall>x. sm = Some x \<longrightarrow> client_injected x" and g: "\<forall>x. g = Some x \<longrightarrow> client_injected x"
      and res: "(case close_redis_runtime (h_redis H) True sm g w of
            (Inl e', w') \<Rightarrow> (Inl e', w') | (Inr _, w') \<Rightarrow> (Inl e, w')) = (r, w')" for e sm g
    using res client failed unfolding close_redis_runtime_shared [OF sm g]
    by (cases "aclose (h_redis H) w") (auto split: sum.splits)
  note d = assms [unfolded create_runtime_bundle_def Let_def client sum.case]
  show ?thesis
  proof (cases "create_sequence_state_machine s")
    case (Inl e)
    show ?thesis by (rule failing [of None None e]) (use d Inl in simp_all)
  next
    case sm: (Inr sm)
    show ?thesis
    proof (cases "create_ownership_guard s")
      case (Inl e)
      show ?thesis by (rule failing [of "Some sm" None e]) (use d sm Inl created_injected(1) [OF sm] in simp_all)
    next
      case g: (Inr g)
      note inj = created_injected(1) [OF sm] created_injected(2) [OF g]
      show ?thesis
      proof (cases "create_kafka_producer s")
        case (Inl e)
        show ?thesis by (rule failing [of "Some sm" "Some g" e]) (use d sm g Inl inj in simp_all)
      next
        case p: (Inr p)
        show ?thesis
        proof (cases "h_assemble H")
          case (Inl e)
          show ?thesis by (rule failing [of "Some sm" "Some g" e]) (use d sm g p Inl inj in simp_all)
        next
          case a: (Inr a)
          let ?app = "build_web_app s (create_auth_backend (cfg_auth_enabled s) (cfg_auth_jwt_signing_material s) (cfg_auth_jwt_algorithm s))"
          show ?thesis
          proof (cases ?app)
            case (Inl e)
            show ?thesis by (rule failing [of "Some sm" "Some g" e]) (use d sm g p a Inl inj in simp_all)
          next
            case (Inr app)
            then show ?thesis using d sm g p a inj created_producer_idle [OF p] by (intro created) auto
          qed
        qed
      qed
    qed
  qed
qed

lemma settings_wired:
  assumes "settings_ok s"
  shows "\<exists>sm g p app. create_sequence_state_machine s = Inr sm \<and> create_ownership_guard s = Inr g
    \<and> create_kafka_producer s = Inr p \<and> build_web_app s auth = Inr app
    \<and> (\<forall>w. (\<forall>cid. counter_ok R (sm_key (key_prefix sm) cid) (db w)) \<longrightarrow> sm_ok R db sha (sm, w))
    \<and> guard_ok sha (g, w0) \<and> refresh_interval (wp_refresh_interval_sec (fa_params (served_app app))) < of_int (guard_ttl_sec g)
    \<and> final_ttl sm \<le> active_ttl sm \<and> topic p \<noteq> [] \<and> 0 < send_timeout_sec p"
proof -
  have f: "fields_ok s" "cfg_redis_url s \<noteq> None" "cfg_kafka_bootstrap_servers s \<noteq> None"
    "cfg_redis_final_ttl_sec s \<le> cfg_redis_active_ttl_sec s"
    "cfg_ws_ownership_guard_refresh_interval_sec s < of_int (cfg_redis_ownership_guard_ttl_sec s)"
    "cfg_kafka_mode s = ''aws_msk'' \<longrightarrow> cfg_kafka_aws_region s \<noteq> None"
    using assms unfolding settings_ok_def by blast+
  have v: "0 < cfg_redis_active_ttl_sec s" "0 < cfg_redis_final_ttl_sec s" "0 < cfg_redis_ownership_guard_ttl_sec s"
    "cfg_kafka_mode s = ''local'' \<or> cfg_kafka_mode s = ''aws_msk''" "cfg_kafka_topic s \<noteq> []" "0 < cfg_kafka_send_timeout_sec s"
    using f(1) unfolding fields_ok_def by blast+
  obtain raw where "normalize_url_path_prefix_str raw = Inr (cfg_url_path_prefix s)"
    using f(1) unfolding fields_ok_def by blast
  then obtain q where q: "normalize_url_path_prefix_str (cfg_url_path_prefix s) = Inr q" using normalized_again by blast
  obtain url servers where u: "cfg_redis_url s = Some url" "cfg_kafka_bootstrap_servers s = Some servers" using f(2,3) by blast
  obtain conn where conn: "kafka_connection_for_mode (cfg_kafka_mode s) (cfg_kafka_aws_region s) (cfg_kafka_ssl_ca_file s)
      (cfg_kafka_aws_debug_creds s) = Inr conn"
    using v(4) f(6) by (cases "cfg_kafka_aws_region s") (auto simp: kafka_connection_for_mode_def)
  have "(1 :: rat) \<le> of_int (cfg_redis_ownership_guard_ttl_sec s)" using v(3) by simp
  then have "refresh_interval (cfg_ws_ownership_guard_refresh_interval_sec s) < of_int (cfg_redis_ownership_guard_ttl_sec s)"
    using f(5) by (simp add: refresh_interval_def)
  then show ?thesis
    using v f(4)
    by (simp add: create_sequence_state_machine_def create_ownership_guard_def create_kafka_producer_def build_web_app_def u conn q
        create_app_def create_transport_fastapi_app_def Let_def new_seq_sm_def new_ownership_guard_def sm_ok_def shas_ok_def guard_ok_def guard_shas_ok_def)
qed

section \<open>Properties\<close>


text \<open>
  A service that cannot be assembled does not keep the Redis client: it was never created, or the last thing done with it is
  closing it; an assembled service has not yet talked to Redis or started a producer.
\<close>

theorem failed_creation_closes_client:
  assumes "create_runtime_bundle H s w = (r, w')"
  shows "(\<exists>e. r = Inl e \<and> w' = w \<and> create_shared_redis_client (h_redis H) s = Inl e)
    \<or> (\<exists>e. r = Inl e \<and> w' = snd (aclose (h_redis H) w))
    \<or> (\<exists>b. r = Inr b \<and> w' = w \<and> \<not> producer_set (rb_producer b))"
  using assms by (cases rule: create_runtime_bundle_cases) auto



text \<open>
  The server is only started when Redis has answered a ping and a Kafka producer has been started.
\<close>

theorem serving_needs_dependencies:
  assumes "startup_checks H s x = (Inr (), x')"
  shows "(\<exists>b w. ping (h_redis H) (redis_side x) = (Inr b, w)) \<and> producer_set (fst (producer_side x'))"
proof -
  obtain rr w where c1: "check_redis (h_redis H) (h_ip_host H) s True (redis_side x) = (rr, w)" by fastforce
  obtain kr pk where c2: "check_kafka H (cfg_kafka_startup_timeout_sec s) (producer_side x) = (kr, pk)"
    by (cases "check_kafka H (cfg_kafka_startup_timeout_sec s) (producer_side x)")
  note c = c1 c2
  have r: "rr = Inr ()" "kr = Inr ()" "producer_side x' = pk"
    using assms by (auto simp: startup_checks_def c split: race.splits sum.splits)
  have "\<exists>b w. ping (h_redis H) (redis_side x) = (Inr b, w)"
    using c(1) r(1) by (auto simp: check_redis_def Let_def split: option.splits prod.splits sum.splits)
  have "ensure_ready (h_kafka H) (producer_side x) = (Inr (), pk)"
    using c(2) r(2) by (auto simp: check_kafka_def split: prod.splits sum.splits exn.splits if_splits)
  moreover obtain p0 k0 p1 k1 where s: "producer_side x = (p0, k0)" "pk = (p1, k1)" by (metis prod.exhaust)
  ultimately have "producer_set (fst pk)" unfolding s
    by (auto simp: ensure_ready_def get_producer.simps close_and_raise_def Let_def split: if_splits prod.splits sum.splits)
  then show ?thesis using r(3) \<open>\<exists>b w. ping (h_redis H) (redis_side x) = (Inr b, w)\<close> by simp
qed

text \<open>
  When Redis is not available at startup, the password is not in the part of the raised error that quotes Redis,
  and the quoted URL is masked.
\<close>

theorem startup_error_hides_password:
  assumes "check_redis C ip_host s True w = (Inl e, w')" and "cfg_redis_url s = Some url"
    and "cfg_redis_password s = Some pw" and "pw \<noteq> []" and "CHR ''*'' \<notin> set pw"
  shows "\<exists>quoted. e = RuntimeError (''Redis unavailable: '' @ mask_redis_url ip_host url @ '' - '' @ quoted) \<and> \<not> str_in pw quoted"
proof -
  obtain err where "e = redis_unavailable ip_host s url (exn_str err)"
    using assms(1,2) by (auto simp: check_redis_def Let_def split: prod.splits sum.splits)
  then show ?thesis using redacted_no_secret [OF assms(4,5)] by (auto simp: redis_unavailable_def assms(3))
qed

text \<open>When stopping the producer raises, nothing of Redis is closed.\<close>

theorem producer_failure_keeps_redis:
  assumes "kafka_close (h_kafka H) (producer_side x) = (Inl e, pk)"
  shows "fst (close_runtime_bundle H b x) = Inl e \<and> redis_side (snd (close_runtime_bundle H b x)) = redis_side x"
  by (simp add: close_runtime_bundle_def assms)

section \<open>A run\<close>

definition sample_host :: "(redis_server, kafka_server, nat list) host" where
  "sample_host = \<lparr>h_redis = server_client, h_kafka = server_kafka, h_sockets = quiet_sockets, h_ip_host = (\<lambda>_. False),
     h_float_str = (\<lambda>_. []), h_assemble = Inr (), h_race = BothFinish, h_ping_pending = (\<lambda>w. w), h_kafka_pending = (\<lambda>pk. pk),
     h_kafka_in_time = True, h_serving = (\<lambda>x. x), h_wake = Signalled, h_stop_cut = None, h_server_end = Inr ()\<rparr>"

definition default_settings :: settings where
  "default_settings = projr (validate_settings plain_types Map.empty local_source)"

lemma default_settings_ok: "settings_ok default_settings"
  using validated_ok [of plain_types Map.empty local_source default_settings] local_validates
  by (simp add: default_settings_def)

lemma settings_created:
  assumes "settings_ok s"
  shows "\<exists>sm g p app. create_sequence_state_machine s = Inr sm \<and> create_ownership_guard s = Inr g
    \<and> create_kafka_producer s = Inr p \<and> build_web_app s auth = Inr app"
  using settings_wired [OF assms, where auth = auth and R = clock_redis_ops and db = rs_db and sha = script_sha and ?w0.0 = "()"] by blast

lemma default_created:
  obtains b where "create_runtime_bundle sample_host default_settings w = (Inr b, w)"
    and "cfg_redis_url default_settings \<noteq> None" and "cfg_kafka_bootstrap_servers default_settings \<noteq> None"
proof -
  have u: "cfg_redis_url default_settings \<noteq> None" "cfg_kafka_bootstrap_servers default_settings \<noteq> None"
    using default_settings_ok unfolding settings_ok_def by blast+
  obtain sm g p app where c: "create_sequence_state_machine default_settings = Inr sm" "create_ownership_guard default_settings = Inr g"
    "create_kafka_producer default_settings = Inr p" "build_web_app default_settings (create_auth_backend (cfg_auth_enabled default_settings)
      (cfg_auth_jwt_signing_material default_settings) (cfg_auth_jwt_algorithm default_settings)) = Inr app"
    using settings_created [OF default_settings_ok] by blast
  have "create_shared_redis_client server_client default_settings = Inr ()"
    using u(1) by (auto simp: create_shared_redis_client_def create_async_redis_client_def server_client_def)
  then show ?thesis using that u c by (simp add: create_runtime_bundle_def sample_host_def)
qed

lemma sample_ready: "ensure_ready server_kafka (p, k) = (Inr (), (p\<lparr>producer_set := True\<rparr>, k))"
  by (cases p) (simp add: ensure_ready_def get_producer.simps server_kafka_def)

lemma sample_checks:
  "\<exists>p k. startup_checks sample_host default_settings x = (Inr (), x\<lparr>redis_side := pop_fault (redis_side x), producer_side := (p, k)\<rparr>)"
  if "rs_faults (redis_side x) = []"
proof -
  obtain p k where pk: "producer_side x = (p, k)" by fastforce
  obtain url where "cfg_redis_url default_settings = Some url" using default_created by blast
  then show ?thesis
    using that by (intro exI [of _ "p\<lparr>producer_set := True\<rparr>"] exI [of _ k])
      (simp add: startup_checks_def check_redis_def check_kafka_def sample_host_def server_client_def server_ping_def
        next_fault_def pk sample_ready Let_def)
qed

lemma sample_run:
  obtains x where "run sample_host default_settings (empty_redis []) (empty_kafka []) [] = (Inr (), Inl x)"
proof -
  obtain b where b: "create_runtime_bundle sample_host default_settings (empty_redis []) = (Inr b, empty_redis [])"
    and u: "cfg_redis_url default_settings \<noteq> None" "cfg_kafka_bootstrap_servers default_settings \<noteq> None"
    by (rule default_created)
  have inj: "client_injected (rb_sequence b)" "client_injected (rb_guard b)"
    using b by (cases rule: create_runtime_bundle_cases; auto)+
  define x0 :: "(redis_server, kafka_server, nat list) service" where "x0 = \<lparr>redis_side = empty_redis [], producer_side = (rb_producer b, (empty_kafka [])),
      client_side = ([], rb_registry b), server_should_exit = False, server_running = False\<rparr>"
  obtain p k where c: "startup_checks sample_host default_settings x0 = (Inr (), x0\<lparr>redis_side := pop_fault (redis_side x0), producer_side := (p, k)\<rparr>)"
    using sample_checks [of x0] by (auto simp: x0_def empty_redis_def)
  obtain x1 where body: "run_body sample_host default_settings x0 = (Inr (), x1)"
  proof -
    have "\<exists>x1. run_body sample_host default_settings x0 = (Inr (), x1)"
      unfolding run_body_def c prod.case sum.case Let_def
      by (cases "producer_set p") (simp_all add: sample_host_def stop_within_timeout_def graceful_stop_def Let_def server_kafka_def)
    then show ?thesis using that by blast
  qed
  obtain x2 where "close_runtime_bundle sample_host b x1 = (Inr (), x2)"
  proof -
    obtain p1 k1 where p1: "producer_side x1 = (p1, k1)" by fastforce
    have h: "h_redis sample_host = server_client" "h_kafka sample_host = server_kafka" by (simp_all add: sample_host_def)
    obtain pk where pk: "kafka_close server_kafka (p1, k1) = (Inr (), pk)"
      using that by (cases "producer_set p1") (simp_all add: kafka_close.simps server_kafka_def)
    have cr: "close_redis_runtime server_client True (Some (rb_sequence b)) (Some (rb_guard b)) w = (Inr (), w)" for w
    proof -
      have "aclose server_client w = (Inr (), w)" by (simp add: server_client_def)
      then show ?thesis using inj by (simp add: close_redis_runtime_shared)
    qed
    show ?thesis by (rule that) (simp add: close_runtime_bundle_def h p1 pk cr)
  qed
  then show ?thesis using that b u body by (simp add: run_def x0_def)
qed


theorem failed_creation_closes_client_witness:
  "snd (create_runtime_bundle sample_host default_settings (empty_redis [])) = empty_redis []"
proof -
  obtain b where b: "create_runtime_bundle sample_host default_settings (empty_redis []) = (Inr b, empty_redis [])"
    by (rule default_created)
  show ?thesis using failed_creation_closes_client [OF b] by (simp add: b)
qed



theorem serving_needs_dependencies_witness:
  "\<exists>x x'. startup_checks sample_host default_settings x = (Inr (), x') \<and> producer_set (fst (producer_side x'))"
proof -
  define x0 :: "(redis_server, kafka_server, nat list) service" where "x0 = \<lparr>redis_side = empty_redis [],
      producer_side = (projr (create_kafka_producer default_settings), (empty_kafka [])),
      client_side = ([], empty_registry), server_should_exit = False, server_running = False\<rparr>"
  obtain x' where x': "startup_checks sample_host default_settings x0 = (Inr (), x')"
    using sample_checks [of x0] by (auto simp: x0_def empty_redis_def)
  show ?thesis using serving_needs_dependencies [OF x'] x' by blast
qed

theorem startup_error_hides_password_witness:
  "\<exists>quoted. fst (check_redis server_client (\<lambda>_. False) (default_settings\<lparr>cfg_redis_password := Some ''hunter2''\<rparr>) True (empty_redis [Refused])) =
      Inl (RuntimeError (''Redis unavailable: '' @ mask_redis_url (\<lambda>_. False) (the (cfg_redis_url default_settings)) @ '' - '' @ quoted))
    \<and> \<not> str_in ''hunter2'' quoted"
proof -
  obtain url where url: "cfg_redis_url default_settings = Some url" using default_created by blast
  define s where "s = default_settings\<lparr>cfg_redis_password := Some ''hunter2''\<rparr>"
  obtain e w' where c: "check_redis server_client (\<lambda>_. False) s True (empty_redis [Refused]) = (Inl e, w')"
    by (simp add: check_redis_def s_def url server_client_def server_ping_def empty_redis_def next_fault_def Let_def)
  show ?thesis
    using startup_error_hides_password [OF c, of url "''hunter2''"] c by (auto simp: s_def url)
qed

end
