(* ===== verification/Entry.thy ===== *)
theory Entry
  imports Runtime
begin

text \<open>
  The entry point \<open>main\<close> of \<open>main.py\<close>: the settings are loaded, logging is configured from them, \<open>run\<close> is executed, and
  what it raises becomes the exit status of the process. Python's own answer to an exception that leaves \<open>main\<close> (a traceback
  and status 1) is \<open>Crashed\<close>.
\<close>

section \<open>The server task\<close>

text \<open>How \<open>server.serve()\<close> of uvicorn ends, and \<open>_safe_serve\<close> around it.\<close>

datatype serve_end = Served | ServeRaised exn | ServeExit int

definition safe_serve :: "serve_end \<Rightarrow> unit res" where
  "safe_serve r = (case r of Served \<Rightarrow> Inr () | ServeRaised e \<Rightarrow> Inl e
     | ServeExit code \<Rightarrow> Inl (RuntimeError (''Uvicorn failed to start (exit code '' @ str_of_int code @ '')'')))"

section \<open>\<open>main\<close>\<close>

datatype run_end = RunReturned | RunInvalid "verr list" | RunRaised exn | RunInterrupted

datatype process_end = Returned | ExitStatus int | Crashed exn

text \<open>What is written: the configuration error to standard error, or the error to the log.\<close>

datatype last_words = NoWords | OnStderr string | Logged string string

definition main_end :: "(verr list \<Rightarrow> string) \<Rightarrow> run_end \<Rightarrow> process_end \<times> last_words" where
  "main_end text r = (case r of
     RunReturned \<Rightarrow> (Returned, NoWords)
   | RunInvalid es \<Rightarrow> (ExitStatus 1, OnStderr (''Configuration invalid:'' @ [CHR 0x0A] @ text es @ [CHR 0x0A]))
   | RunRaised (RuntimeError m) \<Rightarrow> (ExitStatus 1, Logged ''Startup failed'' m)
   | RunRaised e \<Rightarrow> (Crashed e, NoWords)
   | RunInterrupted \<Rightarrow> (Returned, NoWords))"

text \<open>The arguments with which \<open>run\<close> configures logging.\<close>

definition configured_logging :: "(string \<Rightarrow> string option) \<Rightarrow> bool \<Rightarrow> settings \<Rightarrow> log_setup" where
  "configured_logging env isatty s =
     resolve_logging env isatty (Some (cfg_log_level s)) (Some (cfg_log_format s)) (Some (cfg_suppress_health_access_logs s))"

text \<open>
  The whole process. \<open>interrupted\<close> is the \<open>KeyboardInterrupt\<close> that \<open>asyncio.run\<close> raises when it is interrupted before
  signal handlers are installed; what \<open>run\<close> has done is then that of the same run.
\<close>

definition service_main ::
  "settings_types \<Rightarrow> settings_sources \<Rightarrow> aws \<Rightarrow> (verr list \<Rightarrow> string) \<Rightarrow> ('w, 'k, 'u) host \<Rightarrow> bool \<Rightarrow> bool
    \<Rightarrow> process \<Rightarrow> 'w \<Rightarrow> 'k \<Rightarrow> 'u
    \<Rightarrow> (process_end \<times> last_words) \<times> log_setup option \<times> process \<times> ((('w, 'k, 'u) service, 'w) sum) option" where
  "service_main T R A text H isatty interrupted p w k u =
     (case get_settings T R A p of
        (Inl (ValidationError es), p1) \<Rightarrow> (main_end text (RunInvalid es), None, p1, None)
      | (Inl (Raised e), p1) \<Rightarrow> (main_end text (RunRaised e), None, p1, None)
      | (Inr s, p1) \<Rightarrow>
          (let setup = configured_logging (map_of (environ p1)) isatty s in
           case run H s w k u of
             (r, x) \<Rightarrow> (main_end text (if interrupted then RunInterrupted
                 else case r of Inl e \<Rightarrow> RunRaised e | Inr _ \<Rightarrow> RunReturned), Some setup, p1, Some x)))"

section \<open>Properties\<close>

lemma main_end_returned: "fst (main_end shown r) = Returned \<longleftrightarrow> r = RunReturned \<or> r = RunInterrupted"
  by (auto simp: main_end_def split: run_end.splits exn.splits)

lemma failed_checks_raise_runtime_error:
  assumes "startup_checks H s x = (Inl e, x')" and "cfg_redis_url s \<noteq> None"
  shows "\<exists>m. e = RuntimeError m"
proof -
  have R: "\<exists>m. e = RuntimeError m" if "check_redis C ip s True w = (Inl e, w')" for C ip w w' e
    using that assms(2) by (auto simp: check_redis_def redis_unavailable_def Let_def split: option.splits prod.splits sum.splits)
  have K: "\<exists>m. e = RuntimeError m" if "check_kafka H t pk = (Inl e, pk')" for t pk pk' e
    using that by (auto simp: check_kafka_def split: prod.splits sum.splits exn.splits)
  obtain rr w where r: "check_redis (h_redis H) (h_ip_host H) s True (redis_side x) = (rr, w)" by fastforce
  obtain kr pk where c: "check_kafka H (cfg_kafka_startup_timeout_sec s) (producer_side x) = (kr, pk)" by (rule prod.exhaust)
  have "rr = Inl e \<or> kr = Inl e"
    using assms(1) by (cases "h_race H"; cases rr; cases kr) (simp_all add: startup_checks_def r c)
  then show ?thesis using R [of "h_redis H"] K r c by metis
qed


text \<open>
  A service whose Redis or Kafka is not reachable at startup ends with status 1 and the reason in the log, without having
  served, whenever its resources can be closed.
\<close>

theorem unreachable_dependency_exits_1:
  assumes "get_settings T R A p = (Inr s, p1)" and "cfg_redis_url s \<noteq> None" and "cfg_kafka_bootstrap_servers s \<noteq> None"
    and "create_runtime_bundle H s w = (Inr b, w1)"
    and "startup_checks H s \<lparr>redis_side = w1, producer_side = (rb_producer b, k), client_side = (u, rb_registry b),
                server_should_exit = False, server_running = False\<rparr> = (Inl e, x)"
    and "close_runtime_bundle H b x = (Inr (), x')"
  shows "\<exists>m. e = RuntimeError m
    \<and> fst (service_main T R A shown H isatty False p w k u) = (ExitStatus 1, Logged ''Startup failed'' m)"
proof -
  obtain m where m: "e = RuntimeError m" using failed_checks_raise_runtime_error [OF assms(5,2)] by blast
  have "run H s w k u = (Inl e, Inl x')"
    using assms(2-6) by (simp add: run_def run_body_def)
  then show ?thesis using m assms(1) by (simp add: service_main_def Let_def main_end_def)
qed

definition local_process :: process where
  "local_process = \<lparr>environ = [], secrets_loaded = False, settings_cache = None\<rparr>"

definition local_sources :: settings_sources where
  "local_sources = \<lparr>read_env = (\<lambda>_. local_source), read_all = (\<lambda>_. local_source)\<rparr>"

lemma local_settings: "\<exists>p. get_settings plain_types local_sources task_aws local_process = (Inr default_settings, p)"
proof -
  obtain s where "validate_settings plain_types Map.empty local_source = Inr s"
    using local_validates by (cases "validate_settings plain_types Map.empty local_source") auto
  then show ?thesis
    by (simp add: get_settings_def local_process_def local_sources_def default_settings_def merge_deployed_secrets_into_environ_def
        deployed_env_def env_get_def strip_def lstrip_def rstrip_def lower_def)
qed


end
