(* ===== verification/Slow_Log.thy ===== *)
theory Slow_Log
  imports Json
begin

text \<open>
  Warnings about slow messages, \<open>transport/session.py\<close>: the rate limit over module globals, the event that is logged, and
  the choice of the slowest phase. Clock readings and durations are rationals; \<open>fmt2\<close> is the formatting of a
  number with two decimals and \<open>fmt\<close> the one of a rounded number.
\<close>

section \<open>The slowest phase\<close>

type_synonym timings = "(string \<times> rat) list"

definition ORCHESTRATOR_LEAF_TIMING_KEYS :: "string list" where
  "ORCHESTRATOR_LEAF_TIMING_KEYS = [''validate_ms'', ''prepare_ms'', ''kafka_send_ms'', ''redis_commit_ms'', ''ack_build_ms'']"

text \<open>\<open>round(x, d)\<close>: to even when halfway.\<close>

definition py_round :: "nat \<Rightarrow> rat \<Rightarrow> rat" where
  "py_round d x = (let y = x * 10 ^ d; f = \<lfloor>y\<rfloor>; r = y - of_int f;
      n = (if r < 1 / 2 then f else if r > 1 / 2 then f + 1 else if even f then f else f + 1)
    in of_int n / 10 ^ d)"

text \<open>\<open>max(..., key=...)\<close>: the first of the greatest.\<close>

fun max_by_value :: "timings \<Rightarrow> (string \<times> rat) option" where
  "max_by_value [] = None"
| "max_by_value (kv # rest) = (case max_by_value rest of
     None \<Rightarrow> Some kv
   | Some b \<Rightarrow> if snd kv \<ge> snd b then Some kv else Some b)"

record bottleneck =
  bn_stage :: string
  bn_ms :: rat
  bn_pct :: rat

definition leaf_timings :: "timings \<Rightarrow> timings" where
  "leaf_timings t = concat (map (\<lambda>k. case map_of t k of None \<Rightarrow> [] | Some v \<Rightarrow> [(k, v)]) ORCHESTRATOR_LEAF_TIMING_KEYS)"

text \<open>The share of the orchestrator's time if that is known, else of the sum of the phases.\<close>

definition phase_share :: "timings \<Rightarrow> rat \<Rightarrow> rat \<times> string" where
  "phase_share t ms =
     (case map_of t ''orchestrator_ms'' of
        Some orch \<Rightarrow>
          if orch > 0 then (py_round 1 (100 * ms / orch), ''% of orchestrator_ms)'')
          else (let total = sum_list (map snd (leaf_timings t))
            in (if total > 0 then py_round 1 (100 * ms / total) else 0, ''% of summed leaf phases)''))
      | None \<Rightarrow> (let total = sum_list (map snd (leaf_timings t))
            in (if total > 0 then py_round 1 (100 * ms / total) else 0, ''% of summed leaf phases)'')))"

definition orchestrator_bottleneck ::
  "(rat \<Rightarrow> string) \<Rightarrow> (rat \<Rightarrow> string) \<Rightarrow> timings option \<Rightarrow> (bottleneck \<times> string) option" where
  "orchestrator_bottleneck fmt2 fmt timings_ms = (case timings_ms of
     None \<Rightarrow> None
   | Some t \<Rightarrow> (case max_by_value (leaf_timings t) of
       None \<Rightarrow> None
     | Some (stage, ms) \<Rightarrow> (case phase_share t ms of (pct, tail) \<Rightarrow>
         Some (\<lparr>bn_stage = stage, bn_ms = py_round 2 ms, bn_pct = pct\<rparr>,
           stage @ ''='' @ fmt2 ms @ ''ms (~'' @ fmt pct @ tail))))"

section \<open>The warning\<close>

record slow_log =
  window_started_at :: rat
  emitted_in_window :: int
  suppressed_count :: int

definition fresh_slow_log :: slow_log where
  "fresh_slow_log = \<lparr>window_started_at = 0, emitted_in_window = 0, suppressed_count = 0\<rparr>"

record slow_message =
  sm_threshold_ms :: rat
  sm_total_ms :: rat
  sm_now :: rat
  sm_conversation_id :: string
  sm_raw_json :: "json option"
  sm_response :: "dict option"
  sm_disconnect :: bool
  sm_close_code :: "int option"
  sm_decode_ms :: "rat option"
  sm_send_ms :: "rat option"
  sm_server_processing_ms :: "rat option"
  sm_timings_ms :: "timings option"

record slow_warning =
  w_conversation_id :: string
  w_threshold_ms :: rat
  w_total_ms :: rat
  w_suppressed :: int
  w_flow :: dict
  w_outcome :: dict
  w_stage_timings :: timings
  w_bottleneck :: "(bottleneck \<times> string) option"

text \<open>\<open>d.get(k)\<close> when \<open>d\<close> is a dictionary, else \<open>None\<close>.\<close>

definition get_if_dict :: "json \<Rightarrow> string \<Rightarrow> json" where
  "get_if_dict j k = (case j of JObj d \<Rightarrow> dict_get d k | _ \<Rightarrow> JNull)"

definition json_or_null :: "json option \<Rightarrow> json" where
  "json_or_null v = (case v of None \<Rightarrow> JNull | Some j \<Rightarrow> j)"

definition not_none :: "dict \<Rightarrow> dict" where
  "not_none d = filter (\<lambda>(k, v). v \<noteq> JNull) d"

definition optional_timing :: "string \<Rightarrow> rat option \<Rightarrow> timings" where
  "optional_timing k v = (case v of None \<Rightarrow> [] | Some x \<Rightarrow> [(k, x)])"

definition slow_warning_of ::
  "(rat \<Rightarrow> string) \<Rightarrow> (rat \<Rightarrow> string) \<Rightarrow> slow_message \<Rightarrow> int \<Rightarrow> slow_warning" where
  "slow_warning_of fmt2 fmt m suppressed =
     (let request = json_or_null (sm_raw_json m); response = json_or_null (map_option JObj (sm_response m));
          request_meta = get_if_dict request ''metaData''; request_payload = get_if_dict request ''payload'';
          response_meta = get_if_dict response ''metaData''; response_error = get_if_dict response ''error''
      in \<lparr>w_conversation_id = sm_conversation_id m, w_threshold_ms = sm_threshold_ms m, w_total_ms = sm_total_ms m,
        w_suppressed = suppressed,
        w_flow = not_none [(''request_event_type'', get_if_dict request_meta ''eventType''),
          (''response_event_type'', get_if_dict response_meta ''eventType''),
          (''sequence_number'', get_if_dict request_payload ''sequenceNumber''), (''speaker'', get_if_dict request_payload ''speaker'')],
        w_outcome = not_none [(''disconnect'', JBool (sm_disconnect m)),
          (''close_code'', case sm_close_code m of None \<Rightarrow> JNull | Some c \<Rightarrow> JInt c),
          (''error_code'', get_if_dict response_error ''code'')],
        w_stage_timings = dict_update (optional_timing ''decode_ms'' (sm_decode_ms m)
            @ optional_timing ''server_processing_ms'' (sm_server_processing_ms m) @ optional_timing ''send_ms'' (sm_send_ms m))
          (case sm_timings_ms m of None \<Rightarrow> [] | Some t \<Rightarrow> t),
        w_bottleneck = orchestrator_bottleneck fmt2 fmt (sm_timings_ms m)\<rparr>)"

definition slow_enough :: "slow_message \<Rightarrow> bool" where
  "slow_enough m \<longleftrightarrow> 0 < sm_threshold_ms m \<and> sm_threshold_ms m \<le> sm_total_ms m"

text \<open>\<open>_maybe_log_slow_message\<close>: the warning, if one is logged, and the globals.\<close>

definition maybe_log_slow_message ::
  "(rat \<Rightarrow> string) \<Rightarrow> (rat \<Rightarrow> string) \<Rightarrow> slow_message \<Rightarrow> slow_log \<Rightarrow> slow_warning option \<times> slow_log" where
  "maybe_log_slow_message fmt2 fmt m g =
     (if sm_threshold_ms m \<le> 0 then (None, g)
      else if sm_total_ms m < sm_threshold_ms m then (None, g)
      else
        (let opens = (window_started_at g = 0 \<or> sm_now m - window_started_at g \<ge> 1);
             suppressed_since_last_emit = (if opens then suppressed_count g else 0);
             g1 = (if opens then \<lparr>window_started_at = sm_now m, emitted_in_window = 0, suppressed_count = 0\<rparr> else g)
         in if emitted_in_window g1 \<ge> 1 then (None, g1\<lparr>suppressed_count := suppressed_count g1 + 1\<rparr>)
            else (Some (slow_warning_of fmt2 fmt m suppressed_since_last_emit),
              g1\<lparr>emitted_in_window := emitted_in_window g1 + 1\<rparr>)))"

text \<open>A series of messages: the warnings with their times, and the globals.\<close>

fun log_slow_messages ::
  "(rat \<Rightarrow> string) \<Rightarrow> (rat \<Rightarrow> string) \<Rightarrow> slow_message list \<Rightarrow> slow_log \<Rightarrow> (rat \<times> slow_warning) list \<times> slow_log" where
  "log_slow_messages fmt2 fmt [] g = ([], g)"
| "log_slow_messages fmt2 fmt (m # ms) g =
     (case maybe_log_slow_message fmt2 fmt m g of (w, g1) \<Rightarrow>
      (case log_slow_messages fmt2 fmt ms g1 of (ws, g2) \<Rightarrow>
        ((case w of None \<Rightarrow> ws | Some x \<Rightarrow> (sm_now m, x) # ws), g2)))"

section \<open>Invariant\<close>

text \<open>Before the first warning nothing has been suppressed; after it the window is open and its warning is out.\<close>

definition slow_ok :: "slow_log \<Rightarrow> bool" where
  "slow_ok g \<longleftrightarrow> 0 \<le> suppressed_count g
     \<and> (if window_started_at g = 0 then emitted_in_window g = 0 \<and> suppressed_count g = 0 else emitted_in_window g = 1)"

lemma slow_step:
  assumes "maybe_log_slow_message fmt2 fmt m g = (w, g')" and "slow_ok g" and "0 < sm_now m"
  shows "slow_ok g'"
    and "w = None \<Longrightarrow> window_started_at g' = window_started_at g
      \<and> suppressed_count g' = suppressed_count g + (if slow_enough m then 1 else 0)"
    and "w = Some x \<Longrightarrow> slow_enough m \<and> window_started_at g' = sm_now m \<and> suppressed_count g' = 0 \<and> w_suppressed x = suppressed_count g
      \<and> (window_started_at g = 0 \<or> window_started_at g + 1 \<le> sm_now m)"
  using assms
  by (auto simp: maybe_log_slow_message_def slow_ok_def slow_enough_def Let_def slow_warning_of_def split: if_splits)

lemma slow_run:
  assumes "log_slow_messages fmt2 fmt ms g = (ws, g')" and "slow_ok g" and "\<forall>m\<in>set ms. 0 < sm_now m"
  shows "slow_ok g' \<and> sorted_wrt (\<lambda>a b. fst a + 1 \<le> fst b) ws
    \<and> (\<forall>a\<in>set ws. window_started_at g = 0 \<or> window_started_at g + 1 \<le> fst a)
    \<and> int (length (filter slow_enough ms)) + suppressed_count g
        = int (length ws) + (\<Sum>a\<leftarrow>ws. w_suppressed (snd a)) + suppressed_count g'"
  using assms
proof (induction ms arbitrary: g ws)
  case (Cons m ms)
  obtain w g1 where s: "maybe_log_slow_message fmt2 fmt m g = (w, g1)" by fastforce
  obtain ws1 where r: "log_slow_messages fmt2 fmt ms g1 = (ws1, g')" using Cons.prems(1) s by (auto split: prod.splits)
  have pos: "0 < sm_now m" using Cons.prems(3) by simp
  note st = slow_step [OF s Cons.prems(2) pos]
  have ih: "slow_ok g' \<and> sorted_wrt (\<lambda>a b. fst a + 1 \<le> fst b) ws1
    \<and> (\<forall>a\<in>set ws1. window_started_at g1 = 0 \<or> window_started_at g1 + 1 \<le> fst a)
    \<and> int (length (filter slow_enough ms)) + suppressed_count g1
        = int (length ws1) + (\<Sum>a\<leftarrow>ws1. w_suppressed (snd a)) + suppressed_count g'"
    by (rule Cons.IH [OF r st(1)]) (use Cons.prems(3) in simp)
  show ?case
  proof (cases w)
    case None
    then show ?thesis using Cons.prems(1) s r ih st(2) by auto
  next
    case (Some x)
    have d: "ws = (sm_now m, x) # ws1" using Cons.prems(1) s r Some by auto
    have later: "\<forall>a\<in>set ws1. sm_now m + 1 \<le> fst a" using ih st(3) [OF Some] pos by auto
    moreover have "\<forall>a\<in>set ws1. window_started_at g = 0 \<or> window_started_at g + 1 \<le> fst a"
      using later st(3) [OF Some] by force
    ultimately show ?thesis using ih st(3) [OF Some] by (auto simp: d)
  qed
qed auto

section \<open>Properties\<close>

text \<open>
  Any two slow-message warnings are at least a second apart, and none is lost: the slow messages are those that were logged, those
  that later warnings count as suppressed, and those still waiting to be counted.
\<close>

theorem slow_warnings_rate_limited:
  assumes "log_slow_messages fmt2 fmt ms fresh_slow_log = (ws, g)" and "\<forall>m\<in>set ms. 0 < sm_now m"
  shows "sorted_wrt (\<lambda>a b. fst a + 1 \<le> fst b) ws
    \<and> int (length (filter slow_enough ms)) = int (length ws) + (\<Sum>a\<leftarrow>ws. w_suppressed (snd a)) + suppressed_count g"
  using slow_run [OF assms(1) _ assms(2)] by (simp add: slow_ok_def fresh_slow_log_def)

lemma max_by_value_max:
  "max_by_value t = Some (k, v) \<Longrightarrow> (k, v) \<in> set t \<and> (\<forall>(k', v')\<in>set t. v' \<le> v)"
proof (induction t arbitrary: k v)
  case (Cons a t)
  show ?case
  proof (cases "max_by_value t")
    case None
    then have "t = []" by (cases t) (auto split: option.splits if_splits)
    then show ?thesis using Cons.prems by auto
  next
    case (Some b)
    then show ?thesis using Cons.IH [of "fst b" "snd b"] Cons.prems by (fastforce split: if_splits)
  qed
qed simp

lemma leaf_timings_set: "set (leaf_timings t) = {(k, v). k \<in> set ORCHESTRATOR_LEAF_TIMING_KEYS \<and> map_of t k = Some v}"
  by (auto simp: leaf_timings_def split: option.splits)

text \<open>
  The phase that a warning names is a measured phase of the orchestrator, and none is slower.
\<close>

theorem bottleneck_is_slowest:
  assumes "orchestrator_bottleneck fmt2 fmt (Some t) = Some (b, hint)"
  shows "\<exists>ms. map_of t (bn_stage b) = Some ms \<and> bn_stage b \<in> set ORCHESTRATOR_LEAF_TIMING_KEYS \<and> bn_ms b = py_round 2 ms
    \<and> (\<forall>k\<in>set ORCHESTRATOR_LEAF_TIMING_KEYS. \<forall>v. map_of t k = Some v \<longrightarrow> v \<le> ms)"
proof -
  obtain stage ms where m: "max_by_value (leaf_timings t) = Some (stage, ms)" and b: "bn_stage b = stage" "bn_ms b = py_round 2 ms"
    using assms by (auto simp: orchestrator_bottleneck_def split: option.splits prod.splits)
  have "(stage, ms) \<in> set (leaf_timings t)" "\<forall>(k', v')\<in>set (leaf_timings t). v' \<le> ms" using max_by_value_max [OF m] by auto
  then show ?thesis using b by (auto simp: leaf_timings_set)
qed

definition sample_slow :: "rat \<Rightarrow> slow_message" where
  "sample_slow t = \<lparr>sm_threshold_ms = 100, sm_total_ms = 250, sm_now = t, sm_conversation_id = ''c1'', sm_raw_json = None, sm_response = None,
     sm_disconnect = False, sm_close_code = None, sm_decode_ms = None, sm_send_ms = None, sm_server_processing_ms = None,
     sm_timings_ms = Some [(''prepare_ms'', 2), (''kafka_send_ms'', 7)]\<rparr>"

theorem slow_warnings_rate_limited_witness:
  "\<exists>ws g. log_slow_messages (\<lambda>_. []) (\<lambda>_. []) [sample_slow 5, sample_slow (11 / 2), sample_slow 7] fresh_slow_log = (ws, g)
    \<and> 3 = int (length ws) + (\<Sum>a\<leftarrow>ws. w_suppressed (snd a)) + suppressed_count g"
proof -
  obtain ws g where l: "log_slow_messages (\<lambda>_. []) (\<lambda>_. []) [sample_slow 5, sample_slow (11 / 2), sample_slow 7] fresh_slow_log = (ws, g)"
    by fastforce
  show ?thesis using slow_warnings_rate_limited [OF l] l by (auto simp: sample_slow_def slow_enough_def)
qed

theorem bottleneck_is_slowest_witness:
  "\<exists>b hint. orchestrator_bottleneck (\<lambda>_. []) (\<lambda>_. []) (sm_timings_ms (sample_slow 5)) = Some (b, hint) \<and> bn_stage b \<in> set ORCHESTRATOR_LEAF_TIMING_KEYS"
proof -
  obtain b hint where o: "orchestrator_bottleneck (\<lambda>_. []) (\<lambda>_. []) (Some [(''prepare_ms'', 2), (''kafka_send_ms'', 7)]) = Some (b, hint)"
    by (simp add: orchestrator_bottleneck_def leaf_timings_def ORCHESTRATOR_LEAF_TIMING_KEYS_def phase_share_def Let_def)
  show ?thesis using bottleneck_is_slowest [OF o] o by (auto simp: sample_slow_def)
qed

end
