(* ===== verification/Spec2Isabelle.thy ===== *)
theory Spec2Isabelle
  imports Recovery Whole_Service Response_Schema Registry Session Handshake Url_Prefix Settings Secrets Logging Log_Setup Timestamp
    Sync_Cli Runtime Entry Slow_Log
begin

text \<open>
  A development about \<open>realtime_transcribe_service\<close>, a Python service that takes the transcripts of running calls over
  WebSocket connections and publishes them to Kafka, in order and each acknowledged to its sender. Sources are named
  relative to \<open>src/src/realtime_transcribe_service/\<close> unless they start with \<open>src/\<close>.

  The program. A client opens a WebSocket for one conversation. The handshake guard (\<open>transport/app.py\<close>) checks the
  conversation id, the bearer token (\<open>auth/\<close>), whether the service is draining (\<open>shutdown/graceful.py\<close>), the connection
  limit (\<open>transport/registry.py\<close>) and claims the conversation in Redis (\<open>redis/ownership_guard.py\<close>). The session
  (\<open>transport/session.py\<close>) receives frames, gives each to the orchestrator and sends its answer back, while a
  second task renews the ownership. The orchestrator (\<open>orchestrator/two_phase.py\<close>) validates a frame (\<open>schemas/request.py\<close>),
  compares its sequence number with the counter in Redis (\<open>redis/sequence_state_machine.py\<close>, a Lua script), publishes it
  (\<open>converter/\<close>, \<open>producer/\<close>), advances the counter (a second script) and answers with an acknowledgement or with one of the
  error scenarios (\<open>schemas/error_scenarios.py\<close>). Several instances share Redis and Kafka. Around that are
  the settings and the secrets loader (\<open>config/\<close>), the wiring, start and shutdown of the process (\<open>service_runtime.py\<close>,
  \<open>main.py\<close>), logging with redaction of secrets (\<open>config/logging_config.py\<close>), and the deployment tool that renders the
  configuration into AWS Secrets Manager (\<open>src/ci-cd/sync_secret.py\<close>).

  The theories, bottom up.

  \<^item> \<open>Prelude\<close>, \<open>Json\<close>: exceptions as values (\<open>exn + 'a\<close>), computations that pass a state and may raise, the string operations of
    Python, decimal numbers, Lua's doubles; JSON values and Python dictionaries.
  \<^item> \<open>Errors\<close>: error codes, close codes, the scenario table and the builders of response frames (\<open>schemas/\<close>).
    \<open>Response_Schema\<close>: the response models as checkers, and that every frame of a connection is an instance of one.
  \<^item> \<open>Request\<close>: the inbound models, their validators and business rules, the classification of validation errors.
  \<^item> \<open>Redis\<close>: the commands, the five Lua scripts, the client's arguments, loading of scripts; locales \<open>redis_database\<close> and
    \<open>redis_backend\<close> say what is relied on; \<open>clock_redis_ops\<close> and \<open>server_client\<close> are a Redis with a clock and faults.
  \<^item> \<open>Protocols\<close>: the protocol classes as records of operations and their contracts as the locales \<open>sequence_backend\<close>,
    \<open>ownership_backend\<close>, \<open>producer_backend\<close>.
  \<^item> \<open>Sequence\<close>, \<open>Sequence_Contract\<close>: \<open>RedisSequenceStateMachine\<close> and the proof of its contract. \<open>Ownership\<close>: the guard, its
    contract and the mutual exclusion of leases. \<open>Producer\<close>: the converter, the broker connections, \<open>KafkaProducer\<close> over
    aiokafka (locale \<open>kafka_cluster\<close>) and its contract.
  \<^item> \<open>Orchestrator\<close>: \<open>handle_message\<close>. \<open>Delivery\<close>: runs of the service handling one message after the other (locale
    \<open>orchestration\<close> over the contracts, \<open>deployment\<close> over the program's classes). \<open>Recovery\<close>: progress while the backends work.
  \<^item> \<open>Handler_Steps\<close>: the same handler as a coroutine, one step from each await to the next. \<open>Interleaving\<close>: any number of instances
    with any number of such handlers under way, as a step relation (locale \<open>service_fleet\<close>). \<open>Fleet\<close>: its interpretation on
    the program's classes.
  \<^item> \<open>Registry\<close>, \<open>Session\<close>, \<open>Slow_Log\<close>, \<open>Auth\<close>, \<open>Handshake\<close>, \<open>App\<close>: the transport layer with its registry, endpoint, message and
    refresh loops, warnings about slow messages, authentication, admission, application factory and probes.
  \<^item> \<open>Shared_Redis\<close>: the keys of the counters and of the owners in one database, and that neither class touches the other's.
    \<open>Composition\<close>: the whole service as one step relation, connections of all instances from the handshake's claim to the release, each
    message handled by the coroutine. \<open>Composition_Safety\<close> (locale \<open>composed_service\<close>): its invariant and the handlers it
    refines. \<open>Wire\<close> (locale \<open>taped_service\<close>): what was sent. \<open>Open_Connections\<close>: the registries. \<open>Whole_Service\<close>: the properties.
  \<^item> \<open>Url_Prefix\<close>, \<open>Settings\<close>, \<open>Secrets\<close>: the mount prefix with its replace loop, all fields and rules of the configuration, the
    layers of a deployed environment.
  \<^item> \<open>Logging\<close>, \<open>Log_Setup\<close>: redaction, processors and their order, the access filter, levels and handlers. \<open>Timestamp\<close>: the
    text of an instant over the calendar of \<open>datetime\<close>.
  \<^item> \<open>Runtime\<close>, \<open>Entry\<close>: wiring, startup checks, serving, graceful stop, teardown; the exit of the process.
  \<^item> \<open>Sync\<close>, \<open>Sync_Cli\<close>: rendering, validating and storing a deployment's configuration; the command line.

  What is proved. For Kafka: under every failure that the backends may show, in every interleaving and with expiring
  counters, a conversation's topic has no gap and every acknowledged number is in it (\<open>Fleet\<close>); without reported failures
  each number is there exactly once (\<open>Delivery\<close>); the steps of the coroutine are the handler (\<open>Handler_Steps\<close>); a client
  that retransmits is acknowledged to the end (\<open>Recovery\<close>). The counter itself needs more than that: it only counts up while
  one handler at a time works on a conversation, and a commit that is overtaken moves it back, which \<open>Fleet\<close> shows on a
  schedule. For the composition (\<open>Whole_Service\<close>): its runs are runs of \<open>Fleet\<close>; an acknowledgement handed to a socket is
  of the connection's own conversation and true, even when backends fail and leases are lost; while leases are
  renewed in time a conversation has one connection and its counter only counts up; the registries are the open connections;
  and the steps of a connection without interruption are those of \<open>Session\<close> with the whole handler. For
  connections: leases exclude each other, an admitted connection has passed every check, a refused one got one answer of its
  check's status, a session touches its own conversation only, answers each frame at most once, sends only frames of the
  published models and gives up what it claimed. For the process: accepted settings satisfy every bound and rule and build the
  service; however a run ends its resources are released; the exit status tells the truth; secrets have their precedence; what
  the pipeline validated is what a task starts with; logs and dry runs do not depend on passwords. Theorems without a number
  state smaller facts, among them the defects that modelling showed.

  Parameters. Code outside the repository is never defined: redis-py and Redis (\<open>redis_client\<close>, \<open>redis_ops\<close>), aiokafka,
  orjson, pydantic's conversion of single values, PyJWT, ASGI servers, FastAPI, uvicorn, boto3, python-dotenv, structlog,
  \<open>tomllib\<close>, \<open>json.dumps\<close> and the file system are arguments. What is relied on is in the locales named above and in the assumptions of
  the theorems, and each is instantiated: by a Redis with a clock, expiry, an evicting script cache and a list of faults, by a broker that keeps,
  delays or loses unconfirmed records, by a strict pydantic, and by scripted connections.

  Granularity and bounds. Every await is a step of its own where interleaving matters (\<open>Handler_Steps\<close>, \<open>Session\<close>, \<open>Composition\<close>); between
  two awaits the event loop runs one task, so the code there is one function. A Lua script is atomic, as in Redis. Python's
  integers are \<open>int\<close>; Lua's numbers are doubles, so the theorems about the counter hold below \<open>2 ^ 53\<close>
  (\<open>exact_limit\<close>), and at the limit the counter stops, which is a theorem of its own. Loops end by
  structural recursion or a measure; the only loop on data of the outside that could run on, the replacement of slashes, is also
  shown to be the \<open>while\<close> loop of the code. There is no fuel: long-running loops (the message loop, the refresh loop, a run of
  the fleet) are driven by arbitrary finite schedules, and the theorems hold for each.

  The composition starts where the handshake claims: the checks before the claim are in \<open>Handshake\<close>, and every connection may
  get so far. Connections that come past the handshake are in \<open>Session\<close> only. A refresh that is cancelled
  while its command is under way is taken to reach Redis before the release, or not at all. That leases are renewed in time
  is a condition on the passing of time, and the theorems say where they need it.

  Not modelled. Log records (but for the event of slow messages) and metrics; the dispatch of FastAPI and Starlette, but for the
  regular expression of the endpoint's route; uvicorn's ping and close handshake; the installation of signal handlers; reading
  the clock; what a startup check still does after the other one has failed, which is an arbitrary change of state; the
  texts of \<open>argparse\<close>, and the version-dependent corner where an option's value is \<open>--\<close>; pydantic's check for unknown keys in
  an \<open>.env\<close> file; floats that are no numbers or infinite (floats are rationals); characters beyond Latin-1, which strings
  here cannot hold: the code compares and cuts text but does not depend on such characters; generation of tokens and
  random identifiers, which are arguments.
\<close>

end
